(* ===== verification/Prelude.thy ===== *)
theory Prelude
  imports Main "HOL-Library.Word" "HOL-Library.Multiset"
begin

text \<open>
  Shared vocabulary of the development: the machine integer types of the C sources, the
  result type that carries the ways a run of the program can end early, the sequencing
  combinators the operations are written with, and the generic lemmas (loops with a
  result, arrays as functions, circular arithmetic on \<open>unsigned long\<close>) that the component
  theories share.
\<close>

unbundle bit_operations_syntax

section \<open>Machine integers\<close>

type_synonym u8 = "8 word"
type_synonym u32 = "32 word"
type_synonym u64 = "64 word"

text \<open>
  C \<open>int\<close> and \<open>long long\<close> values are \<^typ>\<open>int\<close>; a conversion from an unsigned type to a
  signed one, where the code makes it, is written with one of the functions below.
\<close>

definition s32_of_u64 :: "u64 \<Rightarrow> int" where
  "s32_of_u64 x = sint (ucast x :: u32)"

definition s32_of_u32 :: "u32 \<Rightarrow> int" where
  "s32_of_u32 x = sint x"

definition s64_of_u64 :: "u64 \<Rightarrow> int" where
  "s64_of_u64 x = sint x"

definition u32_of_int :: "int \<Rightarrow> u32" where
  "u32_of_int n = word_of_int n"

definition u64_of_int :: "int \<Rightarrow> u64" where
  "u64_of_int n = word_of_int n"

lemma s32_of_u64_small:
  assumes "unat x < 2 ^ 31"
  shows "s32_of_u64 x = int (unat x)"
proof -
  have "int (unat x) < int (2 ^ 31)"
    using assms by (simp only: of_nat_less_iff)
  then have "uint x < 2 ^ 31"
    by (simp only: uint_nat of_nat_power of_nat_numeral)
  moreover have "- (2 ^ 31) \<le> uint x"
    by (rule order_trans [of _ 0]) simp_all
  ultimately have "signed_take_bit 31 (uint x) = uint x"
    by (intro signed_take_bit_int_eq_self)
  then show ?thesis
    by (simp add: s32_of_u64_def sint_uint unsigned_ucast_eq signed_take_bit_take_bit)
qed

lemma unat_exp_u64:
  assumes "k < 64"
  shows "unat (2 ^ k :: u64) = 2 ^ k"
proof -
  have "(2::nat) ^ k < 2 ^ 64"
    using assms by (simp only: power_strict_increasing_iff)
  then have "unat (of_nat (2 ^ k) :: u64) = 2 ^ k"
    by (simp only: unat_of_nat) simp
  then show ?thesis by simp
qed

text \<open>Decrement of an \<open>unsigned long\<close> that is kept as a natural number: it wraps at zero.\<close>

definition ul_sub :: "nat \<Rightarrow> nat \<Rightarrow> nat" where
  "ul_sub a b = (if b \<le> a then a - b else a + 2 ^ 64 - b)"

lemma ul_sub_le [simp]: "b \<le> a \<Longrightarrow> ul_sub a b = a - b"
  by (simp add: ul_sub_def)

lemma ul_sub_zero_ge: "ul_sub 0 (Suc 0) = 2 ^ 64 - 1"
  by (simp add: ul_sub_def)

text \<open>Sum and product of two of them wrap at \<open>2 ^ 64\<close>.\<close>

definition ul_add :: "nat \<Rightarrow> nat \<Rightarrow> nat" where
  "ul_add a b = (a + b) mod 2 ^ 64"

definition ul_mul :: "nat \<Rightarrow> nat \<Rightarrow> nat" where
  "ul_mul a b = (a * b) mod 2 ^ 64"

lemma ul_add_small: "a + b < 2 ^ 64 \<Longrightarrow> ul_add a b = a + b"
  by (simp add: ul_add_def)

lemma ul_mul_small: "a * b < 2 ^ 64 \<Longrightarrow> ul_mul a b = a * b"
  by (simp add: ul_mul_def)

text \<open>A sum that wraps is smaller than both of its summands.\<close>

lemma ul_add_wraps:
  assumes "2 ^ 64 \<le> a + b" and "a < 2 ^ 64" and "b < 2 ^ 64"
  shows "ul_add a b < a" and "ul_add a b < b"
proof -
  have "ul_add a b = a + b - 2 ^ 64"
    using assms by (simp add: ul_add_def mod_if)
  then show "ul_add a b < a" and "ul_add a b < b"
    using assms by linarith+
qed

text \<open>What \<open>malloc\<close>, \<open>calloc\<close> and \<open>realloc\<close> grant: what \<open>mem_ok\<close> says, but no object of more than
  \<open>PTRDIFF_MAX\<close> bytes.\<close>

definition granted :: "(nat \<Rightarrow> bool) \<Rightarrow> nat \<Rightarrow> bool" where
  "granted mem_ok n \<longleftrightarrow> n < 2 ^ 63 \<and> mem_ok n"

text \<open>Evaluation goes through \<open>int\<close>, whose numbers are binary.\<close>

lemma ul_add_code [code]:
  "ul_add a b = (if int a + int b < 2 ^ 64 then a + b else nat ((int a + int b) mod 2 ^ 64))"
  by (simp add: ul_add_def nat_mod_distrib nat_add_distrib)

lemma ul_mul_code [code]:
  "ul_mul a b = (if int a * int b < 2 ^ 64 then a * b else nat ((int a * int b) mod 2 ^ 64))"
proof (cases "int a * int b < 2 ^ 64")
  case True
  then have "int (a * b) < int (2 ^ 64)"
    by simp
  then have "a * b < 2 ^ 64"
    by (simp only: of_nat_less_iff)
  with True show ?thesis
    by (simp add: ul_mul_def)
qed (simp add: ul_mul_def nat_mod_distrib nat_mult_distrib)

lemma granted_code [code]: "granted mem_ok n \<longleftrightarrow> int n < 2 ^ 63 \<and> mem_ok n"
proof -
  have "int n < int (2 ^ 63) \<longleftrightarrow> n < 2 ^ 63"
    by (simp only: of_nat_less_iff)
  then show ?thesis
    by (simp add: granted_def)
qed

section \<open>How a run can end early\<close>

text \<open>
  \<open>ExitWith n\<close> is a call of \<open>exit(n)\<close> (also from \<open>die\<close> and \<open>perrdie\<close>), \<open>AssertFailed\<close>
  a failed \<open>assert\<close>, \<open>DivideError\<close> an integer division by zero (\<open>SIGFPE\<close> on the target),
  \<open>BadAccess\<close> an access outside the object the code means, \<open>UseAfterFree\<close> an access to
  memory that has been released. \<open>NeverReturns n ident\<close> is no end at all: the run stays in the busy
  wait for the \<open>n\<close>-th child it forked, the program \<open>ident\<close>, for ever.
\<close>

datatype fault =
    ExitWith int
  | AssertFailed
  | DivideError
  | BadAccess
  | UseAfterFree
  | NeverReturns nat int

type_synonym 'a res = "fault + 'a"

definition bindR :: "'a res \<Rightarrow> ('a \<Rightarrow> 'b res) \<Rightarrow> 'b res" where
  "bindR m f = (case m of Inl e \<Rightarrow> Inl e | Inr x \<Rightarrow> f x)"

named_theorems res_simps \<open>rewriting of computations that may fault\<close>

lemma bindR_Inr [simp]: "bindR (Inr x) f = f x"
  by (simp add: bindR_def)

lemma bindR_Inl [simp]: "bindR (Inl e) f = Inl e"
  by (simp add: bindR_def)

lemma bindR_cong: "m = m' \<Longrightarrow> (\<And>x. m' = Inr x \<Longrightarrow> f x = g x) \<Longrightarrow> bindR m f = bindR m' g"
  by (cases m') (simp_all add: bindR_def)

lemma bindR_eq_Inr [res_simps]: "bindR m f = Inr y \<longleftrightarrow> (\<exists>x. m = Inr x \<and> f x = Inr y)"
  by (cases m) auto

lemma bindR_E: "bindR m f = Inr y \<Longrightarrow> (\<And>x. m = Inr x \<Longrightarrow> f x = Inr y \<Longrightarrow> P) \<Longrightarrow> P"
  by (auto simp: bindR_eq_Inr)

lemma bindR_pairE:
  "bindR m (\<lambda>(x, y). f x y) = Inr z \<Longrightarrow> (\<And>x y. m = Inr (x, y) \<Longrightarrow> f x y = Inr z \<Longrightarrow> P) \<Longrightarrow> P"
  by (auto simp: bindR_eq_Inr split: prod.splits)

lemma bindR_assoc: "bindR (bindR m f) g = bindR m (\<lambda>x. bindR (f x) g)"
  by (cases m) auto

definition guardR :: "bool \<Rightarrow> fault \<Rightarrow> 'a \<Rightarrow> 'a res" where
  "guardR c e x = (if c then Inr x else Inl e)"

lemma guardR_eq_Inr [res_simps]: "guardR c e x = Inr y \<longleftrightarrow> c \<and> y = x"
  by (auto simp: guardR_def)

lemma guardR_True [simp]: "guardR True e x = Inr x"
  by (simp add: guardR_def)

text \<open>A loop over the elements of a list that passes a state on and stops at the first fault.\<close>

fun foldR :: "('x \<Rightarrow> 's \<Rightarrow> 's res) \<Rightarrow> 'x list \<Rightarrow> 's \<Rightarrow> 's res" where
  "foldR f [] s = Inr s"
| "foldR f (x # xs) s = bindR (f x s) (foldR f xs)"

lemma foldR_append: "foldR f (xs @ ys) s = bindR (foldR f xs s) (foldR f ys)"
  by (induction xs arbitrary: s) (auto simp: bindR_def split: sum.splits)

lemma foldR_invariant:
  assumes "foldR f xs s = Inr s'" and "P s"
    and "\<And>x t t'. x \<in> set xs \<Longrightarrow> P t \<Longrightarrow> f x t = Inr t' \<Longrightarrow> P t'"
  shows "P s'"
  using assms
proof (induction xs arbitrary: s)
  case Nil
  then show ?case by simp
next
  case (Cons x xs)
  from Cons.prems(1) obtain t where t: "f x s = Inr t" "foldR f xs t = Inr s'"
    by (auto simp: res_simps)
  have "P t"
    using Cons.prems(2,3) t(1) by (meson list.set_intros(1))
  with t(2) show ?case
    by (rule Cons.IH) (use Cons.prems(3) in \<open>meson list.set_intros(2)\<close>)
qed

lemma foldR_total:
  assumes "P s" and "\<And>x t. x \<in> set xs \<Longrightarrow> P t \<Longrightarrow> \<exists>t'. f x t = Inr t' \<and> P t'"
  shows "\<exists>s'. foldR f xs s = Inr s' \<and> P s'"
  using assms
proof (induction xs arbitrary: s)
  case Nil
  then show ?case by simp
next
  case (Cons x xs)
  from Cons.prems obtain t where t: "f x s = Inr t" "P t"
    by (meson list.set_intros(1))
  from t(2) have "\<exists>s'. foldR f xs t = Inr s' \<and> P s'"
    by (rule Cons.IH) (use Cons.prems(2) in \<open>meson list.set_intros(2)\<close>)
  with t(1) show ?case by simp
qed

section \<open>Arrays\<close>

text \<open>Checked access to an array whose index is a C \<open>int\<close>.\<close>

definition arr_get :: "'a list \<Rightarrow> int \<Rightarrow> 'a res" where
  "arr_get xs i = (if 0 \<le> i \<and> i < int (length xs) then Inr (xs ! nat i) else Inl BadAccess)"

definition arr_set :: "'a list \<Rightarrow> int \<Rightarrow> 'a \<Rightarrow> 'a list res" where
  "arr_set xs i v =
     (if 0 \<le> i \<and> i < int (length xs) then Inr (xs[nat i := v]) else Inl BadAccess)"

lemma map_upt_nth: "length xs = n \<Longrightarrow> map (\<lambda>i. f (xs ! i)) [0..<n] = map f xs"
  by (auto intro: nth_equalityI)

lemma arr_get_eq_Inr [res_simps]:
  "arr_get xs i = Inr v \<longleftrightarrow> 0 \<le> i \<and> i < int (length xs) \<and> v = xs ! nat i"
  by (auto simp: arr_get_def)

lemma arr_set_eq_Inr [res_simps]:
  "arr_set xs i v = Inr ys \<longleftrightarrow> 0 \<le> i \<and> i < int (length xs) \<and> ys = xs[nat i := v]"
  by (auto simp: arr_set_def)

text \<open>
  A block of memory read as a function from slot numbers; \<open>block_list h n\<close> is its first
  \<open>n\<close> slots.
\<close>

definition block_list :: "(nat \<Rightarrow> 'a) \<Rightarrow> nat \<Rightarrow> 'a list" where
  "block_list h n = map h [0..<n]"

abbreviation block_mset :: "(nat \<Rightarrow> 'a) \<Rightarrow> nat \<Rightarrow> 'a multiset" where
  "block_mset h n \<equiv> mset (block_list h n)"

lemma length_block_list [simp]: "length (block_list h n) = n"
  by (simp add: block_list_def)

lemma nth_block_list [simp]: "i < n \<Longrightarrow> block_list h n ! i = h i"
  by (simp add: block_list_def)

lemma block_list_Suc: "block_list h (Suc n) = block_list h n @ [h n]"
  by (simp add: block_list_def)

lemma block_list_0 [simp]: "block_list h 0 = []"
  by (simp add: block_list_def)

lemma set_block_list: "set (block_list h n) = h ` {..<n}"
  by (auto simp: block_list_def)

lemma block_list_upd: "i < n \<Longrightarrow> block_list (h(i := v)) n = (block_list h n)[i := v]"
  by (rule nth_equalityI) (auto simp: nth_list_update)

lemma block_list_upd_beyond [simp]: "n \<le> i \<Longrightarrow> block_list (h(i := v)) n = block_list h n"
  by (auto simp: block_list_def)

lemma block_mset_upd:
  "i < n \<Longrightarrow> add_mset (h i) (block_mset (h(i := v)) n) = add_mset v (block_mset h n)"
proof -
  assume i: "i < n"
  then have "mset ((block_list h n)[i := v]) = add_mset v (block_mset h n - {#h i#})"
    by (simp add: mset_update)
  moreover have "h i \<in># block_mset h n"
    using i by (force simp: set_block_list)
  ultimately show ?thesis
    using i by (simp add: block_list_upd)
qed

lemma block_mset_Suc: "block_mset h (Suc n) = add_mset (h n) (block_mset h n)"
  by (simp add: block_list_Suc)

lemma block_mset_mem [intro]: "i < n \<Longrightarrow> h i \<in># block_mset h n"
  by (auto simp: set_block_list)

end
