(* ===== verification/DynArray.thy ===== *)
theory DynArray
  imports Prelude
begin

text \<open>
  The growing array of \<^verbatim>\<open>dynarray.c\<close>. The block behind \<open>elems\<close> is a function from slot
  numbers to contents: a slot that no one has written holds whatever the block held when it
  was allocated. A pointer into the block is its slot number (the code's address is
  \<open>elems + elem_size * idx\<close>). The sizes and counts are \<open>unsigned long\<close>: natural numbers whose sums
  and products wrap (\<open>ul_add\<close>, \<open>ul_mul\<close>). \<open>mem_ok n\<close> says whether \<open>malloc\<close> and \<open>realloc\<close> grant
  \<open>n\<close> bytes, if \<open>n\<close> is not more than any object can have (\<open>granted\<close>); every operation that
  allocates takes it, and ends with \<open>exit(1)\<close> where it refuses.
\<close>

record 'a dynarray =
  elems :: "nat \<Rightarrow> 'a"
  elems_nr :: nat
  elem_size :: nat
  next_idx :: nat
  alloc_grain :: nat

section \<open>Operations\<close>

definition sizeof_dynarray :: nat where
  "sizeof_dynarray = 40"

definition dynarray_create ::
    "(nat \<Rightarrow> bool) \<Rightarrow> (nat \<Rightarrow> 'a) \<Rightarrow> nat \<Rightarrow> nat \<Rightarrow> 'a dynarray res" where
  "dynarray_create mem_ok fresh esize grain =
     (if \<not> granted mem_ok sizeof_dynarray then Inl (ExitWith 1)
      else if \<not> granted mem_ok (ul_mul esize grain) then Inl (ExitWith 1)
      else Inr \<lparr>elems = fresh, elems_nr = grain, elem_size = esize, next_idx = 0,
                alloc_grain = grain\<rparr>)"

definition dynarray_init_frombuff ::
    "(nat \<Rightarrow> bool) \<Rightarrow> nat \<Rightarrow> nat \<Rightarrow> (nat \<Rightarrow> 'a) \<Rightarrow> nat \<Rightarrow> 'a dynarray res" where
  "dynarray_init_frombuff mem_ok esize grain buf n =
     (if \<not> granted mem_ok sizeof_dynarray then Inl (ExitWith 1)
      else if grain = 0 then Inl DivideError
      else let rem = n mod grain;
               da = \<lparr>elems = buf, elems_nr = n, elem_size = esize, next_idx = n,
                     alloc_grain = grain\<rparr>
           in if rem \<noteq> 0
              then if granted mem_ok (ul_mul esize (ul_add n rem)) then Inr (da\<lparr>elems_nr := ul_add n rem\<rparr>)
                   else Inl (ExitWith 1)
              else Inr da)"

definition dynarray_get :: "'a dynarray \<Rightarrow> nat \<Rightarrow> nat res" where
  "dynarray_get da idx = (if idx \<ge> next_idx da then Inl (ExitWith 1) else Inr idx)"

definition dynarray_get_last :: "'a dynarray \<Rightarrow> nat res" where
  "dynarray_get_last da = dynarray_get da (ul_sub (next_idx da) 1)"

definition dynarray_expand :: "(nat \<Rightarrow> bool) \<Rightarrow> 'a dynarray \<Rightarrow> 'a dynarray res" where
  "dynarray_expand mem_ok da =
     (let nr = ul_add (elems_nr da) (alloc_grain da)
      in if granted mem_ok (ul_mul (elem_size da) nr) then Inr (da\<lparr>elems_nr := nr\<rparr>) else Inl (ExitWith 1))"

definition dynarray_alloc :: "(nat \<Rightarrow> bool) \<Rightarrow> 'a dynarray \<Rightarrow> ('a dynarray \<times> nat) res" where
  "dynarray_alloc mem_ok da =
     bindR (if next_idx da \<ge> elems_nr da then dynarray_expand mem_ok da else Inr da) (\<lambda>da.
     let da = da\<lparr>next_idx := ul_add (next_idx da) 1\<rparr>
     in bindR (dynarray_get_last da) (\<lambda>p. Inr (da, p)))"

definition dynarray_dealloc :: "'a dynarray \<Rightarrow> 'a dynarray" where
  "dynarray_dealloc da = da\<lparr>next_idx := ul_sub (next_idx da) 1\<rparr>"

text \<open>
  The loop \<open>while (next_idx + nr >= elems_nr) expand\<close>, shared by \<open>dynarray_alloc_nr\<close> and
  \<open>dynarray_align\<close>. It does not end when the grain is zero and memory is never refused, so
  it returns an option. The sum wraps before it is compared.
\<close>

partial_function (option) expand_while ::
    "(nat \<Rightarrow> bool) \<Rightarrow> nat \<Rightarrow> 'a dynarray \<Rightarrow> 'a dynarray res option" where
  "expand_while mem_ok nr da =
     (if ul_add (next_idx da) nr \<ge> elems_nr da
      then case dynarray_expand mem_ok da of
             Inl e \<Rightarrow> Some (Inl e)
           | Inr da' \<Rightarrow> expand_while mem_ok nr da'
      else Some (Inr da))"

definition dynarray_alloc_nr ::
    "(nat \<Rightarrow> bool) \<Rightarrow> 'a dynarray \<Rightarrow> nat \<Rightarrow> ('a dynarray \<times> nat) res option" where
  "dynarray_alloc_nr mem_ok da nr =
     map_option (\<lambda>r. bindR r (\<lambda>da.
       let idx = next_idx da;
           da = da\<lparr>next_idx := ul_add (next_idx da) nr\<rparr>
       in bindR (dynarray_get da idx) (\<lambda>p. Inr (da, p))))
     (expand_while mem_ok nr da)"

text \<open>The padding is computed on \<open>unsigned long\<close>, passes through an \<open>int\<close> and is widened again.\<close>

definition align_padding :: "nat \<Rightarrow> nat \<Rightarrow> nat" where
  "align_padding next align =
     (let a = (of_nat align :: u64); n = (of_nat next :: u64);
          nr_padd = (ucast ((a - (n AND (a - 1))) AND (a - 1)) :: u32)
      in unat (scast nr_padd :: u64))"

definition dynarray_align ::
    "(nat \<Rightarrow> bool) \<Rightarrow> 'a dynarray \<Rightarrow> nat \<Rightarrow> 'a dynarray res option" where
  "dynarray_align mem_ok da align =
     (let nr_padd = align_padding (next_idx da) align
      in map_option (\<lambda>r. bindR r (\<lambda>da. Inr (da\<lparr>next_idx := ul_add (next_idx da) nr_padd\<rparr>)))
         (expand_while mem_ok nr_padd da))"

definition dynarray_alloc_nr_aligned ::
    "(nat \<Rightarrow> bool) \<Rightarrow> 'a dynarray \<Rightarrow> nat \<Rightarrow> nat \<Rightarrow> ('a dynarray \<times> nat) res option" where
  "dynarray_alloc_nr_aligned mem_ok da nr align =
     (case dynarray_align mem_ok da align of
        None \<Rightarrow> None
      | Some (Inl e) \<Rightarrow> Some (Inl e)
      | Some (Inr da) \<Rightarrow> dynarray_alloc_nr mem_ok da nr)"

definition dynarray_dealloc_nr :: "'a dynarray \<Rightarrow> nat \<Rightarrow> 'a dynarray res" where
  "dynarray_dealloc_nr da nr =
     (if next_idx da < nr then Inl (ExitWith 1)
      else Inr (da\<lparr>next_idx := next_idx da - nr\<rparr>))"

definition dynarray_dealloc_all :: "'a dynarray \<Rightarrow> 'a dynarray" where
  "dynarray_dealloc_all da = da\<lparr>next_idx := 0\<rparr>"

definition dynarray_size :: "'a dynarray \<Rightarrow> nat" where
  "dynarray_size da = next_idx da"

text \<open>\<open>dynarray_destroy\<close> hands the caller the block, cut to the slots in use.\<close>

definition dynarray_destroy :: "'a dynarray \<Rightarrow> 'a list" where
  "dynarray_destroy da = block_list (elems da) (next_idx da)"

section \<open>Well-formedness and the list the array stands for\<close>

text \<open>The block is one that \<open>malloc\<close> can have granted, and so would be one grain of it.\<close>

definition da_wf :: "'a dynarray \<Rightarrow> bool" where
  "da_wf da \<longleftrightarrow> next_idx da \<le> elems_nr da \<and> 0 < alloc_grain da \<and> 0 < elem_size da
     \<and> elem_size da * elems_nr da < 2 ^ 63 \<and> elem_size da * alloc_grain da < 2 ^ 63"

definition da_list :: "'a dynarray \<Rightarrow> 'a list" where
  "da_list da = block_list (elems da) (next_idx da)"

lemmas dynarray_defs = dynarray_create_def dynarray_get_def dynarray_get_last_def
  dynarray_expand_def dynarray_alloc_def dynarray_dealloc_def dynarray_dealloc_nr_def
  dynarray_dealloc_all_def dynarray_size_def dynarray_destroy_def

lemma length_da_list [simp]: "length (da_list da) = dynarray_size da"
  by (simp add: da_list_def dynarray_size_def)

lemma da_wf_small:
  assumes "da_wf da"
  shows "elems_nr da < 2 ^ 63" and "next_idx da < 2 ^ 63" and "alloc_grain da < 2 ^ 63"
proof -
  have "n \<le> elem_size da * n" for n
    using assms by (simp add: da_wf_def)
  from this [of "elems_nr da"] this [of "alloc_grain da"] assms
  show "elems_nr da < 2 ^ 63" and "next_idx da < 2 ^ 63" and "alloc_grain da < 2 ^ 63"
    unfolding da_wf_def by linarith+
qed

lemma fits_sum:
  assumes "da_wf da" and "elem_size da * (next_idx da + nr + alloc_grain da) < 2 ^ 63"
  shows "next_idx da + nr < 2 ^ 63"
proof -
  have "1 * (next_idx da + nr + alloc_grain da) \<le> elem_size da * (next_idx da + nr + alloc_grain da)"
    using assms(1) by (intro mult_right_mono) (auto simp: da_wf_def)
  from order_le_less_trans [OF this assms(2)] show ?thesis by simp
qed

text \<open>One more grain never wraps, and is granted at most where it fits.\<close>

lemma dynarray_expand_wf:
  assumes "da_wf da"
  shows "dynarray_expand mem_ok da =
     (if granted mem_ok (elem_size da * (elems_nr da + alloc_grain da))
      then Inr (da\<lparr>elems_nr := elems_nr da + alloc_grain da\<rparr>) else Inl (ExitWith 1))"
proof -
  have "elems_nr da + alloc_grain da < 2 ^ 64"
    using da_wf_small [OF assms] by simp
  moreover have "elem_size da * (elems_nr da + alloc_grain da) < 2 ^ 64"
    using assms by (simp add: da_wf_def distrib_left)
  ultimately show ?thesis
    by (simp add: dynarray_expand_def ul_add_small ul_mul_small Let_def)
qed

lemma expanded_wf:
  "da_wf da \<Longrightarrow> granted mem_ok (elem_size da * (elems_nr da + alloc_grain da))
     \<Longrightarrow> da_wf (da\<lparr>elems_nr := elems_nr da + alloc_grain da\<rparr>)"
  by (simp add: da_wf_def granted_def)

lemma dynarray_create_wf:
  assumes "dynarray_create mem_ok fresh esize grain = Inr da" and "0 < grain" and "0 < esize"
    and "esize * grain < 2 ^ 64"
  shows "da_wf da \<and> da_list da = []"
  using assms by (auto simp: dynarray_create_def da_wf_def da_list_def granted_def ul_mul_small split: if_splits)

lemma dynarray_get_in_range [simp]: "idx < next_idx da \<Longrightarrow> dynarray_get da idx = Inr idx"
  by (simp add: dynarray_get_def)

lemma dynarray_alloc_effect:
  assumes "da_wf da" and "dynarray_alloc mem_ok da = Inr (da', p)"
  shows "da_wf da' \<and> p = next_idx da \<and> next_idx da' = Suc (next_idx da) \<and> elems da' = elems da
    \<and> elem_size da' = elem_size da \<and> alloc_grain da' = alloc_grain da"
proof -
  obtain da1 where da1: "(if next_idx da \<ge> elems_nr da then dynarray_expand mem_ok da else Inr da) = Inr da1"
      "dynarray_get_last da' = Inr p" "da' = da1\<lparr>next_idx := ul_add (next_idx da1) 1\<rparr>"
    using assms(2) unfolding dynarray_alloc_def Let_def bindR_eq_Inr by auto
  have wf1: "da_wf da1" and same: "next_idx da1 = next_idx da" "elems da1 = elems da"
      "elem_size da1 = elem_size da" "alloc_grain da1 = alloc_grain da" and room: "next_idx da < elems_nr da1"
    using da1(1) assms(1) expanded_wf [OF assms(1), of mem_ok]
    by (auto simp: dynarray_expand_wf da_wf_def split: if_splits)
  have "ul_add (next_idx da1) 1 = Suc (next_idx da1)"
    using da_wf_small(2) [OF wf1] by (simp add: ul_add_small)
  then show ?thesis
    using da1(2,3) wf1 same room by (auto simp: dynarray_get_last_def da_wf_def)
qed

lemma dynarray_alloc_total:
  assumes "da_wf da" and "\<And>n. mem_ok n" and "elem_size da * (next_idx da + alloc_grain da) < 2 ^ 63"
  shows "\<exists>da'. dynarray_alloc mem_ok da = Inr (da', next_idx da)"
proof -
  have "ul_add (next_idx da) 1 = Suc (next_idx da)"
    using da_wf_small(2) [OF assms(1)] by (simp add: ul_add_small)
  moreover have "granted mem_ok (elem_size da * (elems_nr da + alloc_grain da))" if "elems_nr da \<le> next_idx da"
    using that assms by (simp add: granted_def da_wf_def)
  ultimately show ?thesis
    using assms(1) by (auto simp: dynarray_alloc_def dynarray_expand_wf dynarray_get_last_def Let_def)
qed

lemma dynarray_dealloc_effect:
  assumes "da_wf da" and "0 < next_idx da"
  shows "da_wf (dynarray_dealloc da) \<and> next_idx (dynarray_dealloc da) = next_idx da - 1
    \<and> elems (dynarray_dealloc da) = elems da"
  using assms by (auto simp: dynarray_dealloc_def da_wf_def)

text \<open>The growth loop always ends: the block grows by a grain that is not empty until it has the room
  or is refused. It changes the size of the block only.\<close>

lemma expand_while_step:
  "da_wf da \<Longrightarrow> expand_while mem_ok nr da =
     (if ul_add (next_idx da) nr < elems_nr da then Some (Inr da)
      else if granted mem_ok (elem_size da * (elems_nr da + alloc_grain da))
      then expand_while mem_ok nr (da\<lparr>elems_nr := elems_nr da + alloc_grain da\<rparr>)
      else Some (Inl (ExitWith 1)))"
  by (subst expand_while.simps) (simp add: dynarray_expand_wf)

definition grown :: "nat \<Rightarrow> 'a dynarray \<Rightarrow> 'a dynarray \<Rightarrow> bool" where
  "grown nr da da' \<longleftrightarrow> da_wf da' \<and> elems da' = elems da \<and> next_idx da' = next_idx da
     \<and> elem_size da' = elem_size da \<and> alloc_grain da' = alloc_grain da \<and> ul_add (next_idx da) nr < elems_nr da'"

lemma expand_while_returns:
  assumes "da_wf da"
  shows "expand_while mem_ok nr da = Some (Inl (ExitWith 1))
     \<or> (\<exists>da'. expand_while mem_ok nr da = Some (Inr da') \<and> grown nr da da')"
  using assms
proof (induction "2 ^ 63 - elems_nr da" arbitrary: da rule: less_induct)
  case less
  let ?da = "da\<lparr>elems_nr := elems_nr da + alloc_grain da\<rparr>"
  show ?case
  proof (cases "ul_add (next_idx da) nr < elems_nr da \<or> \<not> granted mem_ok (elem_size da * (elems_nr da + alloc_grain da))")
    case True
    then show ?thesis
      using less.prems by (auto simp: expand_while_step [OF less.prems] grown_def)
  next
    case False
    with less.prems have wf: "da_wf ?da"
      by (intro expanded_wf [of da mem_ok]) auto
    have "2 ^ 63 - elems_nr ?da < 2 ^ 63 - elems_nr da"
      using da_wf_small(1) [OF less.prems] less.prems by (auto simp: da_wf_def)
    from less.hyps [OF this wf] False show ?thesis
      by (auto simp: expand_while_step [OF less.prems] grown_def)
  qed
qed

section \<open>Bulk allocation and alignment\<close>

lemma expand_while_total:
  assumes "da_wf da" and "\<And>n. mem_ok n" and "elem_size da * (next_idx da + nr + alloc_grain da) < 2 ^ 63"
  shows "\<exists>da'. expand_while mem_ok nr da = Some (Inr da') \<and> grown nr da da'"
proof -
  have "expand_while mem_ok nr da \<noteq> Some (Inl (ExitWith 1))"
    using assms(1,3)
  proof (induction "2 ^ 63 - elems_nr da" arbitrary: da rule: less_induct)
    case less
    let ?da = "da\<lparr>elems_nr := elems_nr da + alloc_grain da\<rparr>"
    have sum: "ul_add (next_idx da) nr = next_idx da + nr"
      using fits_sum [OF less.prems] by (simp add: ul_add_small)
    show ?case
    proof (cases "next_idx da + nr < elems_nr da")
      case True
      then show ?thesis
        by (simp add: expand_while_step [OF less.prems(1)] sum)
    next
      case False
      then have "elem_size da * (elems_nr da + alloc_grain da) \<le> elem_size da * (next_idx da + nr + alloc_grain da)"
        by simp
      from order_le_less_trans [OF this less.prems(2)] have g: "granted mem_ok (elem_size da * (elems_nr da + alloc_grain da))"
        using assms(2) by (simp add: granted_def)
      have "2 ^ 63 - elems_nr ?da < 2 ^ 63 - elems_nr da"
        using da_wf_small(1) [OF less.prems(1)] less.prems(1) by (auto simp: da_wf_def)
      from less.hyps [OF this expanded_wf [OF less.prems(1) g]] less.prems(2) False g show ?thesis
        by (simp add: expand_while_step [OF less.prems(1)] sum)
    qed
  qed
  then show ?thesis
    using expand_while_returns [OF assms(1), of mem_ok nr] by blast
qed

text \<open>A demand that cannot fit into any block is refused or wraps.\<close>

lemma expand_while_refused:
  assumes "da_wf da" and "2 ^ 63 \<le> elem_size da * (next_idx da + nr)" and "next_idx da + nr < 2 ^ 64"
  shows "expand_while mem_ok nr da = Some (Inl (ExitWith 1))"
proof -
  have False if "grown nr da da'" for da'
  proof -
    have "next_idx da + nr < elems_nr da'" and "elem_size da * elems_nr da' < 2 ^ 63"
      using that assms(3) by (auto simp: grown_def da_wf_def ul_add_small)
    moreover from this(1) have "elem_size da * (next_idx da + nr) \<le> elem_size da * elems_nr da'"
      by simp
    ultimately show False
      using assms(2) by linarith
  qed
  then show ?thesis
    using expand_while_returns [OF assms(1), of mem_ok nr] by blast
qed

text \<open>The padding for a power of two is what is missing to the next multiple.\<close>

lemma align_padding_pow2:
  assumes "k < 31" and "n < 2 ^ 64"
  shows "align_padding n (2 ^ k) = (2 ^ k - n mod 2 ^ k) mod 2 ^ k"
proof -
  let ?N = "of_nat n :: u64"
  have m: "(of_nat (2 ^ k) :: u64) = 2 ^ k"
    by simp
  have band: "x AND (2 ^ k - 1) = take_bit k x" for x :: u64
    by (simp add: take_bit_eq_mask mask_eq_exp_minus_1)
  have un: "unat ?N = n"
    using assms(2) by (simp add: unat_of_nat take_bit_nat_eq_self)
  have pk: "unat (2 ^ k :: u64) = 2 ^ k"
    using assms(1) by (simp add: unat_exp_u64)
  have low: "unat (take_bit k ?N) = n mod 2 ^ k"
    by (simp only: unsigned_take_bit_eq un) (simp add: take_bit_eq_mod)
  have lt: "n mod 2 ^ k \<le> 2 ^ k"
    by (simp add: less_imp_le)
  have "take_bit k ?N \<le> 2 ^ k"
    using lt by (simp only: word_le_nat_alt low pk)
  then have sub: "unat (2 ^ k - take_bit k ?N) = 2 ^ k - n mod 2 ^ k"
    by (simp only: unat_sub low pk)
  let ?P = "take_bit k (2 ^ k - take_bit k ?N)"
  have P: "unat ?P = (2 ^ k - n mod 2 ^ k) mod 2 ^ k"
    by (simp only: unsigned_take_bit_eq sub) (simp add: take_bit_eq_mod)
  have "unat ?P < 2 ^ k"
    unfolding P by simp
  also have "(2::nat) ^ k < 2 ^ 31"
    using assms(1) by (simp only: power_strict_increasing_iff)
  finally have small: "unat ?P < 2 ^ 31" .
  then have "sint (ucast ?P :: u32) = int (unat ?P)"
    using s32_of_u64_small [of ?P] by (simp add: s32_of_u64_def)
  then have "(scast (ucast ?P :: u32) :: u64) = ?P"
    by (simp add: scast_eq)
  then show ?thesis
    unfolding align_padding_def Let_def m band P by (simp only: P)
qed

text \<open>C30: Bulk allocation of \<open>nr > 0\<close> elements on a well-formed array always returns, whatever
  number is asked for. When memory is granted and the elements and one more grain fit into the
  largest block there can be, the pointer is the old end of the array, exactly \<open>nr\<close> elements are
  added behind the old contents, which stay in place, and every new slot lies inside the
  allocated block. When the elements do not fit into any block the process ends with 1, also when
  the sum of the counts wraps: then nothing grows, and it is the range check of the new end that
  notices.\<close>

theorem dynarray_alloc_nr_reserves:
  assumes "da_wf da" and "0 < nr" and "nr < 2 ^ 64"
  shows "(\<exists>r. dynarray_alloc_nr mem_ok da nr = Some r)
    \<and> ((\<forall>n. mem_ok n) \<and> elem_size da * (dynarray_size da + nr + alloc_grain da) < 2 ^ 63 \<longrightarrow>
        (\<exists>da'. dynarray_alloc_nr mem_ok da nr = Some (Inr (da', dynarray_size da))
          \<and> da_wf da' \<and> dynarray_size da' = dynarray_size da + nr
          \<and> take (dynarray_size da) (da_list da') = da_list da))
    \<and> (2 ^ 63 \<le> elem_size da * (dynarray_size da + nr) \<longrightarrow>
        dynarray_alloc_nr mem_ok da nr = Some (Inl (ExitWith 1)))"
proof (intro conjI impI)
  show "\<exists>r. dynarray_alloc_nr mem_ok da nr = Some r"
    using expand_while_returns [OF assms(1), of mem_ok nr] by (auto simp: dynarray_alloc_nr_def)
next
  assume fits: "(\<forall>n. mem_ok n) \<and> elem_size da * (dynarray_size da + nr + alloc_grain da) < 2 ^ 63"
  then obtain da1 where da1: "expand_while mem_ok nr da = Some (Inr da1)" "grown nr da da1"
    using expand_while_total [OF assms(1), of mem_ok nr] by (auto simp: dynarray_size_def)
  let ?da' = "da1\<lparr>next_idx := next_idx da1 + nr\<rparr>"
  have sum: "ul_add (next_idx da) nr = next_idx da + nr"
    using fits_sum [OF assms(1), of nr] fits by (simp add: ul_add_small dynarray_size_def)
  then have "dynarray_alloc_nr mem_ok da nr = Some (Inr (?da', dynarray_size da))"
    using da1 assms(2) by (simp add: dynarray_alloc_nr_def grown_def dynarray_size_def Let_def)
  moreover have "da_wf ?da'"
    using da1(2) sum by (auto simp: grown_def da_wf_def)
  moreover have "dynarray_size ?da' = dynarray_size da + nr"
    using da1(2) by (simp add: grown_def dynarray_size_def)
  moreover have "take (dynarray_size da) (da_list ?da') = da_list da"
    using da1(2) by (simp add: grown_def da_list_def dynarray_size_def block_list_def take_map)
  ultimately show "\<exists>da'. dynarray_alloc_nr mem_ok da nr = Some (Inr (da', dynarray_size da)) \<and> da_wf da'
      \<and> dynarray_size da' = dynarray_size da + nr \<and> take (dynarray_size da) (da_list da') = da_list da"
    by blast
next
  assume big: "2 ^ 63 \<le> elem_size da * (dynarray_size da + nr)"
  show "dynarray_alloc_nr mem_ok da nr = Some (Inl (ExitWith 1))"
  proof (cases "next_idx da + nr < 2 ^ 64")
    case True
    with expand_while_refused [OF assms(1), of nr mem_ok] big show ?thesis
      by (simp add: dynarray_alloc_nr_def dynarray_size_def)
  next
    case False
    then have wrap: "ul_add (next_idx da) nr < next_idx da"
      using ul_add_wraps(1) [of "next_idx da" nr] da_wf_small(2) [OF assms(1)] assms(3) by simp
    moreover from this have "ul_add (next_idx da) nr < elems_nr da"
      using assms(1) by (simp add: da_wf_def)
    ultimately show ?thesis
      by (simp add: dynarray_alloc_nr_def expand_while_step [OF assms(1)] dynarray_get_def Let_def)
  qed
qed

definition example_array :: "nat dynarray" where
  "example_array = \<lparr>elems = id, elems_nr = 4, elem_size = 8, next_idx = 3, alloc_grain = 4\<rparr>"

lemma example_array_wf: "da_wf example_array" "dynarray_size example_array = 3" "elem_size example_array = 8"
    "alloc_grain example_array = 4"
  by (simp_all add: example_array_def da_wf_def dynarray_size_def)

theorem dynarray_alloc_nr_reserves_witness:
  "(\<exists>da'. dynarray_alloc_nr (\<lambda>_. True) example_array 6 = Some (Inr (da', 3)) \<and> dynarray_size da' = 9)
   \<and> dynarray_alloc_nr (\<lambda>_. True) example_array (2 ^ 64 - 1) = Some (Inl (ExitWith 1))"
  using dynarray_alloc_nr_reserves [OF example_array_wf(1), of 6 "\<lambda>_. True"]
    dynarray_alloc_nr_reserves [OF example_array_wf(1), of "2 ^ 64 - 1" "\<lambda>_. True"] example_array_wf(2-4)
  by auto

text \<open>Aligning to a power of two moves the end of the array to the next multiple of
  it, skipping fewer than \<open>align\<close> slots, and keeps the array well formed.\<close>

theorem dynarray_align_to_multiple:
  assumes "da_wf da" and "\<And>n. mem_ok n" and "k < 31"
    and "elem_size da * (dynarray_size da + 2 ^ k + alloc_grain da) < 2 ^ 63"
  shows "\<exists>da'. dynarray_align mem_ok da (2 ^ k) = Some (Inr da') \<and> da_wf da'
    \<and> dynarray_size da' mod 2 ^ k = 0
    \<and> dynarray_size da \<le> dynarray_size da' \<and> dynarray_size da' < dynarray_size da + 2 ^ k"
proof -
  let ?n = "dynarray_size da" and ?pad = "align_padding (next_idx da) (2 ^ k)"
  have n: "?n < 2 ^ 63"
    using da_wf_small(2) [OF assms(1)] by (simp add: dynarray_size_def)
  then have pad: "?pad = (2 ^ k - ?n mod 2 ^ k) mod 2 ^ k"
    using align_padding_pow2 [OF assms(3)] by (simp add: dynarray_size_def)
  then have lt: "?pad < 2 ^ k"
    by simp
  then have "elem_size da * (next_idx da + ?pad + alloc_grain da) \<le> elem_size da * (?n + 2 ^ k + alloc_grain da)"
    by (simp add: dynarray_size_def)
  then have "elem_size da * (next_idx da + ?pad + alloc_grain da) < 2 ^ 63"
    using assms(4) by linarith
  then obtain da1 where da1: "expand_while mem_ok ?pad da = Some (Inr da1)" "grown ?pad da da1"
    using expand_while_total [OF assms(1), of mem_ok ?pad] assms(2) by auto
  let ?da' = "da1\<lparr>next_idx := next_idx da1 + ?pad\<rparr>"
  have "(2 :: nat) ^ k < 2 ^ 31"
    using assms(3) by (simp only: power_strict_increasing_iff)
  then have sum: "ul_add (next_idx da) ?pad = next_idx da + ?pad"
    using lt n by (simp add: ul_add_small dynarray_size_def)
  have "(?n + ?pad) mod 2 ^ k = (?n mod 2 ^ k + (2 ^ k - ?n mod 2 ^ k)) mod 2 ^ k"
    unfolding pad by (simp only: mod_add_left_eq mod_add_right_eq)
  also have "\<dots> = 0"
    by (simp add: less_imp_le)
  finally have "dynarray_size ?da' mod 2 ^ k = 0"
    using da1(2) by (simp add: grown_def dynarray_size_def)
  moreover have "dynarray_align mem_ok da (2 ^ k) = Some (Inr ?da')"
    using da1 sum by (simp add: dynarray_align_def grown_def Let_def)
  moreover have "da_wf ?da'"
    using da1(2) sum by (auto simp: grown_def da_wf_def)
  ultimately show ?thesis
    using da1(2) lt by (auto simp: grown_def dynarray_size_def)
qed

theorem dynarray_align_to_multiple_witness:
  "\<exists>da'. dynarray_align (\<lambda>_. True) example_array (2 ^ 3) = Some (Inr da') \<and> dynarray_size da' mod 2 ^ 3 = 0"
  using dynarray_align_to_multiple [OF example_array_wf(1), of "\<lambda>_. True" 3] example_array_wf(2-4) by auto

text \<open>\<open>dynarray_init_frombuff\<close> means to round the capacity up to a multiple of the
  grain but adds the remainder instead of what is missing to the grain: for a buffer whose
  length is not a multiple already, the capacity it ends with is a multiple of the grain
  exactly when the grain divides twice the length.\<close>

theorem dynarray_init_frombuff_capacity:
  assumes "\<And>n. mem_ok n" and "0 < grain" and "0 < esize" and "esize * (n + grain) < 2 ^ 63"
  shows "\<exists>da. dynarray_init_frombuff mem_ok esize grain buf n = Inr da
    \<and> da_wf da \<and> dynarray_size da = n
    \<and> elems_nr da = n + n mod grain
    \<and> (grain dvd elems_nr da \<longleftrightarrow> grain dvd 2 * n)"
proof -
  have dvd: "grain dvd n + n mod grain \<longleftrightarrow> grain dvd 2 * n"
    by (metis dvd_eq_mod_eq_0 mod_add_right_eq mult_2)
  have "n mod grain < grain"
    using assms(2) by simp
  then have "esize * (n + n mod grain) \<le> esize * (n + grain)" and "n + n mod grain \<le> n + grain"
    by simp_all
  moreover have "n + grain \<le> esize * (n + grain)"
    using assms(3) by simp
  ultimately have small: "esize * (n + n mod grain) < 2 ^ 63" "n + n mod grain < 2 ^ 63"
    using assms(4) by linarith+
  have "esize * n < 2 ^ 63" and "esize * grain < 2 ^ 63"
    using assms(4) by (simp_all add: distrib_left)
  with small dvd assms(1-3) show ?thesis
    by (auto simp: dynarray_init_frombuff_def Let_def da_wf_def dynarray_size_def ul_add_small ul_mul_small
        granted_def sizeof_dynarray_def)
qed

theorem dynarray_init_frombuff_capacity_witness:
  "\<exists>da. dynarray_init_frombuff (\<lambda>_. True) 8 4 id 5 = Inr da \<and> \<not> 4 dvd elems_nr da"
  using dynarray_init_frombuff_capacity [of "\<lambda>_. True" 4 8 5 id] by auto

end
