(* ===== verification/BinHeap.thy ===== *)
theory BinHeap
  imports DynArray
begin

text \<open>
  The binary heap of \<^verbatim>\<open>heap.c\<close>, which orders the events of the executor. It keeps its
  elements in a \<open>dynarray\<close> of \<open>unsigned long\<close>s and is parameterised by the comparison
  \<open>leq_fn\<close>. \<open>event_queue\<close> is the interface the executor relies on; it is interpreted on
  these definitions at the end of the theory.
\<close>

record 'a heap =
  heap_da :: "'a dynarray"
  leq_fn :: "'a \<Rightarrow> 'a \<Rightarrow> bool"

section \<open>Operations\<close>

definition ul_leq :: "u64 \<Rightarrow> u64 \<Rightarrow> bool" where
  "ul_leq e0 e1 = (e0 \<le> e1)"

text \<open>A \<open>NULL\<close> comparison selects \<open>ul_leq\<close>; \<open>sizeof(heap_t)\<close> is 24 bytes.\<close>

definition heap_init ::
    "(nat \<Rightarrow> bool) \<Rightarrow> (nat \<Rightarrow> u64) \<Rightarrow> (u64 \<Rightarrow> u64 \<Rightarrow> bool) option \<Rightarrow> u64 heap res" where
  "heap_init mem_ok fresh leq =
     (if \<not> granted mem_ok 24 then Inl (ExitWith 1)
      else bindR (dynarray_create mem_ok fresh 8 128) (\<lambda>da.
        Inr \<lparr>heap_da = da, leq_fn = (case leq of None \<Rightarrow> ul_leq | Some f \<Rightarrow> f)\<rparr>))"

text \<open>The loop of \<open>siftdown\<close>: move larger ancestors down into the hole at \<open>pos\<close>.\<close>

fun siftdown_loop :: "('a \<Rightarrow> 'a \<Rightarrow> bool) \<Rightarrow> (nat \<Rightarrow> 'a) \<Rightarrow> nat \<Rightarrow> 'a \<Rightarrow> (nat \<Rightarrow> 'a)" where
  "siftdown_loop leq h pos elem =
     (if pos > 0
      then let parentpos = (pos - 1) div 2; parent = h parentpos
           in if leq parent elem then h(pos := elem)
              else siftdown_loop leq (h(pos := parent)) parentpos elem
      else h(pos := elem))"

declare siftdown_loop.simps [simp del]

definition siftdown :: "'a heap \<Rightarrow> nat \<Rightarrow> 'a \<Rightarrow> 'a heap res" where
  "siftdown heap pos elem =
     bindR (dynarray_get (heap_da heap) 0) (\<lambda>_.
     Inr (heap\<lparr>heap_da := (heap_da heap)
       \<lparr>elems := siftdown_loop (leq_fn heap) (elems (heap_da heap)) pos elem\<rparr>\<rparr>))"

definition heap_push :: "(nat \<Rightarrow> bool) \<Rightarrow> 'a heap \<Rightarrow> 'a \<Rightarrow> 'a heap res" where
  "heap_push mem_ok heap elem =
     bindR (dynarray_alloc mem_ok (heap_da heap)) (\<lambda>(da, _).
     siftdown (heap\<lparr>heap_da := da\<rparr>) (dynarray_size da - 1) elem)"

definition heap_size :: "'a heap \<Rightarrow> nat" where
  "heap_size heap = dynarray_size (heap_da heap)"

definition heap_peek :: "'a heap \<Rightarrow> 'a option res" where
  "heap_peek heap =
     (if dynarray_size (heap_da heap) = 0 then Inr None
      else bindR (dynarray_get (heap_da heap) 0) (\<lambda>i. Inr (Some (elems (heap_da heap) i))))"

text \<open>The loop of \<open>__heap_pop\<close>: pull the smaller child up until the hole is at a leaf.\<close>

function sift_hole :: "('a \<Rightarrow> 'a \<Rightarrow> bool) \<Rightarrow> (nat \<Rightarrow> 'a) \<Rightarrow> nat \<Rightarrow> nat \<Rightarrow> (nat \<Rightarrow> 'a) \<times> nat" where
  "sift_hole leq h sz pos =
     (let ch_pos = 2 * pos + 1; rch_pos = ch_pos + 1
      in if ch_pos \<ge> sz then (h, pos)
         else let ch = (if rch_pos < sz \<and> leq (h rch_pos) (h ch_pos) then rch_pos else ch_pos)
              in sift_hole leq (h(pos := h ch)) sz ch)"
  by pat_completeness auto
termination
  by (relation "measure (\<lambda>(leq, h, sz, pos). sz - pos)") (auto simp: Let_def split: if_splits)

declare sift_hole.simps [simp del]

text \<open>\<open>__heap_pop\<close>: remove the element at \<open>pos\<close>; \<open>None\<close> is the return value 0.\<close>

definition heap_pop_pos :: "'a heap \<Rightarrow> nat \<Rightarrow> ('a heap \<times> 'a option) res" where
  "heap_pop_pos heap pos =
     (let size = dynarray_size (heap_da heap)
      in if size = 0 \<or> pos \<ge> size then Inr (heap, None)
         else bindR (dynarray_get (heap_da heap) 0) (\<lambda>_.
           let h = elems (heap_da heap);
               ret = h pos;
               last = h (size - 1);
               (h, pos) = sift_hole (leq_fn heap) h (size - 1) pos
           in bindR (siftdown (heap\<lparr>heap_da := (heap_da heap)\<lparr>elems := h\<rparr>\<rparr>) pos last) (\<lambda>heap.
              Inr (heap\<lparr>heap_da := dynarray_dealloc (heap_da heap)\<rparr>, Some ret))))"

definition heap_pop :: "'a heap \<Rightarrow> ('a heap \<times> 'a option) res" where
  "heap_pop heap = heap_pop_pos heap 0"

fun find_pos :: "(nat \<Rightarrow> 'a) \<Rightarrow> nat \<Rightarrow> nat \<Rightarrow> 'a \<Rightarrow> nat option" where
  "find_pos array pos 0 elem = None"
| "find_pos array pos (Suc left) elem =
     (if elem = array pos then Some pos else find_pos array (Suc pos) left elem)"

text \<open>The pointer to the first slot is taken before the loop, also for an empty heap.\<close>

definition heap_pop_elem :: "'a heap \<Rightarrow> 'a \<Rightarrow> ('a heap \<times> bool) res" where
  "heap_pop_elem heap elem =
     (let da = heap_da heap; size = dynarray_size da
      in bindR (dynarray_get da 0) (\<lambda>_.
         case find_pos (elems da) 0 size elem of
           Some pos \<Rightarrow> bindR (heap_pop_pos heap pos) (\<lambda>(heap, r). Inr (heap, r \<noteq> None))
         | None \<Rightarrow> Inr (heap, False)))"

text \<open>One step of an iteration: the value at \<open>loc\<close> and the next location, or \<open>None\<close>.\<close>

definition heap_iterate :: "'a heap \<Rightarrow> nat \<Rightarrow> ('a \<times> nat) option res" where
  "heap_iterate heap loc =
     (if loc \<ge> dynarray_size (heap_da heap) then Inr None
      else bindR (dynarray_get (heap_da heap) loc) (\<lambda>i.
           Inr (Some (elems (heap_da heap) i, loc + 1))))"

text \<open>\<open>heap_print\<close> hands the printer these values in this order; it also asks for slot 0 first.\<close>

definition heap_print :: "'a heap \<Rightarrow> 'a list res" where
  "heap_print heap =
     bindR (dynarray_get (heap_da heap) 0) (\<lambda>_.
     Inr (block_list (elems (heap_da heap)) (dynarray_size (heap_da heap))))"

definition heap_free :: "'a heap \<Rightarrow> 'a list" where
  "heap_free heap = dynarray_destroy (heap_da heap)"

section \<open>The heap order, and the heap order with a hole\<close>

definition total_preorder :: "('a \<Rightarrow> 'a \<Rightarrow> bool) \<Rightarrow> bool" where
  "total_preorder leq \<longleftrightarrow>
     (\<forall>x y. leq x y \<or> leq y x) \<and> (\<forall>x y z. leq x y \<longrightarrow> leq y z \<longrightarrow> leq x z)"

lemma total_preorder_trans: "total_preorder leq \<Longrightarrow> leq x y \<Longrightarrow> leq y z \<Longrightarrow> leq x z"
  unfolding total_preorder_def by blast

lemma total_preorder_total: "total_preorder leq \<Longrightarrow> \<not> leq x y \<Longrightarrow> leq y x"
  unfolding total_preorder_def by blast

lemma total_preorder_refl: "total_preorder leq \<Longrightarrow> leq x x"
  unfolding total_preorder_def by blast

definition heap_ordered :: "('a \<Rightarrow> 'a \<Rightarrow> bool) \<Rightarrow> (nat \<Rightarrow> 'a) \<Rightarrow> nat \<Rightarrow> bool" where
  "heap_ordered leq h n \<longleftrightarrow> (\<forall>i<n. 0 < i \<longrightarrow> leq (h ((i - 1) div 2)) (h i))"

definition hole_ordered :: "('a \<Rightarrow> 'a \<Rightarrow> bool) \<Rightarrow> (nat \<Rightarrow> 'a) \<Rightarrow> nat \<Rightarrow> nat \<Rightarrow> bool" where
  "hole_ordered leq h n pos \<longleftrightarrow>
     (\<forall>i<n. 0 < i \<longrightarrow> i \<noteq> pos \<longrightarrow> (i - 1) div 2 \<noteq> pos \<longrightarrow> leq (h ((i - 1) div 2)) (h i)) \<and>
     (\<forall>i<n. 0 < i \<longrightarrow> (i - 1) div 2 = pos \<longrightarrow> 0 < pos \<longrightarrow> leq (h ((pos - 1) div 2)) (h i))"

lemma heap_orderedD: "heap_ordered leq h n \<Longrightarrow> i < n \<Longrightarrow> 0 < i \<Longrightarrow> leq (h ((i - 1) div 2)) (h i)"
  by (simp add: heap_ordered_def)

lemma hole_orderedD1: "hole_ordered leq h n pos \<Longrightarrow> i < n \<Longrightarrow> 0 < i \<Longrightarrow> i \<noteq> pos
    \<Longrightarrow> (i - 1) div 2 \<noteq> pos \<Longrightarrow> leq (h ((i - 1) div 2)) (h i)"
  by (simp add: hole_ordered_def)

lemma hole_orderedD2: "hole_ordered leq h n pos \<Longrightarrow> i < n \<Longrightarrow> 0 < i \<Longrightarrow> (i - 1) div 2 = pos
    \<Longrightarrow> 0 < pos \<Longrightarrow> leq (h ((pos - 1) div 2)) (h i)"
  by (auto simp: hole_ordered_def)

lemma heap_ordered_prefix: "heap_ordered leq h n \<Longrightarrow> m \<le> n \<Longrightarrow> heap_ordered leq h m"
  by (auto simp: heap_ordered_def)

lemma heap_ordered_hole:
  assumes "heap_ordered leq h n" and "total_preorder leq"
  shows "hole_ordered leq h n pos"
  unfolding hole_ordered_def
proof (intro conjI allI impI)
  fix i assume i: "i < n" "0 < i" "(i - 1) div 2 = pos" "0 < pos"
  have "pos < n"
    using i by auto
  then show "leq (h ((pos - 1) div 2)) (h i)"
    using heap_orderedD [OF assms(1), of i] heap_orderedD [OF assms(1), of pos] i
      total_preorder_trans [OF assms(2)] by metis
qed (use heap_orderedD [OF assms(1)] in blast)

lemma heap_ordered_root:
  assumes "heap_ordered leq h n" and "total_preorder leq" and "i < n"
  shows "leq (h 0) (h i)"
  using assms(3)
proof (induction i rule: less_induct)
  case (less i)
  show ?case
  proof (cases "i = 0")
    case True
    then show ?thesis using total_preorder_refl [OF assms(2)] by simp
  next
    case False
    then have "(i - 1) div 2 < i"
      by auto
    with less have "leq (h 0) (h ((i - 1) div 2))"
      by simp
    then show ?thesis
      using heap_orderedD [OF assms(1) less.prems] False total_preorder_trans [OF assms(2)]
      by blast
  qed
qed

section \<open>The two loops\<close>

lemma block_mset_move:
  assumes "i < n" and "j < n" and "i \<noteq> j"
  shows "block_mset ((h(i := h j))(j := x)) n = block_mset (h(i := x)) n"
proof -
  let ?h1 = "h(i := h j)"
  have "add_mset (h i) (block_mset ?h1 n) = add_mset (h j) (block_mset h n)"
    by (rule block_mset_upd [OF assms(1)])
  moreover have "add_mset (h j) (block_mset (?h1(j := x)) n) = add_mset x (block_mset ?h1 n)"
    using block_mset_upd [OF assms(2), of ?h1 x] assms(3) by simp
  moreover have "add_mset (h i) (block_mset (h(i := x)) n) = add_mset x (block_mset h n)"
    by (rule block_mset_upd [OF assms(1)])
  ultimately have "add_mset (h i) (add_mset (h j) (block_mset (?h1(j := x)) n))
      = add_mset (h i) (add_mset (h j) (block_mset (h(i := x)) n))"
    by (metis add_mset_commute)
  then show ?thesis by simp
qed

lemma siftdown_loop_mset:
  "pos < n \<Longrightarrow> block_mset (siftdown_loop leq h pos elem) n = block_mset (h(pos := elem)) n"
proof (induction leq h pos elem rule: siftdown_loop.induct)
  case (1 leq h pos elem)
  let ?pp = "(pos - 1) div 2"
  show ?case
  proof (cases "pos > 0 \<and> \<not> leq (h ?pp) elem")
    case True
    then have pp: "?pp < pos"
      by auto
    have "block_mset (siftdown_loop leq h pos elem) n
        = block_mset (siftdown_loop leq (h(pos := h ?pp)) ?pp elem) n"
      using True by (subst siftdown_loop.simps) (simp add: Let_def)
    also have "block_mset (siftdown_loop leq (h(pos := h ?pp)) ?pp elem) n
        = block_mset ((h(pos := h ?pp))(?pp := elem)) n"
      by (rule "1.IH" [OF _ refl refl]) (use True "1.prems" pp in auto)
    also have "\<dots> = block_mset (h(pos := elem)) n"
      using block_mset_move [of pos n ?pp h elem] "1.prems" pp by simp
    finally show ?thesis .
  next
    case False
    then show ?thesis by (subst siftdown_loop.simps) (auto simp: Let_def)
  qed
qed

lemma siftdown_loop_beyond: "pos < n \<Longrightarrow> n \<le> i \<Longrightarrow> siftdown_loop leq h pos elem i = h i"
proof (induction leq h pos elem rule: siftdown_loop.induct)
  case (1 leq h pos elem)
  let ?pp = "(pos - 1) div 2"
  show ?case
  proof (cases "pos > 0 \<and> \<not> leq (h ?pp) elem")
    case True
    then have "siftdown_loop leq (h(pos := h ?pp)) ?pp elem i = (h(pos := h ?pp)) i"
      by (intro "1.IH" [OF _ refl refl]) (use "1.prems" in auto)
    then show ?thesis
      using True "1.prems" by (subst siftdown_loop.simps) (simp add: Let_def)
  next
    case False
    then show ?thesis
      using "1.prems" by (subst siftdown_loop.simps) (auto simp: Let_def)
  qed
qed

text \<open>The hole moves to its parent, whose element goes down.\<close>

lemma hole_up:
  assumes tp: "total_preorder leq" and hole: "hole_ordered leq h n pos" and pos: "0 < pos" "pos < n"
  defines "pp \<equiv> (pos - 1) div 2"
  shows "hole_ordered leq (h(pos := h pp)) n pp"
    and "i < n \<Longrightarrow> 0 < i \<Longrightarrow> (i - 1) div 2 = pp \<Longrightarrow> leq (h pp) ((h(pos := h pp)) i)"
proof -
  have pp: "pp < pos"
    using pos by (simp add: pp_def)
  have sibling: "leq (h pp) ((h(pos := h pp)) i)" if "i < n" "0 < i" "(i - 1) div 2 = pp" for i
    using hole_orderedD1 [OF hole, of i] that pp total_preorder_refl [OF tp] by auto
  then show "i < n \<Longrightarrow> 0 < i \<Longrightarrow> (i - 1) div 2 = pp \<Longrightarrow> leq (h pp) ((h(pos := h pp)) i)" .
  show "hole_ordered leq (h(pos := h pp)) n pp"
    unfolding hole_ordered_def
  proof (intro conjI allI impI)
    fix i assume "i < n" "0 < i" "i \<noteq> pp" "(i - 1) div 2 \<noteq> pp"
    then show "leq ((h(pos := h pp)) ((i - 1) div 2)) ((h(pos := h pp)) i)"
      using hole_orderedD1 [OF hole, of i] hole_orderedD2 [OF hole, of i] pos by (auto simp: pp_def)
  next
    fix i assume i: "i < n" "0 < i" "(i - 1) div 2 = pp" "0 < pp"
    have g: "leq (h ((pp - 1) div 2)) (h pp)"
      by (rule hole_orderedD1 [OF hole]) (use i pp pos in \<open>auto simp: pp_def\<close>)
    have "(pp - 1) div 2 \<noteq> pos"
      using pp by auto
    then show "leq ((h(pos := h pp)) ((pp - 1) div 2)) ((h(pos := h pp)) i)"
      using total_preorder_trans [OF tp g sibling [OF i(1-3)]] by simp
  qed
qed

lemma siftdown_loop_ordered:
  assumes "total_preorder leq"
  shows "pos < n \<Longrightarrow> hole_ordered leq h n pos
    \<Longrightarrow> (\<And>i. i < n \<Longrightarrow> 0 < i \<Longrightarrow> (i - 1) div 2 = pos \<Longrightarrow> leq elem (h i))
    \<Longrightarrow> heap_ordered leq (siftdown_loop leq h pos elem) n"
  using assms
proof (induction leq h pos elem rule: siftdown_loop.induct)
  case (1 leq h pos elem)
  let ?pp = "(pos - 1) div 2"
  note tp = "1.prems"(4) and hole = "1.prems"(2) and below = "1.prems"(3)
  show ?case
  proof (cases "pos > 0 \<and> \<not> leq (h ?pp) elem")
    case True
    then have "0 < pos" and up: "leq elem (h ?pp)"
      using total_preorder_total [OF tp] by auto
    note hole_up = hole_up [OF tp hole this(1) "1.prems"(1)]
    have below': "leq elem ((h(pos := h ?pp)) i)" if "i < n" "0 < i" "(i - 1) div 2 = ?pp" for i
      by (rule total_preorder_trans [OF tp up hole_up(2) [OF that]])
    have "?pp < n"
      using "1.prems"(1) by linarith
    then have "heap_ordered leq (siftdown_loop leq (h(pos := h ?pp)) ?pp elem) n"
      using True by (intro "1.IH" [OF _ refl refl _ _ hole_up(1) below' tp]) auto
    then show ?thesis
      using True by (subst siftdown_loop.simps) (simp add: Let_def)
  next
    case False
    have "heap_ordered leq (h(pos := elem)) n"
      using False hole below unfolding heap_ordered_def hole_ordered_def by auto
    then show ?thesis
      using False by (subst siftdown_loop.simps) (auto simp: Let_def)
  qed
qed

text \<open>The hole moves to the smaller of its children.\<close>

lemma hole_down:
  assumes hole: "hole_ordered leq h n pos"
    and ch: "ch < n" "pos < ch" "(ch - 1) div 2 = pos" "0 < ch"
    and smallest: "\<And>i. i < n \<Longrightarrow> 0 < i \<Longrightarrow> (i - 1) div 2 = pos \<Longrightarrow> leq (h ch) (h i)"
  shows "hole_ordered leq (h(pos := h ch)) n ch"
  unfolding hole_ordered_def
proof (intro conjI allI impI)
  fix i assume i: "i < n" "0 < i" "i \<noteq> ch" "(i - 1) div 2 \<noteq> ch"
  show "leq ((h(pos := h ch)) ((i - 1) div 2)) ((h(pos := h ch)) i)"
  proof (cases "i = pos")
    case True
    then have "(i - 1) div 2 \<noteq> pos" using i by auto
    then show ?thesis
      using True hole_orderedD2 [OF hole ch(1) ch(4) ch(3)] i by simp
  next
    case False
    then show ?thesis
      using smallest [OF i(1,2)] hole_orderedD1 [OF hole i(1,2)] by auto
  qed
next
  fix i assume i: "i < n" "0 < i" "(i - 1) div 2 = ch" "0 < ch"
  then have "i \<noteq> pos" using ch by auto
  then show "leq ((h(pos := h ch)) ((ch - 1) div 2)) ((h(pos := h ch)) i)"
    using hole_orderedD1 [OF hole i(1,2)] i ch by auto
qed

lemma sift_hole_spec:
  assumes "total_preorder leq"
  shows "pos < n \<Longrightarrow> hole_ordered leq h n pos \<Longrightarrow> sift_hole leq h n pos = (h', pos')
    \<Longrightarrow> pos' < n \<and> n \<le> 2 * pos' + 1 \<and> hole_ordered leq h' n pos'
      \<and> block_mset (h'(pos' := x)) n = block_mset (h(pos := x)) n
      \<and> (\<forall>i\<ge>n. h' i = h i)"
  using assms
proof (induction leq h n pos rule: sift_hole.induct)
  case (1 leq h n pos)
  note tp = "1.prems"(4) and hole = "1.prems"(2)
  show ?case
  proof (cases "2 * pos + 1 \<ge> n")
    case True
    then show ?thesis
      using "1.prems" by (auto simp: sift_hole.simps [of leq h n pos])
  next
    case False
    define ch where "ch = (if 2 * pos + 1 + 1 < n \<and> leq (h (2 * pos + 1 + 1)) (h (2 * pos + 1))
      then 2 * pos + 1 + 1 else 2 * pos + 1)"
    have ch: "ch < n" "pos < ch" "(ch - 1) div 2 = pos" "0 < ch"
      using False by (auto simp: ch_def)
    let ?h = "h(pos := h ch)"
    have smallest: "leq (h ch) (h i)" if "i < n" "0 < i" "(i - 1) div 2 = pos" for i
    proof -
      have "i = 2 * pos + 1 \<or> i = 2 * pos + 1 + 1"
        using that by arith
      then show ?thesis
        using that total_preorder_refl [OF tp] total_preorder_total [OF tp]
        by (auto simp: ch_def)
    qed
    have hole': "hole_ordered leq ?h n ch"
      by (rule hole_down [OF hole ch]) (rule smallest)
    have "sift_hole leq h n pos = sift_hole leq ?h n ch"
      using False by (subst sift_hole.simps) (simp add: Let_def ch_def)
    then have "sift_hole leq ?h n ch = (h', pos')"
      using "1.prems"(3) by simp
    then have rec: "pos' < n \<and> n \<le> 2 * pos' + 1 \<and> hole_ordered leq h' n pos'
      \<and> block_mset (h'(pos' := x)) n = block_mset (?h(ch := x)) n
      \<and> (\<forall>i\<ge>n. h' i = ?h i)"
      by (rule "1.IH" [OF refl refl False ch_def ch(1) hole' _ tp])
    have "block_mset (?h(ch := x)) n = block_mset (h(pos := x)) n"
      using block_mset_move [of pos n ch h x] "1.prems"(1) ch by simp
    moreover have "\<forall>i\<ge>n. h' i = h i"
      using rec "1.prems"(1) by auto
    ultimately show ?thesis
      using rec by (simp del: fun_upd_apply)
  qed
qed

section \<open>The operations on the multiset of elements\<close>

text \<open>The elements have 8 bytes and the array grows by 128 of them, as \<open>heap_init\<close> asks for.\<close>

definition heap_inv :: "'a heap \<Rightarrow> bool" where
  "heap_inv heap \<longleftrightarrow> da_wf (heap_da heap) \<and> elem_size (heap_da heap) = 8 \<and> alloc_grain (heap_da heap) = 128
     \<and> total_preorder (leq_fn heap)
     \<and> heap_ordered (leq_fn heap) (elems (heap_da heap)) (heap_size heap)"

text \<open>With fewer elements than this one more fits into the largest block there can be.\<close>

definition heap_limit :: nat where
  "heap_limit = 2 ^ 60 - 128"

definition heap_bag :: "'a heap \<Rightarrow> 'a multiset" where
  "heap_bag heap = mset (da_list (heap_da heap))"

lemma heap_bag_block: "heap_bag heap = block_mset (elems (heap_da heap)) (heap_size heap)"
  by (simp add: heap_bag_def da_list_def heap_size_def dynarray_size_def)

lemma heap_bag_empty_iff: "heap_bag heap = {#} \<longleftrightarrow> heap_size heap = 0"
  by (metis heap_bag_block length_block_list length_0_conv mset_zero_iff)

lemma heap_push_spec:
  assumes "heap_inv heap" and "heap_push mem_ok heap elem = Inr heap'"
  shows "heap_inv heap' \<and> leq_fn heap' = leq_fn heap
    \<and> heap_bag heap' = add_mset elem (heap_bag heap)"
proof -
  let ?n = "heap_size heap" and ?h = "elems (heap_da heap)" and ?leq = "leq_fn heap"
  let ?h' = "siftdown_loop ?leq ?h ?n elem"
  obtain da p where alloc: "dynarray_alloc mem_ok (heap_da heap) = Inr (da, p)"
    using assms(2) by (auto simp: heap_push_def res_simps)
  have da: "da_wf da" "next_idx da = Suc ?n" "elems da = ?h" "elem_size da = 8" "alloc_grain da = 128"
    using dynarray_alloc_effect [OF _ alloc] assms(1)
    by (auto simp: heap_inv_def heap_size_def dynarray_size_def)
  then have heap': "heap' = heap\<lparr>heap_da := da\<lparr>elems := ?h'\<rparr>\<rparr>"
    using assms(2) alloc by (simp add: heap_push_def siftdown_def dynarray_size_def)
  have "heap_ordered ?leq ?h ?n" and tp: "total_preorder ?leq"
    using assms(1) by (auto simp: heap_inv_def)
  then have "hole_ordered ?leq ?h (Suc ?n) ?n"
    using heap_ordered_hole [of ?leq ?h ?n ?n] by (auto simp: hole_ordered_def less_Suc_eq)
  then have "heap_ordered ?leq ?h' (Suc ?n)"
    by (intro siftdown_loop_ordered [OF tp]) auto
  moreover have "block_mset ?h' (Suc ?n) = block_mset (?h(?n := elem)) (Suc ?n)"
    by (rule siftdown_loop_mset) simp
  then have "block_mset ?h' (Suc ?n) = add_mset elem (block_mset ?h ?n)"
    by (simp add: block_mset_Suc)
  ultimately show ?thesis
    using da tp heap' by (simp add: heap_inv_def heap_bag_block heap_size_def dynarray_size_def
        da_wf_def)
qed

lemma heap_push_total:
  assumes "heap_inv heap" and "\<And>n. mem_ok n" and "heap_size heap < heap_limit"
  shows "\<exists>heap'. heap_push mem_ok heap elem = Inr heap'"
proof -
  obtain da where "dynarray_alloc mem_ok (heap_da heap) = Inr (da, next_idx (heap_da heap))"
    using dynarray_alloc_total [of "heap_da heap" mem_ok] assms
    by (auto simp: heap_inv_def heap_limit_def heap_size_def dynarray_size_def)
  moreover from this have "next_idx da = Suc (next_idx (heap_da heap))"
    using dynarray_alloc_effect assms(1) by (auto simp: heap_inv_def)
  ultimately show ?thesis
    by (simp add: heap_push_def siftdown_def)
qed

lemma heap_peek_spec:
  assumes "heap_inv heap"
  shows "heap_peek heap =
      Inr (if heap_size heap = 0 then None else Some (elems (heap_da heap) 0))"
    and "y \<in># heap_bag heap \<Longrightarrow> leq_fn heap (elems (heap_da heap) 0) y"
proof -
  show "heap_peek heap =
      Inr (if heap_size heap = 0 then None else Some (elems (heap_da heap) 0))"
    by (simp add: heap_peek_def heap_size_def dynarray_size_def)
  show "leq_fn heap (elems (heap_da heap) 0) y" if y: "y \<in># heap_bag heap"
  proof -
    from y obtain i where i: "i < heap_size heap" "y = elems (heap_da heap) i"
      by (auto simp: heap_bag_block set_block_list)
    then show ?thesis
      using heap_ordered_root [of "leq_fn heap" "elems (heap_da heap)" "heap_size heap" i] assms
      by (simp add: heap_inv_def)
  qed
qed

lemma heap_pop_pos_spec:
  assumes "heap_inv heap" and pos: "pos < heap_size heap"
  shows "\<exists>heap'. heap_pop_pos heap pos = Inr (heap', Some (elems (heap_da heap) pos))
    \<and> heap_inv heap' \<and> leq_fn heap' = leq_fn heap
    \<and> heap_bag heap = add_mset (elems (heap_da heap) pos) (heap_bag heap')"
proof -
  let ?h = "elems (heap_da heap)" and ?leq = "leq_fn heap"
  obtain m where m: "heap_size heap = Suc m"
    using pos by (cases "heap_size heap") auto
  have nx: "next_idx (heap_da heap) = Suc m"
    using m by (simp add: heap_size_def dynarray_size_def)
  have ord: "heap_ordered ?leq ?h (Suc m)" and tp: "total_preorder ?leq"
    and wf: "da_wf (heap_da heap)" "elem_size (heap_da heap) = 8" "alloc_grain (heap_da heap) = 128"
    using assms(1) m by (auto simp: heap_inv_def)
  have ordm: "heap_ordered ?leq ?h m"
    by (rule heap_ordered_prefix [OF ord]) simp
  obtain h1 p1 where hole: "sift_hole ?leq ?h m pos = (h1, p1)"
    by fastforce
  let ?h2 = "siftdown_loop ?leq h1 p1 (?h m)"
  let ?heap' = "heap\<lparr>heap_da := (heap_da heap)\<lparr>elems := ?h2, next_idx := m\<rparr>\<rparr>"
  have result: "heap_pop_pos heap pos = Inr (?heap', Some (?h pos))"
    using pos m nx hole by (simp add: heap_pop_pos_def siftdown_def dynarray_dealloc_def
        dynarray_size_def heap_size_def Let_def)
  have "heap_ordered ?leq ?h2 m \<and> add_mset (?h pos) (block_mset ?h2 m) = block_mset ?h (Suc m)"
  proof (cases "pos = m")
    case True
    have "sift_hole ?leq ?h m m = (?h, m)"
      by (subst sift_hole.simps) (simp add: Let_def)
    with True have "?h2 = ?h"
      using hole ord heap_orderedD [OF ord, of m]
      by (subst siftdown_loop.simps) (auto simp: Let_def)
    then show ?thesis
      using True ordm by (simp add: block_mset_Suc)
  next
    case False
    with pos m have lt: "pos < m"
      by simp
    note spec = sift_hole_spec [OF tp lt heap_ordered_hole [OF ordm tp] hole]
    have leaf: "(i - 1) div 2 \<noteq> p1" if "i < m" "0 < i" for i
    proof -
      have "m \<le> 2 * p1 + 1" using spec by blast
      with that show ?thesis by linarith
    qed
    have "heap_ordered ?leq ?h2 m"
      using spec leaf by (intro siftdown_loop_ordered [OF tp]) auto
    moreover have "block_mset ?h2 m = block_mset (?h(pos := ?h m)) m"
      using spec siftdown_loop_mset by metis
    ultimately show ?thesis
      using block_mset_upd [OF lt, of ?h "?h m"] by (simp add: block_mset_Suc)
  qed
  then show ?thesis
    using result wf tp nx m
    by (auto simp: heap_inv_def heap_bag_block heap_size_def dynarray_size_def da_wf_def)
qed

lemma find_pos_None: "find_pos array pos left elem = None \<longleftrightarrow> elem \<notin> array ` {pos..<pos + left}"
proof (induction array pos left elem rule: find_pos.induct)
  case (2 array pos left elem)
  have "{pos..<pos + Suc left} = insert pos {Suc pos..<Suc pos + left}"
    by auto
  with 2 show ?case by auto
qed simp

lemma find_pos_Some:
  "find_pos array pos left elem = Some i \<Longrightarrow> pos \<le> i \<and> i < pos + left \<and> array i = elem"
  by (induction array pos left elem rule: find_pos.induct) (fastforce split: if_splits)+

section \<open>The event queue interface\<close>

text \<open>
  What the executor relies on: a bag of elements with a total preorder of its own, an
  insertion that does not fail below a limit, and a minimum that \<open>peek\<close> shows and \<open>pop\<close> removes.
\<close>

locale event_queue =
  fixes inv :: "'q \<Rightarrow> bool"
    and bag :: "'q \<Rightarrow> 'e multiset"
    and leq_of :: "'q \<Rightarrow> 'e \<Rightarrow> 'e \<Rightarrow> bool"
    and push :: "'q \<Rightarrow> 'e \<Rightarrow> 'q res"
    and peek :: "'q \<Rightarrow> 'e option res"
    and pop :: "'q \<Rightarrow> ('q \<times> 'e option) res"
    and limit :: nat
  assumes leq_preorder: "inv q \<Longrightarrow> total_preorder (leq_of q)"
    and push_law: "inv q \<Longrightarrow> size (bag q) < limit \<Longrightarrow> \<exists>q'. push q x = Inr q' \<and> inv q' \<and> leq_of q' = leq_of q
        \<and> bag q' = add_mset x (bag q)"
    and peek_empty: "inv q \<Longrightarrow> bag q = {#} \<Longrightarrow> peek q = Inr None"
    and pop_empty: "inv q \<Longrightarrow> bag q = {#} \<Longrightarrow> pop q = Inr (q, None)"
    and pop_law: "inv q \<Longrightarrow> bag q \<noteq> {#} \<Longrightarrow> \<exists>x q'. peek q = Inr (Some x)
        \<and> pop q = Inr (q', Some x) \<and> inv q' \<and> leq_of q' = leq_of q
        \<and> bag q = add_mset x (bag q') \<and> (\<forall>y \<in># bag q. leq_of q x y)"
begin

text \<open>Popping until the queue is empty, with as much fuel as there are elements.\<close>

fun drain :: "nat \<Rightarrow> 'q \<Rightarrow> 'e list res" where
  "drain 0 q = Inr []"
| "drain (Suc n) q = bindR (pop q) (\<lambda>(q', r). case r of
      None \<Rightarrow> Inr []
    | Some x \<Rightarrow> bindR (drain n q') (\<lambda>xs. Inr (x # xs)))"

fun push_all :: "'e list \<Rightarrow> 'q \<Rightarrow> 'q res" where
  "push_all [] q = Inr q"
| "push_all (x # xs) q = bindR (push q x) (push_all xs)"

lemma push_all_law:
  "inv q \<Longrightarrow> length xs + size (bag q) \<le> limit \<Longrightarrow> \<exists>q'. push_all xs q = Inr q' \<and> inv q' \<and> leq_of q' = leq_of q \<and> bag q' = mset xs + bag q"
proof (induction xs arbitrary: q)
  case Nil
  then show ?case by simp
next
  case (Cons x xs)
  obtain q1 where q1: "push q x = Inr q1" "inv q1" "leq_of q1 = leq_of q"
      "bag q1 = add_mset x (bag q)"
    using push_law [OF Cons.prems(1)] Cons.prems(2) by auto
  with Cons.prems(2) have "length xs + size (bag q1) \<le> limit"
    by simp
  with Cons.IH [OF q1(2)] q1 show ?case
    by auto
qed

lemma drain_sorted:
  "inv q \<Longrightarrow> n = size (bag q) \<Longrightarrow>
    \<exists>xs. drain n q = Inr xs \<and> mset xs = bag q \<and> sorted_wrt (leq_of q) xs"
proof (induction n arbitrary: q)
  case 0
  then show ?case by simp
next
  case (Suc n)
  then have "bag q \<noteq> {#}"
    by auto
  then obtain x q' where pop: "pop q = Inr (q', Some x)" "inv q'" "leq_of q' = leq_of q"
      "bag q = add_mset x (bag q')" "\<forall>y \<in># bag q. leq_of q x y"
    using pop_law [OF Suc.prems(1)] by blast
  then have "n = size (bag q')"
    using Suc.prems(2) by simp
  then obtain xs where "drain n q' = Inr xs" "mset xs = bag q'" "sorted_wrt (leq_of q) xs"
    using Suc.IH [OF pop(2)] pop(3) by auto
  then show ?case
    using pop by (auto simp flip: set_mset_mset)
qed

end

interpretation evq: event_queue heap_inv heap_bag leq_fn "heap_push (\<lambda>_. True)" heap_peek heap_pop heap_limit
proof unfold_locales
  fix q :: "'a heap" and x
  assume inv: "heap_inv q"
  then show "total_preorder (leq_fn q)"
    by (simp add: heap_inv_def)
  show "\<exists>q'. heap_push (\<lambda>_. True) q x = Inr q' \<and> heap_inv q' \<and> leq_fn q' = leq_fn q
      \<and> heap_bag q' = add_mset x (heap_bag q)" if "size (heap_bag q) < heap_limit"
    using heap_push_total [OF inv, of "\<lambda>_. True"] heap_push_spec [OF inv] that
    by (metis heap_bag_block length_block_list size_mset)
  show "heap_peek q = Inr None" if "heap_bag q = {#}"
    using that heap_peek_spec(1) [OF inv] by (simp add: heap_bag_empty_iff)
  show "heap_pop q = Inr (q, None)" if "heap_bag q = {#}"
    using that by (simp add: heap_bag_empty_iff heap_pop_def heap_pop_pos_def heap_size_def)
  show "\<exists>x q'. heap_peek q = Inr (Some x) \<and> heap_pop q = Inr (q', Some x) \<and> heap_inv q'
      \<and> leq_fn q' = leq_fn q \<and> heap_bag q = add_mset x (heap_bag q')
      \<and> (\<forall>y\<in>#heap_bag q. leq_fn q x y)" if ne: "heap_bag q \<noteq> {#}"
  proof -
    from ne have sz: "0 < heap_size q"
      by (simp add: heap_bag_empty_iff)
    from heap_pop_pos_spec [OF inv sz] heap_peek_spec [OF inv] sz show ?thesis
      unfolding heap_pop_def by auto
  qed
qed

section \<open>Properties\<close>

text \<open>C8: The event heap is a priority queue. On a heap that satisfies the invariant, with
  any number of events in it, \<open>heap_pop\<close> removes exactly one occurrence of a least
  element, the one \<open>heap_peek\<close> showed before, and keeps the invariant; it answers "empty"
  exactly when there is nothing to remove.\<close>

theorem heap_pop_min:
  assumes "heap_inv heap"
  shows "case heap_pop heap of
      Inr (heap', None) \<Rightarrow> heap' = heap \<and> heap_bag heap = {#} \<and> heap_peek heap = Inr None
    | Inr (heap', Some x) \<Rightarrow> heap_inv heap' \<and> heap_peek heap = Inr (Some x)
        \<and> heap_bag heap = add_mset x (heap_bag heap') \<and> (\<forall>y \<in># heap_bag heap. leq_fn heap x y)
    | Inl e \<Rightarrow> False"
proof (cases "heap_bag heap = {#}")
  case True
  then show ?thesis
    using evq.pop_empty [OF assms] evq.peek_empty [OF assms] by simp
next
  case False
  then show ?thesis
    using evq.pop_law [OF assms] by auto
qed

definition example_heap :: "u64 heap" where
  "example_heap = \<lparr>heap_da = \<lparr>elems = (\<lambda>_. 0)(0 := 2, 1 := 5, 2 := 3, 3 := 9),
     elems_nr = 128, elem_size = 8, next_idx = 4, alloc_grain = 128\<rparr>, leq_fn = ul_leq\<rparr>"

lemma total_preorder_ul_leq: "total_preorder ul_leq"
  by (auto simp: total_preorder_def ul_leq_def)

lemma example_heap_ordered: "heap_ordered ul_leq (elems (heap_da example_heap)) 4"
  unfolding heap_ordered_def
proof (intro allI impI)
  fix i :: nat
  assume "i < 4" and "0 < i"
  then consider "i = 1" | "i = 2" | "i = 3" by linarith
  then show "ul_leq (elems (heap_da example_heap) ((i - 1) div 2)) (elems (heap_da example_heap) i)"
    by cases (simp_all add: example_heap_def ul_leq_def)
qed

lemma example_heap_inv: "heap_inv example_heap"
  using example_heap_ordered
  by (simp add: heap_inv_def example_heap_def total_preorder_ul_leq da_wf_def
      heap_size_def dynarray_size_def)

theorem heap_pop_min_witness:
  "case heap_pop example_heap of
      Inr (heap', Some x) \<Rightarrow> x = 2 \<and> heap_inv heap'
        \<and> heap_bag example_heap = add_mset x (heap_bag heap')
    | _ \<Rightarrow> False"
proof -
  have "heap_peek example_heap = Inr (Some 2)"
    by (simp add: heap_peek_def example_heap_def dynarray_size_def)
  with heap_pop_min [OF example_heap_inv] show ?thesis
    by (auto split: sum.splits option.splits)
qed

text \<open>C11: Events come out in order: pushing any list of events into a valid heap (no more than fit into
  the largest block there can be, \<open>2 ^ 60 - 128\<close> with those that are there) and popping until it is empty yields a list that is sorted by the comparison and holds exactly the
  pushed events and those that were there before.\<close>

theorem heap_drain_sorted:
  assumes "heap_inv heap" and "length xs + size (heap_bag heap) \<le> heap_limit"
  shows "\<exists>heap' ys. evq.push_all xs heap = Inr heap'
    \<and> evq.drain (length xs + size (heap_bag heap)) heap' = Inr ys
    \<and> mset ys = mset xs + heap_bag heap \<and> sorted_wrt (leq_fn heap) ys"
proof -
  obtain heap' where h: "evq.push_all xs heap = Inr heap'" "heap_inv heap'"
      "leq_fn heap' = leq_fn heap" "heap_bag heap' = mset xs + heap_bag heap"
    using evq.push_all_law [OF assms] by blast
  then have "length xs + size (heap_bag heap) = size (heap_bag heap')"
    by simp
  from evq.drain_sorted [OF h(2) this] h show ?thesis
    by auto
qed

theorem heap_drain_sorted_witness:
  "\<exists>heap' ys. evq.push_all [4, 1] example_heap = Inr heap'
    \<and> evq.drain (length [4, 1 :: u64] + size (heap_bag example_heap)) heap' = Inr ys
    \<and> sorted_wrt ul_leq ys"
proof -
  have "length [4, 1 :: u64] + size (heap_bag example_heap) \<le> heap_limit"
    by (simp add: heap_bag_block heap_size_def dynarray_size_def example_heap_def heap_limit_def)
  from heap_drain_sorted [OF example_heap_inv this] show ?thesis
    by (auto simp: example_heap_def)
qed

text \<open>C33: \<open>heap_pop_elem\<close> on a valid heap removes one occurrence of the element asked for, when it is
  there, answers 1 and keeps the invariant. When it is not there but other elements are, it
  answers 0 with the heap unchanged; on an empty heap it does not answer 0 but ends the process
  with 1.\<close>

theorem heap_pop_elem_removes:
  assumes "heap_inv heap"
  shows "(elem \<in># heap_bag heap \<longrightarrow> (\<exists>heap'. heap_pop_elem heap elem = Inr (heap', True)
      \<and> heap_inv heap' \<and> heap_bag heap = add_mset elem (heap_bag heap')))
    \<and> (elem \<notin># heap_bag heap \<and> heap_bag heap \<noteq> {#} \<longrightarrow> heap_pop_elem heap elem = Inr (heap, False))
    \<and> (heap_bag heap = {#} \<longrightarrow> heap_pop_elem heap elem = Inl (ExitWith 1))"
proof (cases "heap_size heap = 0")
  case True
  then have "heap_bag heap = {#}"
    by (simp add: heap_bag_empty_iff)
  with True show ?thesis
    by (simp add: heap_pop_elem_def heap_size_def dynarray_size_def dynarray_get_def Let_def)
next
  case ne: False
  let ?da = "heap_da heap"
  have unfold: "heap_pop_elem heap elem = (case find_pos (elems ?da) 0 (heap_size heap) elem of
        Some pos \<Rightarrow> bindR (heap_pop_pos heap pos) (\<lambda>(heap, r). Inr (heap, r \<noteq> None))
      | None \<Rightarrow> Inr (heap, False))"
    using ne by (simp add: heap_pop_elem_def heap_size_def dynarray_size_def Let_def)
  have mem: "elem \<in># heap_bag heap \<longleftrightarrow> elem \<in> elems ?da ` {0..<heap_size heap}"
    by (auto simp: heap_bag_block set_block_list)
  show ?thesis
  proof (cases "find_pos (elems ?da) 0 (heap_size heap) elem")
    case None
    then show ?thesis
      using unfold mem ne heap_bag_empty_iff [of heap] find_pos_None [of "elems ?da" 0 "heap_size heap" elem] by simp
  next
    case (Some pos)
    then have "pos < heap_size heap" and e: "elems ?da pos = elem"
      using find_pos_Some [OF Some] by auto
    with ne heap_bag_empty_iff [of heap] heap_pop_pos_spec [OF assms(1), of pos] show ?thesis
      using unfold Some by auto
  qed
qed

theorem heap_pop_elem_removes_witness:
  "\<exists>heap'. heap_pop_elem example_heap 5 = Inr (heap', True) \<and> heap_inv heap'
     \<and> heap_bag example_heap = add_mset 5 (heap_bag heap')"
proof -
  have "5 \<in># heap_bag example_heap"
    by (auto simp: example_heap_def heap_size_def dynarray_size_def heap_bag_block set_block_list
        intro!: image_eqI [where x = 1])
  with heap_pop_elem_removes [OF example_heap_inv, of 5] show ?thesis by blast
qed

text \<open>On an empty heap \<open>heap_pop_elem\<close> and \<open>heap_print\<close> ask the array for slot 0 before they look at
  the size, and the array ends the process with \<open>exit(1)\<close>; \<open>heap_pop\<close> looks at the size first.\<close>

theorem heap_pop_elem_empty_exits:
  "heap_size heap = 0 \<Longrightarrow> heap_pop_elem heap elem = Inl (ExitWith 1)
     \<and> heap_print heap = Inl (ExitWith 1) \<and> heap_pop heap = Inr (heap, None)"
  by (simp add: heap_pop_elem_def heap_print_def heap_pop_def heap_pop_pos_def heap_size_def
      dynarray_size_def dynarray_get_def Let_def)

theorem heap_pop_elem_empty_exits_witness:
  "\<exists>heap. heap_init (\<lambda>_. True) (\<lambda>_. 0) None = Inr heap
     \<and> heap_pop_elem heap 7 = Inl (ExitWith 1)"
proof -
  obtain heap where h: "heap_init (\<lambda>_. True) (\<lambda>_. 0) None = Inr heap"
    by (simp add: heap_init_def dynarray_create_def granted_def sizeof_dynarray_def ul_mul_small)
  then have "heap_size heap = 0"
    by (auto simp: heap_init_def dynarray_create_def heap_size_def dynarray_size_def granted_def sizeof_dynarray_def ul_mul_small)
  from heap_pop_elem_empty_exits [OF this] h show ?thesis by blast
qed

end
