(* ===== verification/HashTable.thy ===== *)
theory HashTable
  imports Prelude
begin

text \<open>
  The chained hash table of \<open>src/hash.c\<close> and \<open>src/hash.h\<close>: the executor keeps its
  pid-to-program table in it, the schedulers their per-program data. A bucket is the list of
  the entries in the order of the \<open>next\<close> pointers. The table is shown to refine a finite map,
  through an interface (locale \<open>kv_table\<close>) whose laws the table's own operations satisfy; the
  marker \<open>HASH_ENTRY_NOTFOUND\<close> that the code answers for a missing key is kept as the value
  it is, so that a stored marker and a missing key read the same.
\<close>

section \<open>State and operations\<close>

record hash_entry =
  he_key :: u64
  he_val :: u64

record hash_t =
  table :: "hash_entry list list"
  hash_sz :: nat

definition HASH_ENTRY_NOTFOUND :: u64 where
  "HASH_ENTRY_NOTFOUND = not 0"

text \<open>\<open>sizeof(hash_t)\<close> is 16. The table is allocated, and its address written, before the first result
  of \<open>malloc\<close> is checked. (The entries of the buckets are taken to get their memory.)\<close>

definition hash_empty :: "nat \<Rightarrow> hash_t" where
  "hash_empty sz = \<lparr>table = replicate sz [], hash_sz = sz\<rparr>"

definition hash_init :: "(nat \<Rightarrow> bool) \<Rightarrow> nat \<Rightarrow> hash_t res" where
  "hash_init mem_ok sz =
     (if \<not> granted mem_ok 16 then Inl BadAccess
      else if \<not> granted mem_ok (8 * sz) then Inl (ExitWith 1)
      else Inr (hash_empty sz))"

definition hash_fn :: "hash_t \<Rightarrow> u64 \<Rightarrow> nat res" where
  "hash_fn hash key =
     (if hash_sz hash = 0 then Inl DivideError else Inr (unat key mod hash_sz hash))"

text \<open>The walk along a bucket: the position of the first entry with the key.\<close>

fun chain_find :: "hash_entry list \<Rightarrow> u64 \<Rightarrow> nat option" where
  "chain_find [] key = None"
| "chain_find (ent # ents) key =
     (if he_key ent = key then Some 0 else map_option Suc (chain_find ents key))"

definition hash_insert :: "hash_t \<Rightarrow> u64 \<Rightarrow> u64 \<Rightarrow> hash_t res" where
  "hash_insert hash key val = bindR (hash_fn hash key) (\<lambda>bucket.
     let chain = table hash ! bucket in
     case chain_find chain key of
       Some i \<Rightarrow> Inr (hash\<lparr>table := (table hash)[bucket :=
                     chain[i := (chain ! i)\<lparr>he_val := val\<rparr>]]\<rparr>)
     | None \<Rightarrow> Inr (hash\<lparr>table := (table hash)[bucket :=
                     \<lparr>he_key = key, he_val = val\<rparr> # chain]\<rparr>))"

definition hash_lookup :: "hash_t \<Rightarrow> u64 \<Rightarrow> u64 res" where
  "hash_lookup hash key = bindR (hash_fn hash key) (\<lambda>bucket.
     case chain_find (table hash ! bucket) key of
       None \<Rightarrow> Inr HASH_ENTRY_NOTFOUND
     | Some i \<Rightarrow> Inr (he_val (table hash ! bucket ! i)))"

definition hash_delete :: "hash_t \<Rightarrow> u64 \<Rightarrow> (hash_t \<times> u64) res" where
  "hash_delete hash key = bindR (hash_fn hash key) (\<lambda>bucket.
     let chain = table hash ! bucket in
     case chain_find chain key of
       None \<Rightarrow> Inr (hash, HASH_ENTRY_NOTFOUND)
     | Some i \<Rightarrow> Inr (hash\<lparr>table := (table hash)[bucket := take i chain @ drop (Suc i) chain]\<rparr>,
                      he_val (chain ! i)))"

text \<open>
  The swap holds two entry pointers, here (bucket, position) pairs, and writes through them
  one after the other; they may be the same entry.
\<close>

definition entry_val :: "hash_t \<Rightarrow> nat \<times> nat \<Rightarrow> u64" where
  "entry_val hash e = he_val (table hash ! fst e ! snd e)"

definition set_entry_val :: "hash_t \<Rightarrow> nat \<times> nat \<Rightarrow> u64 \<Rightarrow> hash_t" where
  "set_entry_val hash e v = (let chain = table hash ! fst e in
     hash\<lparr>table := (table hash)[fst e := chain[snd e := (chain ! snd e)\<lparr>he_val := v\<rparr>]]\<rparr>)"

definition hash_swap :: "hash_t \<Rightarrow> u64 \<Rightarrow> u64 \<Rightarrow> (hash_t \<times> int) res" where
  "hash_swap hash key1 key2 = bindR (hash_fn hash key1) (\<lambda>bucket1.
     case chain_find (table hash ! bucket1) key1 of
       None \<Rightarrow> Inr (hash, -1)
     | Some i1 \<Rightarrow> bindR (hash_fn hash key2) (\<lambda>bucket2.
         case chain_find (table hash ! bucket2) key2 of
           None \<Rightarrow> Inr (hash, -1)
         | Some i2 \<Rightarrow>
             let tmp = entry_val hash (bucket1, i1);
                 hash = set_entry_val hash (bucket1, i1) (entry_val hash (bucket2, i2));
                 hash = set_entry_val hash (bucket2, i2) tmp
             in Inr (hash, 0)))"

text \<open>What \<open>hash_print\<close> lists: the buckets in order, each chain in order.\<close>

definition hash_print :: "hash_t \<Rightarrow> (nat \<times> (u64 \<times> u64) list) list" where
  "hash_print hash =
     map (\<lambda>i. (i, map (\<lambda>e. (he_key e, he_val e)) (table hash ! i))) [0..<hash_sz hash]"

section \<open>Invariant and abstraction\<close>

definition chain_map :: "hash_entry list \<Rightarrow> u64 \<rightharpoonup> u64" where
  "chain_map chain = map_of (map (\<lambda>e. (he_key e, he_val e)) chain)"

definition hash_wf :: "hash_t \<Rightarrow> bool" where
  "hash_wf hash \<longleftrightarrow> 0 < hash_sz hash \<and> length (table hash) = hash_sz hash
     \<and> (\<forall>b < hash_sz hash. distinct (map he_key (table hash ! b))
          \<and> (\<forall>e \<in> set (table hash ! b). unat (he_key e) mod hash_sz hash = b))"

definition hash_map :: "hash_t \<Rightarrow> u64 \<rightharpoonup> u64" where
  "hash_map hash key = chain_map (table hash ! (unat key mod hash_sz hash)) key"

lemma chain_find_None: "chain_find chain key = None \<longleftrightarrow> key \<notin> he_key ` set chain"
  by (induction chain) auto

lemma chain_find_Some:
  "chain_find chain key = Some i \<Longrightarrow> i < length chain \<and> he_key (chain ! i) = key
     \<and> (\<forall>j<i. he_key (chain ! j) \<noteq> key)"
proof (induction chain arbitrary: i)
  case Nil
  then show ?case by simp
next
  case (Cons c cs)
  show ?case
  proof (cases "he_key c = key")
    case True
    with Cons.prems show ?thesis by auto
  next
    case False
    with Cons.prems obtain j where "i = Suc j" "chain_find cs key = Some j" by auto
    with Cons.IH False show ?thesis
      by (auto simp: less_Suc_eq_0_disj)
  qed
qed

lemma chain_map_find:
  "chain_map chain key = map_option (\<lambda>i. he_val (chain ! i)) (chain_find chain key)"
  by (induction chain) (auto simp: chain_map_def option.map_comp comp_def)

lemma chain_map_None: "chain_map chain key = None \<longleftrightarrow> key \<notin> he_key ` set chain"
  by (auto simp: chain_map_find chain_find_None)

lemma chain_map_Cons [simp]: "chain_map (e # chain) = (chain_map chain)(he_key e \<mapsto> he_val e)"
  by (simp add: chain_map_def)

lemma chain_map_Nil [simp]: "chain_map [] = Map.empty"
  by (simp add: chain_map_def)

lemma chain_update:
  "chain_find chain key = Some i \<Longrightarrow>
     chain_map (chain[i := (chain ! i)\<lparr>he_val := v\<rparr>]) = (chain_map chain)(key \<mapsto> v)
   \<and> map he_key (chain[i := (chain ! i)\<lparr>he_val := v\<rparr>]) = map he_key chain"
proof (induction chain arbitrary: i)
  case Nil
  then show ?case by simp
next
  case (Cons c cs)
  show ?case
  proof (cases "he_key c = key")
    case True
    with Cons.prems show ?thesis by auto
  next
    case False
    with Cons.prems obtain j where "i = Suc j" "chain_find cs key = Some j" by auto
    with Cons.IH False show ?thesis
      by (auto intro: fun_upd_twist)
  qed
qed

lemma chain_remove:
  "chain_find chain key = Some i \<Longrightarrow> distinct (map he_key chain) \<Longrightarrow>
     chain_map (take i chain @ drop (Suc i) chain) = (chain_map chain)(key := None)
   \<and> distinct (map he_key (take i chain @ drop (Suc i) chain))
   \<and> set (take i chain @ drop (Suc i) chain) \<subseteq> set chain"
proof (induction chain arbitrary: i)
  case Nil
  then show ?case by simp
next
  case (Cons c cs)
  show ?case
  proof (cases "he_key c = key")
    case True
    with Cons.prems show ?thesis
      by (auto simp: chain_map_None fun_upd_idem)
  next
    case False
    with Cons.prems obtain j where "i = Suc j" "chain_find cs key = Some j" by auto
    with Cons False show ?thesis
      by (auto intro: fun_upd_twist dest: in_set_takeD in_set_dropD)
  qed
qed

lemma hash_fn_wf: "hash_wf hash \<Longrightarrow> hash_fn hash key = Inr (unat key mod hash_sz hash)"
  by (simp add: hash_fn_def hash_wf_def)

lemma hash_wf_bucket:
  assumes "hash_wf hash" and "b = unat key mod hash_sz hash"
  shows "b < hash_sz hash" and "b < length (table hash)"
    and "distinct (map he_key (table hash ! b))"
  using assms by (auto simp: hash_wf_def)

text \<open>Replacing one bucket by a chain that keeps to it.\<close>

lemma hash_wf_update:
  assumes "hash_wf hash" and "b < hash_sz hash" and "distinct (map he_key chain)"
    and "\<And>k. k \<in> he_key ` set chain \<Longrightarrow> unat k mod hash_sz hash = b"
  shows "hash_wf (hash\<lparr>table := (table hash)[b := chain]\<rparr>)"
  using assms by (auto simp: hash_wf_def nth_list_update)

lemma hash_map_update:
  assumes "hash_wf hash" and "b = unat key mod hash_sz hash"
    and "chain_map chain = (chain_map (table hash ! b))(key := v)"
  shows "hash_map (hash\<lparr>table := (table hash)[b := chain]\<rparr>) = (hash_map hash)(key := v)"
proof
  fix k
  show "hash_map (hash\<lparr>table := (table hash)[b := chain]\<rparr>) k = ((hash_map hash)(key := v)) k"
    using assms hash_wf_bucket [OF assms(1,2)]
    by (auto simp: hash_map_def nth_list_update)
qed

lemma bucket_keys:
  assumes "hash_wf hash" and "b < hash_sz hash" and "k \<in> he_key ` set (table hash ! b)"
  shows "unat k mod hash_sz hash = b"
  using assms by (auto simp: hash_wf_def)

lemma he_key_set: "he_key ` set chain = set (map he_key chain)"
  by simp

lemma hash_insert_map:
  assumes "hash_wf hash"
  shows "\<exists>hash'. hash_insert hash key val = Inr hash' \<and> hash_wf hash'
    \<and> hash_map hash' = (hash_map hash)(key \<mapsto> val)"
proof -
  let ?b = "unat key mod hash_sz hash"
  let ?chain = "table hash ! ?b"
  note b = hash_wf_bucket [OF assms refl, of key]
  show ?thesis
  proof (cases "chain_find ?chain key")
    case None
    let ?new = "\<lparr>he_key = key, he_val = val\<rparr> # ?chain"
    have "hash_wf (hash\<lparr>table := (table hash)[?b := ?new]\<rparr>)"
    proof (rule hash_wf_update [OF assms b(1)])
      show "distinct (map he_key ?new)"
        using None b(3) by (simp add: chain_find_None)
      show "unat k mod hash_sz hash = ?b" if "k \<in> he_key ` set ?new" for k
        using that bucket_keys [OF assms b(1), of k] by auto
    qed
    moreover have "hash_map (hash\<lparr>table := (table hash)[?b := ?new]\<rparr>) = (hash_map hash)(key \<mapsto> val)"
      by (rule hash_map_update [OF assms refl]) simp
    ultimately show ?thesis
      using None by (simp add: hash_insert_def hash_fn_wf [OF assms] Let_def)
  next
    case (Some i)
    let ?new = "?chain[i := (?chain ! i)\<lparr>he_val := val\<rparr>]"
    note upd = chain_update [OF Some, of val]
    have "hash_wf (hash\<lparr>table := (table hash)[?b := ?new]\<rparr>)"
      using upd b(3) bucket_keys [OF assms b(1)]
      by (intro hash_wf_update [OF assms b(1)]) (simp_all only: he_key_set)
    moreover have "hash_map (hash\<lparr>table := (table hash)[?b := ?new]\<rparr>) = (hash_map hash)(key \<mapsto> val)"
      by (rule hash_map_update [OF assms refl]) (use upd in simp)
    ultimately show ?thesis
      using Some by (simp add: hash_insert_def hash_fn_wf [OF assms] Let_def)
  qed
qed

lemma hash_lookup_map:
  assumes "hash_wf hash"
  shows "hash_lookup hash key = Inr (case hash_map hash key of Some v \<Rightarrow> v | None \<Rightarrow> HASH_ENTRY_NOTFOUND)"
  by (auto simp: hash_lookup_def hash_fn_wf [OF assms] hash_map_def chain_map_find split: option.splits)

lemma hash_delete_map:
  assumes "hash_wf hash"
  shows "\<exists>hash'. hash_delete hash key
      = Inr (hash', case hash_map hash key of Some v \<Rightarrow> v | None \<Rightarrow> HASH_ENTRY_NOTFOUND)
    \<and> hash_wf hash' \<and> hash_map hash' = (hash_map hash)(key := None)"
proof -
  let ?b = "unat key mod hash_sz hash"
  let ?chain = "table hash ! ?b"
  note b = hash_wf_bucket [OF assms refl, of key]
  show ?thesis
  proof (cases "chain_find ?chain key")
    case None
    then have "hash_map hash key = None"
      by (simp add: hash_map_def chain_map_find)
    with None assms show ?thesis
      by (simp add: hash_delete_def hash_fn_wf fun_upd_idem)
  next
    case (Some i)
    let ?new = "take i ?chain @ drop (Suc i) ?chain"
    note rem = chain_remove [OF Some b(3)]
    have "hash_wf (hash\<lparr>table := (table hash)[?b := ?new]\<rparr>)"
      using rem b(1) bucket_keys [OF assms b(1)]
      by (intro hash_wf_update [OF assms]) blast+
    moreover have "hash_map (hash\<lparr>table := (table hash)[?b := ?new]\<rparr>) = (hash_map hash)(key := None)"
      by (rule hash_map_update [OF assms refl]) (use rem in simp)
    moreover have "hash_map hash key = Some (he_val (?chain ! i))"
      using Some by (simp add: hash_map_def chain_map_find)
    ultimately show ?thesis
      using Some by (simp add: hash_delete_def hash_fn_wf [OF assms] Let_def)
  qed
qed

lemma set_entry_val_map:
  assumes "hash_wf hash" and "b = unat key mod hash_sz hash"
    and "chain_find (table hash ! b) key = Some i"
  shows "hash_wf (set_entry_val hash (b, i) v)"
    and "hash_map (set_entry_val hash (b, i) v) = (hash_map hash)(key \<mapsto> v)"
proof -
  obtain h where h: "hash_insert hash key v = Inr h" "hash_wf h" "hash_map h = (hash_map hash)(key \<mapsto> v)"
    using hash_insert_map [OF assms(1)] by blast
  have "h = set_entry_val hash (b, i) v"
    using h(1) assms by (simp add: hash_insert_def hash_fn_wf set_entry_val_def Let_def)
  with h show "hash_wf (set_entry_val hash (b, i) v)"
    and "hash_map (set_entry_val hash (b, i) v) = (hash_map hash)(key \<mapsto> v)" by auto
qed

lemma chain_find_keys: "map he_key c = map he_key d \<Longrightarrow> chain_find c key = chain_find d key"
proof (induction c arbitrary: d)
  case Nil
  then show ?case by simp
next
  case (Cons x c)
  then show ?case by (cases d) auto
qed

lemma set_entry_val_find:
  assumes "b < length (table hash)" and "i < length (table hash ! b)"
  shows "chain_find (table (set_entry_val hash (b, i) v) ! b') key = chain_find (table hash ! b') key"
  using assms
  by (intro chain_find_keys)
    (auto simp: set_entry_val_def Let_def nth_list_update map_update list_update_same_conv)

section \<open>The interface its clients rely on\<close>

text \<open>
  A client sees a table through its map; \<open>put\<close> and \<open>del\<close> always succeed on a table that
  satisfies the invariant.
\<close>

locale kv_table =
  fixes put :: "'h \<Rightarrow> 'k \<Rightarrow> 'v \<Rightarrow> 'h res"
    and get :: "'h \<Rightarrow> 'k \<Rightarrow> 'v res"
    and del :: "'h \<Rightarrow> 'k \<Rightarrow> ('h \<times> 'v) res"
    and absent :: 'v
    and view :: "'h \<Rightarrow> 'k \<rightharpoonup> 'v"
    and wf :: "'h \<Rightarrow> bool"
  assumes put_law: "wf h \<Longrightarrow> \<exists>h'. put h k v = Inr h' \<and> wf h' \<and> view h' = (view h)(k \<mapsto> v)"
    and get_law: "wf h \<Longrightarrow> get h k = Inr (case view h k of Some v \<Rightarrow> v | None \<Rightarrow> absent)"
    and del_law: "wf h \<Longrightarrow> \<exists>h'. del h k = Inr (h', case view h k of Some v \<Rightarrow> v | None \<Rightarrow> absent)
      \<and> wf h' \<and> view h' = (view h)(k := None)"
begin

lemma get_after_put:
  assumes "wf h" and "put h k v = Inr h'"
  shows "get h' j = (if j = k then Inr v else get h j)"
  using put_law [OF assms(1), of k v] assms get_law by auto

lemma get_after_del:
  assumes "wf h" and "del h k = Inr (h', v)"
  shows "get h' j = (if j = k then Inr absent else get h j) \<and> get h k = Inr v"
  using del_law [OF assms(1), of k] assms get_law by auto

text \<open>A run of updates: \<open>Some v\<close> stores, \<open>None\<close> deletes.\<close>

fun apply_updates :: "('k \<times> 'v option) list \<Rightarrow> 'h \<Rightarrow> 'h res" where
  "apply_updates [] h = Inr h"
| "apply_updates ((k, Some v) # us) h = bindR (put h k v) (apply_updates us)"
| "apply_updates ((k, None) # us) h = bindR (del h k) (\<lambda>(h, _). apply_updates us h)"

lemma apply_updates_law:
  "wf h \<Longrightarrow> \<exists>h'. apply_updates us h = Inr h' \<and> wf h'
     \<and> view h' = foldl (\<lambda>m (k, v). m(k := v)) (view h) us"
proof (induction us h rule: apply_updates.induct)
  case (1 h)
  then show ?case by simp
next
  case (2 k v us h)
  then obtain h1 where "put h k v = Inr h1" "wf h1" "view h1 = (view h)(k \<mapsto> v)"
    using put_law by blast
  with "2.IH" [of h1] show ?case by simp
next
  case (3 k us h)
  then obtain h1 where h1: "del h k = Inr (h1, case view h k of Some v \<Rightarrow> v | None \<Rightarrow> absent)"
      "wf h1" "view h1 = (view h)(k := None)"
    using del_law by blast
  with "3.IH" [of h1] show ?case by simp
qed

end

interpretation ht: kv_table hash_insert hash_lookup hash_delete HASH_ENTRY_NOTFOUND hash_map hash_wf
  by unfold_locales (simp_all add: hash_insert_map hash_lookup_map hash_delete_map)

lemma hash_init_Inr: "hash_init mem_ok sz = Inr hash \<longleftrightarrow> granted mem_ok 16 \<and> granted mem_ok (8 * sz) \<and> hash = hash_empty sz"
  by (auto simp: hash_init_def)

lemma hash_empty_wf: "0 < sz \<Longrightarrow> hash_wf (hash_empty sz) \<and> hash_map (hash_empty sz) = Map.empty"
  by (auto simp: hash_empty_def hash_wf_def hash_map_def fun_eq_iff)

section \<open>Properties\<close>

text \<open>C9: A table of at least one bucket that \<open>hash_init\<close> returned implements a map: after any sequence of
  insertions and deletions, no operation has failed and a lookup of a key answers the value
  that the last insertion of the key stored, or \<open>HASH_ENTRY_NOTFOUND\<close> when the key was never
  inserted or has been deleted since.\<close>

theorem hash_refines_map:
  assumes "0 < sz" and "hash_init mem_ok sz = Inr hash0"
  shows "\<exists>hash. ht.apply_updates us hash0 = Inr hash \<and> hash_wf hash
    \<and> (\<forall>key. hash_lookup hash key
        = Inr (case foldl (\<lambda>m (k, v). m(k := v)) Map.empty us key of
                 Some v \<Rightarrow> v | None \<Rightarrow> HASH_ENTRY_NOTFOUND))"
  using ht.apply_updates_law [of "hash_empty sz" us] hash_empty_wf [OF assms(1)] ht.get_law assms(2)
  by (auto simp: hash_init_Inr)

theorem hash_refines_map_witness:
  "\<exists>hash. bindR (hash_init (\<lambda>_. True) 10) (ht.apply_updates [(4, Some 1), (14, Some 2), (4, None)]) = Inr hash
     \<and> hash_lookup hash 14 = Inr 2 \<and> hash_lookup hash 4 = Inr HASH_ENTRY_NOTFOUND"
  using hash_refines_map [of 10 "\<lambda>_. True" "hash_empty 10" "[(4, Some 1), (14, Some 2), (4, None)]"]
  by (auto simp: hash_init_def granted_def)

text \<open>\<open>hash_swap\<close> exchanges the values of two keys that are both present, also when they
  are in one bucket or are the same key, and keeps every other binding; with a key missing it
  answers -1 and changes nothing.\<close>

theorem hash_swap_exchanges:
  assumes "hash_wf hash"
  shows "case (hash_map hash key1, hash_map hash key2) of
      (Some v1, Some v2) \<Rightarrow> (\<exists>hash'. hash_swap hash key1 key2 = Inr (hash', 0) \<and> hash_wf hash'
         \<and> hash_map hash' = (hash_map hash)(key1 \<mapsto> v2, key2 \<mapsto> v1))
    | _ \<Rightarrow> hash_swap hash key1 key2 = Inr (hash, -1)"
proof -
  let ?b1 = "unat key1 mod hash_sz hash" and ?b2 = "unat key2 mod hash_sz hash"
  let ?f1 = "chain_find (table hash ! ?b1) key1" and ?f2 = "chain_find (table hash ! ?b2) key2"
  have m1: "hash_map hash key1 = map_option (\<lambda>i. entry_val hash (?b1, i)) ?f1"
    and m2: "hash_map hash key2 = map_option (\<lambda>i. entry_val hash (?b2, i)) ?f2"
    by (simp_all add: hash_map_def chain_map_find entry_val_def)
  show ?thesis
  proof (cases "?f1 = None \<or> ?f2 = None")
    case True
    then show ?thesis
      using m1 m2 by (auto simp: hash_swap_def hash_fn_wf [OF assms] split: option.splits)
  next
    case False
    then obtain i1 i2 where f: "?f1 = Some i1" "?f2 = Some i2" by auto
    let ?h1 = "set_entry_val hash (?b1, i1) (entry_val hash (?b2, i2))"
    let ?h2 = "set_entry_val ?h1 (?b2, i2) (entry_val hash (?b1, i1))"
    note w1 = set_entry_val_map [OF assms refl f(1), of "entry_val hash (?b2, i2)"]
    have sz: "hash_sz ?h1 = hash_sz hash"
      by (simp add: set_entry_val_def Let_def)
    have "chain_find (table ?h1 ! ?b2) key2 = Some i2"
      using f chain_find_Some [OF f(1)] hash_wf_bucket [OF assms refl, of key1]
      by (simp add: set_entry_val_find)
    from set_entry_val_map [OF w1(1) _ this, of "entry_val hash (?b1, i1)"] w1(2) sz
    have "hash_wf ?h2" and "hash_map ?h2
        = (hash_map hash)(key1 \<mapsto> entry_val hash (?b2, i2), key2 \<mapsto> entry_val hash (?b1, i1))"
      by auto
    then show ?thesis
      using f m1 m2 by (simp add: hash_swap_def hash_fn_wf [OF assms] Let_def)
  qed
qed

definition example_hash :: hash_t where
  "example_hash = \<lparr>table = [[\<lparr>he_key = 4, he_val = 10\<rparr>, \<lparr>he_key = 2, he_val = 20\<rparr>], []], hash_sz = 2\<rparr>"

lemma all_less_two: "(\<forall>b < (2::nat). P b) \<longleftrightarrow> P 0 \<and> P 1"
  by (auto simp: numeral_2_eq_2 less_Suc_eq)

lemma example_hash_wf: "hash_wf example_hash"
  by (simp add: hash_wf_def example_hash_def all_less_two)

theorem hash_swap_exchanges_witness:
  "\<exists>hash'. hash_swap example_hash 4 2 = Inr (hash', 0) \<and> hash_map hash' 4 = Some 20
     \<and> hash_map hash' 2 = Some 10"
proof -
  have "hash_map example_hash 4 = Some 10" and "hash_map example_hash 2 = Some 20"
    by (simp_all add: hash_map_def example_hash_def)
  with hash_swap_exchanges [OF example_hash_wf, of 4 2] show ?thesis by auto
qed

text \<open>The marker for "not found" is an ordinary value: a key stored with the value
  \<open>~0UL\<close> cannot be told from a key that was never stored, by \<open>hash_lookup\<close> or by
  \<open>hash_delete\<close>; and a table of size 0, which \<open>hash_init\<close> accepts, divides by zero at the
  first use.\<close>

theorem hash_sentinel_ambiguous:
  assumes "hash_wf hash" and "hash_map hash key = None"
  shows "\<exists>hash'. hash_insert hash key HASH_ENTRY_NOTFOUND = Inr hash'
    \<and> hash_map hash' key \<noteq> None
    \<and> hash_lookup hash' key = hash_lookup hash key
    \<and> map_sum id snd (hash_delete hash' key) = map_sum id snd (hash_delete hash key)
    \<and> hash_lookup (hash_empty 0) key = Inl DivideError"
proof -
  obtain hash' where h: "hash_insert hash key HASH_ENTRY_NOTFOUND = Inr hash'" "hash_wf hash'"
      "hash_map hash' = (hash_map hash)(key \<mapsto> HASH_ENTRY_NOTFOUND)"
    using ht.put_law [OF assms(1)] by blast
  with assms ht.get_law ht.del_law [OF assms(1), of key] ht.del_law [OF h(2), of key]
  show ?thesis
    by (auto simp: hash_lookup_def hash_fn_def hash_empty_def)
qed

theorem hash_sentinel_ambiguous_witness:
  "\<exists>hash'. hash_insert example_hash 6 HASH_ENTRY_NOTFOUND = Inr hash'
     \<and> hash_lookup hash' 6 = hash_lookup example_hash 6"
proof -
  have "hash_map example_hash 6 = None"
    by (simp add: hash_map_def example_hash_def)
  from hash_sentinel_ambiguous [OF example_hash_wf this] show ?thesis by blast
qed

end
