(* ===== verification/ShmMap.thy ===== *)
theory ShmMap
  imports Prelude
begin

text \<open>
  The shared memory page between the executor and an application, \<open>src/aff_shm.h\<close>: a map of
  32-bit and 64-bit fields at fixed offsets, read and written through typed accessors that
  the header generates with macros. The page is a map from offsets to bytes; the target is
  little endian. \<open>CACHE_LINE_SIZE\<close> is the value that \<open>src/Makefile\<close> passes, 64.
\<close>

type_synonym shm = "nat \<Rightarrow> u8"

definition CACHE_LINE_SIZE :: nat where "CACHE_LINE_SIZE = 64"
definition AFF_SHM_SIZE :: nat where "AFF_SHM_SIZE = 4096"

definition FD_APP_OFF :: nat where "FD_APP_OFF = 0"
definition FD_EXECUTOR_OFF :: nat where "FD_EXECUTOR_OFF = FD_APP_OFF + 4"
definition CPUS_ARCH_OFF :: nat where "CPUS_ARCH_OFF = FD_EXECUTOR_OFF + 4"
definition CPUS_ASSIGNED_OFF :: nat where "CPUS_ASSIGNED_OFF = CPUS_ARCH_OFF + 4"
definition APP_HANDLER_OFF :: nat where "APP_HANDLER_OFF = CPUS_ASSIGNED_OFF + 4"
definition APP_PID_OFF :: nat where "APP_PID_OFF = APP_HANDLER_OFF + 8"
definition EXECUTOR_END_OFF :: nat where "EXECUTOR_END_OFF = APP_PID_OFF + 4"
definition CPUS_REQUESTED_OFF :: nat where "CPUS_REQUESTED_OFF = CACHE_LINE_SIZE"

lemmas shm_offsets = CACHE_LINE_SIZE_def AFF_SHM_SIZE_def FD_APP_OFF_def FD_EXECUTOR_OFF_def
  CPUS_ARCH_OFF_def CPUS_ASSIGNED_OFF_def APP_HANDLER_OFF_def APP_PID_OFF_def
  EXECUTOR_END_OFF_def CPUS_REQUESTED_OFF_def

definition put_bytes :: "nat \<Rightarrow> nat \<Rightarrow> u64 \<Rightarrow> shm \<Rightarrow> shm" where
  "put_bytes off n x shm =
     (\<lambda>a. if off \<le> a \<and> a < off + n then ucast (drop_bit (8 * (a - off)) x) else shm a)"

fun get_bytes :: "nat \<Rightarrow> nat \<Rightarrow> shm \<Rightarrow> u64" where
  "get_bytes off 0 shm = 0"
| "get_bytes off (Suc n) shm = get_bytes off n shm OR push_bit (8 * n) (ucast (shm (off + n)))"

definition aff_shm_set_uint32 :: "shm \<Rightarrow> u32 \<Rightarrow> nat \<Rightarrow> shm" where
  "aff_shm_set_uint32 shm x offset = put_bytes offset 4 (ucast x) shm"

definition aff_shm_get_uint32 :: "shm \<Rightarrow> nat \<Rightarrow> u32" where
  "aff_shm_get_uint32 shm offset = ucast (get_bytes offset 4 shm)"

definition aff_shm_set_ul :: "shm \<Rightarrow> u64 \<Rightarrow> nat \<Rightarrow> shm" where
  "aff_shm_set_ul shm x offset = put_bytes offset 8 x shm"

definition aff_shm_get_ul :: "shm \<Rightarrow> nat \<Rightarrow> u64" where
  "aff_shm_get_ul shm offset = get_bytes offset 8 shm"

text \<open>The accessors that \<open>DECL_AFF_SHM_ACCESSOR_U32\<close> and \<open>DECL_AFF_SHM_ACCESSOR_UL\<close> generate.\<close>

definition aff_shm_set_fd_app :: "shm \<Rightarrow> u32 \<Rightarrow> shm" where
  "aff_shm_set_fd_app shm x = aff_shm_set_uint32 shm x FD_APP_OFF"
definition aff_shm_get_fd_app :: "shm \<Rightarrow> u32" where
  "aff_shm_get_fd_app shm = aff_shm_get_uint32 shm FD_APP_OFF"
definition aff_shm_set_fd_executor :: "shm \<Rightarrow> u32 \<Rightarrow> shm" where
  "aff_shm_set_fd_executor shm x = aff_shm_set_uint32 shm x FD_EXECUTOR_OFF"
definition aff_shm_get_fd_executor :: "shm \<Rightarrow> u32" where
  "aff_shm_get_fd_executor shm = aff_shm_get_uint32 shm FD_EXECUTOR_OFF"
definition aff_shm_set_cpus_arch :: "shm \<Rightarrow> u32 \<Rightarrow> shm" where
  "aff_shm_set_cpus_arch shm x = aff_shm_set_uint32 shm x CPUS_ARCH_OFF"
definition aff_shm_get_cpus_arch :: "shm \<Rightarrow> u32" where
  "aff_shm_get_cpus_arch shm = aff_shm_get_uint32 shm CPUS_ARCH_OFF"
definition aff_shm_set_cpus_assigned :: "shm \<Rightarrow> u32 \<Rightarrow> shm" where
  "aff_shm_set_cpus_assigned shm x = aff_shm_set_uint32 shm x CPUS_ASSIGNED_OFF"
definition aff_shm_get_cpus_assigned :: "shm \<Rightarrow> u32" where
  "aff_shm_get_cpus_assigned shm = aff_shm_get_uint32 shm CPUS_ASSIGNED_OFF"
definition aff_shm_set_app_handler :: "shm \<Rightarrow> u64 \<Rightarrow> shm" where
  "aff_shm_set_app_handler shm x = aff_shm_set_ul shm x APP_HANDLER_OFF"
definition aff_shm_get_app_handler :: "shm \<Rightarrow> u64" where
  "aff_shm_get_app_handler shm = aff_shm_get_ul shm APP_HANDLER_OFF"
definition aff_shm_set_cpus_requested :: "shm \<Rightarrow> u32 \<Rightarrow> shm" where
  "aff_shm_set_cpus_requested shm x = aff_shm_set_uint32 shm x CPUS_REQUESTED_OFF"
definition aff_shm_get_cpus_requested :: "shm \<Rightarrow> u32" where
  "aff_shm_get_cpus_requested shm = aff_shm_get_uint32 shm CPUS_REQUESTED_OFF"
definition aff_shm_set_app_pid :: "shm \<Rightarrow> u32 \<Rightarrow> shm" where
  "aff_shm_set_app_pid shm x = aff_shm_set_uint32 shm x APP_PID_OFF"
definition aff_shm_get_app_pid :: "shm \<Rightarrow> u32" where
  "aff_shm_get_app_pid shm = aff_shm_get_uint32 shm APP_PID_OFF"

lemmas shm_accessors =
  aff_shm_set_fd_app_def aff_shm_get_fd_app_def aff_shm_set_fd_executor_def
  aff_shm_get_fd_executor_def aff_shm_set_cpus_arch_def aff_shm_get_cpus_arch_def
  aff_shm_set_cpus_assigned_def aff_shm_get_cpus_assigned_def aff_shm_set_app_handler_def
  aff_shm_get_app_handler_def aff_shm_set_cpus_requested_def aff_shm_get_cpus_requested_def
  aff_shm_set_app_pid_def aff_shm_get_app_pid_def

section \<open>The application's side\<close>

text \<open>
  The protocol of \<open>src/aff-executor-preload.c\<close>: \<open>affhooks_init\<close> reads what the executor left in
  the page and publishes its own pid; \<open>affhook_region_notify\<close> asks for threads, and after the
  executor has answered takes the number assigned. Between the two halves it writes its handle
  into a pipe and reads from another, and ends the process where one fails (\<open>wrote\<close>, \<open>got\<close>);
  \<open>answer\<close> is what the executor, given the handle, does to the page meanwhile.
\<close>

record app_state =
  app_id :: int
  fd_wr :: u32
  fd_rd :: u32
  app_cpus_arch :: int
  myhandle :: u64

definition affhooks_init :: "string option \<Rightarrow> (string \<Rightarrow> int) \<Rightarrow> u32 \<Rightarrow> shm \<Rightarrow> (app_state \<times> shm) res" where
  "affhooks_init id_str atol pid shm = (case id_str of
      None \<Rightarrow> Inl (ExitWith 1)
    | Some str \<Rightarrow> if atol str = 0 then Inl (ExitWith 1)
        else Inr (\<lparr>app_id = atol str,
                   fd_wr = aff_shm_get_fd_executor shm,
                   fd_rd = aff_shm_get_fd_app shm,
                   app_cpus_arch = s32_of_u32 (aff_shm_get_cpus_arch shm),
                   myhandle = aff_shm_get_app_handler shm\<rparr>,
                  aff_shm_set_app_pid (aff_shm_set_cpus_requested shm 1) pid))"

definition region_request :: "app_state \<Rightarrow> int \<Rightarrow> shm \<Rightarrow> shm" where
  "region_request st nr_threads shm =
     (let nr_threads = if nr_threads = 0 \<or> nr_threads > app_cpus_arch st then app_cpus_arch st
                       else nr_threads
      in aff_shm_set_cpus_requested shm (u32_of_int nr_threads))"

definition region_adopt :: "shm \<Rightarrow> int \<times> shm" where
  "region_adopt shm =
     (let nr_threads = s32_of_u32 (aff_shm_get_cpus_assigned shm)
      in (nr_threads, aff_shm_set_cpus_requested shm (u32_of_int nr_threads)))"

definition affhook_region_notify ::
    "app_state \<Rightarrow> bool \<Rightarrow> bool \<Rightarrow> int \<Rightarrow> (u64 \<Rightarrow> shm \<Rightarrow> shm) \<Rightarrow> shm \<Rightarrow> (int \<times> shm) res" where
  "affhook_region_notify st wrote got nr_threads answer shm =
     (let shm = region_request st nr_threads shm in
      if \<not> wrote then Inl (ExitWith 1)
      else let shm = answer (myhandle st) shm in
        if \<not> got then Inl (ExitWith 1) else Inr (region_adopt shm))"

section \<open>Facts\<close>

lemma get_put_bytes_other:
  "off + n \<le> off' \<or> off' + n' \<le> off \<Longrightarrow> get_bytes off' n' (put_bytes off n x shm) = get_bytes off' n' shm"
proof (induction n')
  case 0
  then show ?case by simp
next
  case (Suc n')
  moreover have "put_bytes off n x shm (off' + n') = shm (off' + n')"
    using Suc.prems by (auto simp: put_bytes_def)
  ultimately show ?case by auto
qed

lemma get_put_bytes_part: "k \<le> n \<Longrightarrow> get_bytes off k (put_bytes off n x shm) = take_bit (8 * k) x"
proof (induction k)
  case 0
  then show ?case by simp
next
  case (Suc k)
  then have "put_bytes off n x shm (off + k) = ucast (drop_bit (8 * k) x)"
    by (simp add: put_bytes_def)
  with Suc have "get_bytes off (Suc k) (put_bytes off n x shm)
      = take_bit (8 * k) x OR push_bit (8 * k) (ucast (ucast (drop_bit (8 * k) x) :: u8))"
    by simp
  also have "\<dots> = take_bit (8 * Suc k) x"
    by (rule bit_word_eqI) (auto simp: bit_simps)
  finally show ?case .
qed

lemma uint32_same: "aff_shm_get_uint32 (aff_shm_set_uint32 shm x off) off = x"
proof -
  have "ucast (take_bit 32 (ucast x :: u64)) = x"
    by (rule bit_word_eqI) (auto simp: bit_simps)
  then show ?thesis
    by (simp add: aff_shm_get_uint32_def aff_shm_set_uint32_def get_put_bytes_part)
qed

lemma ul_same: "aff_shm_get_ul (aff_shm_set_ul shm x off) off = x"
proof -
  have "take_bit 64 x = x"
    by (rule bit_word_eqI) (auto simp: bit_simps)
  then show ?thesis
    by (simp add: aff_shm_get_ul_def aff_shm_set_ul_def get_put_bytes_part)
qed

lemma shm_other:
  "off + 4 \<le> off' \<or> off' + 4 \<le> off \<Longrightarrow> aff_shm_get_uint32 (aff_shm_set_uint32 shm x off) off' = aff_shm_get_uint32 shm off'"
  "off + 8 \<le> off' \<or> off' + 4 \<le> off \<Longrightarrow> aff_shm_get_uint32 (aff_shm_set_ul shm y off) off' = aff_shm_get_uint32 shm off'"
  "off + 4 \<le> off' \<or> off' + 8 \<le> off \<Longrightarrow> aff_shm_get_ul (aff_shm_set_uint32 shm x off) off' = aff_shm_get_ul shm off'"
  by (simp_all add: aff_shm_get_uint32_def aff_shm_set_uint32_def aff_shm_get_ul_def
      aff_shm_set_ul_def get_put_bytes_other)

text \<open>The view of a page through its accessors, and how each write changes it.\<close>

record shm_view =
  v_fd_app :: u32
  v_fd_executor :: u32
  v_cpus_arch :: u32
  v_cpus_assigned :: u32
  v_app_handler :: u64
  v_app_pid :: u32
  v_cpus_requested :: u32

definition shm_view :: "shm \<Rightarrow> shm_view" where
  "shm_view shm = \<lparr>v_fd_app = aff_shm_get_fd_app shm, v_fd_executor = aff_shm_get_fd_executor shm,
     v_cpus_arch = aff_shm_get_cpus_arch shm, v_cpus_assigned = aff_shm_get_cpus_assigned shm,
     v_app_handler = aff_shm_get_app_handler shm, v_app_pid = aff_shm_get_app_pid shm,
     v_cpus_requested = aff_shm_get_cpus_requested shm\<rparr>"

section \<open>Properties\<close>

text \<open>C23: The fields of the page do not overlap and the accessors are inverse to each other:
  each write changes exactly its own field of what the readers see, and the whole map,
  the field the application writes included, lies within the page and the latter on a cache
  line of its own.\<close>

theorem shm_fields_independent:
  "shm_view (aff_shm_set_fd_app shm x) = (shm_view shm)\<lparr>v_fd_app := x\<rparr>
   \<and> shm_view (aff_shm_set_fd_executor shm x) = (shm_view shm)\<lparr>v_fd_executor := x\<rparr>
   \<and> shm_view (aff_shm_set_cpus_arch shm x) = (shm_view shm)\<lparr>v_cpus_arch := x\<rparr>
   \<and> shm_view (aff_shm_set_cpus_assigned shm x) = (shm_view shm)\<lparr>v_cpus_assigned := x\<rparr>
   \<and> shm_view (aff_shm_set_app_handler shm y) = (shm_view shm)\<lparr>v_app_handler := y\<rparr>
   \<and> shm_view (aff_shm_set_app_pid shm x) = (shm_view shm)\<lparr>v_app_pid := x\<rparr>
   \<and> shm_view (aff_shm_set_cpus_requested shm x) = (shm_view shm)\<lparr>v_cpus_requested := x\<rparr>
   \<and> EXECUTOR_END_OFF \<le> CPUS_REQUESTED_OFF \<and> CPUS_REQUESTED_OFF mod CACHE_LINE_SIZE = 0
   \<and> CPUS_REQUESTED_OFF + 4 \<le> AFF_SHM_SIZE"
  by (intro conjI) (simp_all add: shm_view_def shm_accessors shm_offsets uint32_same ul_same shm_other)

text \<open>C24: One round of the protocol: if both transfers succeed and the executor only assigns
  processors, a number \<open>n\<close> that is not negative, the application runs its region with exactly \<open>n\<close> threads, has asked for at most
  the processors of the machine, and leaves the request equal to the assignment;
  where a transfer fails the application ends with 1.\<close>

theorem region_notify_adopts:
  assumes "0 \<le> app_cpus_arch st" and "app_cpus_arch st < 2 ^ 31" and "0 \<le> k" and "0 \<le> n" and "n < 2 ^ 31"
  shows "case affhook_region_notify st wrote got k (\<lambda>_ shm. aff_shm_set_cpus_assigned shm (u32_of_int n)) shm of
      Inl e \<Rightarrow> e = ExitWith 1 \<and> \<not> (wrote \<and> got)
    | Inr (threads, shm') \<Rightarrow> wrote \<and> got \<and> threads = n \<and> aff_shm_get_cpus_requested shm' = u32_of_int n
      \<and> s32_of_u32 (aff_shm_get_cpus_requested (region_request st k shm)) \<le> app_cpus_arch st
      \<and> shm_view shm' = (shm_view shm)\<lparr>v_cpus_assigned := u32_of_int n, v_cpus_requested := u32_of_int n\<rparr>"
proof -
  have conv: "s32_of_u32 (u32_of_int m) = m" if "0 \<le> m" "m < 2 ^ 31" for m
    using that by (simp add: s32_of_u32_def u32_of_int_def signed_of_int signed_take_bit_int_eq_self)
  define r where "r = (if k = 0 \<or> k > app_cpus_arch st then app_cpus_arch st else k)"
  have req: "region_request st k shm = aff_shm_set_cpus_requested shm (u32_of_int r)"
    by (simp add: region_request_def r_def)
  have r: "s32_of_u32 (u32_of_int r) = r" "r \<le> app_cpus_arch st"
    using assms(1-3) by (auto simp: r_def intro!: conv)
  note acc = shm_accessors shm_offsets uint32_same ul_same shm_other
  show ?thesis
    using r conv [OF assms(4,5)]
    by (simp add: affhook_region_notify_def req region_adopt_def Let_def shm_view_def acc)
qed

theorem region_notify_adopts_witness:
  "\<exists>shm'. affhook_region_notify \<lparr>app_id = 1000, fd_wr = 5, fd_rd = 4, app_cpus_arch = 6, myhandle = 7\<rparr> True True 9
     (\<lambda>_ shm. aff_shm_set_cpus_assigned shm (u32_of_int 2)) (\<lambda>_. 0) = Inr (2, shm')"
  using region_notify_adopts [of "\<lparr>app_id = 1000, fd_wr = 5, fd_rd = 4, app_cpus_arch = 6, myhandle = 7\<rparr>" 9 2 True True "\<lambda>_. 0"]
  by (auto split: sum.splits)

end
