(* ===== verification/PrfCnt.thy ===== *)
theory PrfCnt
  imports Prelude
begin

text \<open>
  The per-core performance counters, \<open>src/prfcnt/prfcnt_common.h\<close>, \<open>prfcntr_xeon.h\<close>,
  \<open>prfcntr_xeon_types.h\<close> and \<open>prfcntr_xeon_events.h\<close>. The machine is its model specific
  registers (one bank per core, reached through \<open>/dev/cpu/N/msr\<close>) and the configuration
  space of its memory controller channels; which registers can be accessed is part of it,
  since a failed access ends the process. Between two accesses the hardware may change the
  registers, which is the environment's business.
\<close>

section \<open>Devices\<close>

record machine =
  msr :: "nat \<Rightarrow> nat \<Rightarrow> u64"
  msr_ok :: "nat \<Rightarrow> nat \<Rightarrow> bool"
  pci :: "nat \<Rightarrow> nat \<Rightarrow> u32"

definition prfcnt_rdmsr :: "nat \<Rightarrow> nat \<Rightarrow> machine \<Rightarrow> u64 res" where
  "prfcnt_rdmsr cpu reg m = (if msr_ok m cpu reg then Inr (msr m cpu reg) else Inl (ExitWith 1))"

definition prfcnt_wrmsr :: "nat \<Rightarrow> nat \<Rightarrow> u64 \<Rightarrow> machine \<Rightarrow> machine res" where
  "prfcnt_wrmsr cpu reg v m =
     (if msr_ok m cpu reg then Inr (m\<lparr>msr := (msr m)(cpu := (msr m cpu)(reg := v))\<rparr>)
      else Inl (ExitWith 1))"

text \<open>A run of register writes to one core.\<close>

definition wrmsrs :: "nat \<Rightarrow> (nat \<times> u64) list \<Rightarrow> machine \<Rightarrow> machine res" where
  "wrmsrs cpu ws m = foldR (\<lambda>(reg, v). prfcnt_wrmsr cpu reg v) ws m"

definition MSR_PERF_FIXED_CTR_CTRL :: nat where "MSR_PERF_FIXED_CTR_CTRL = 0x38D"
definition MSR_PERF_FIXED_CTR0 :: nat where "MSR_PERF_FIXED_CTR0 = 0x309"
definition MSR_PERF_FIXED_CTR1 :: nat where "MSR_PERF_FIXED_CTR1 = 0x30A"
definition MSR_PERF_FIXED_CTR2 :: nat where "MSR_PERF_FIXED_CTR2 = 0x30B"
definition MSR_PERFEVTSEL0 :: nat where "MSR_PERFEVTSEL0 = 0x186"
definition MSR_PERFEVTSEL1 :: nat where "MSR_PERFEVTSEL1 = 0x187"
definition MSR_PERFEVTSEL2 :: nat where "MSR_PERFEVTSEL2 = 0x188"
definition MSR_PERFEVTSEL3 :: nat where "MSR_PERFEVTSEL3 = 0x189"
definition MSR_PMC0 :: nat where "MSR_PMC0 = 0x0C1"
definition MSR_PMC1 :: nat where "MSR_PMC1 = 0x0C2"
definition MSR_PMC2 :: nat where "MSR_PMC2 = 0x0C3"
definition MSR_PMC3 :: nat where "MSR_PMC3 = 0x0C4"
definition MSR_PERF_GLOBAL_CTRL :: nat where "MSR_PERF_GLOBAL_CTRL = 0x38F"
definition MSR_PERF_GLOBAL_STATUS :: nat where "MSR_PERF_GLOBAL_STATUS = 0x38E"
definition MSR_PERF_GLOBAL_OVF_CTRL :: nat where "MSR_PERF_GLOBAL_OVF_CTRL = 0x390"
definition MSR_PEBS_ENABLE :: nat where "MSR_PEBS_ENABLE = 0x3F1"
definition MSR_OFFCORE_RSP0 :: nat where "MSR_OFFCORE_RSP0 = 0x1A6"
definition MSR_OFFCORE_RSP1 :: nat where "MSR_OFFCORE_RSP1 = 0x1A7"
definition IA32_QM_CTR :: nat where "IA32_QM_CTR = 0xC8E"
definition MSR_IA32_THERM_STATUS :: nat where "MSR_IA32_THERM_STATUS = 0x19C"
definition MSR_IA32_PACKAGE_THERM_STATUS :: nat where "MSR_IA32_PACKAGE_THERM_STATUS = 0x1B1"

lemmas msr_addrs = MSR_PERF_FIXED_CTR_CTRL_def MSR_PERF_FIXED_CTR0_def MSR_PERF_FIXED_CTR1_def
  MSR_PERF_FIXED_CTR2_def MSR_PERFEVTSEL0_def MSR_PERFEVTSEL1_def MSR_PERFEVTSEL2_def
  MSR_PERFEVTSEL3_def MSR_PMC0_def MSR_PMC1_def MSR_PMC2_def MSR_PMC3_def
  MSR_PERF_GLOBAL_CTRL_def MSR_PERF_GLOBAL_STATUS_def MSR_PERF_GLOBAL_OVF_CTRL_def
  MSR_PEBS_ENABLE_def MSR_OFFCORE_RSP0_def MSR_OFFCORE_RSP1_def IA32_QM_CTR_def
  MSR_IA32_THERM_STATUS_def MSR_IA32_PACKAGE_THERM_STATUS_def

section \<open>Counters and events\<close>

datatype counter_type = PMC | FIXED

record counter =
  ctype :: counter_type
  cinit :: bool
  configRegister :: nat
  counterRegister :: nat
  counterData :: u64

record prfcnt_event =
  evnt :: u64
  umask :: u64
  cfgBits :: u64
  cmask :: u64
  off_mask :: u64
  etype :: counter_type

record prfcnt_t =
  L3COMetricAvailable :: bool
  DTSAvailable :: bool
  PLTAvailable :: bool
  L3Occupancy :: u64
  DTSValue :: u64
  PLTValue :: u64
  cpu :: nat
  flags :: u64
  events_nr :: nat
  counters :: "counter list"

text \<open>The programmable events by their number, and the selection: seven entries, the first
  three the fixed counters (numbers from \<open>FIXED_EVENTS_OFFSET\<close> = 7 on).\<close>

definition FIXED_EVENTS_OFFSET :: int where "FIXED_EVENTS_OFFSET = 7"

definition core_event :: "u64 \<Rightarrow> u64 \<Rightarrow> u64 \<Rightarrow> prfcnt_event" where
  "core_event e u off = \<lparr>evnt = e, umask = u, cfgBits = 0, cmask = 0, off_mask = off, etype = PMC\<rparr>"

definition evnts :: "prfcnt_event list" where
  "evnts = [core_event 0x3c 0x00 0, core_event 0xc0 0x00 0, core_event 0x2e 0x4f 0,
            core_event 0x2e 0x41 0, core_event 0x51 0x01 0, core_event 0xF1 0x07 0,
            core_event 0xB7 0x01 0x800101b3]"

definition evnts_selected :: "int list" where
  "evnts_selected = [7, 8, 9, 3, 4, 5, 6]"

definition counter_of :: "nat \<Rightarrow> nat \<Rightarrow> counter_type \<Rightarrow> bool \<Rightarrow> counter" where
  "counter_of cfg ctr t i = \<lparr>ctype = t, cinit = i, configRegister = cfg, counterRegister = ctr,
                              counterData = 0\<rparr>"

text \<open>\<open>monitor_init\<close>: the layout of the counters, then the registers of the core.\<close>

definition monitor_counters :: "counter list" where
  "monitor_counters =
     [counter_of MSR_PERF_FIXED_CTR_CTRL MSR_PERF_FIXED_CTR0 FIXED True,
      counter_of MSR_PERF_FIXED_CTR_CTRL MSR_PERF_FIXED_CTR1 FIXED True,
      counter_of MSR_PERF_FIXED_CTR_CTRL MSR_PERF_FIXED_CTR2 FIXED True,
      counter_of MSR_PERFEVTSEL0 MSR_PMC0 PMC False,
      counter_of MSR_PERFEVTSEL1 MSR_PMC1 PMC False,
      counter_of MSR_PERFEVTSEL2 MSR_PMC2 PMC False,
      counter_of MSR_PERFEVTSEL3 MSR_PMC3 PMC False]"

definition monitor_zeroed :: "nat list" where
  "monitor_zeroed =
     [MSR_PERF_FIXED_CTR_CTRL, MSR_PERFEVTSEL0, MSR_PERFEVTSEL1, MSR_PERFEVTSEL2, MSR_PERFEVTSEL3,
      MSR_PMC0, MSR_PMC1, MSR_PMC2, MSR_PMC3, MSR_PERF_FIXED_CTR0, MSR_PERF_FIXED_CTR1,
      MSR_PERF_FIXED_CTR2, MSR_PERF_GLOBAL_CTRL, MSR_PERF_GLOBAL_OVF_CTRL, MSR_PEBS_ENABLE,
      MSR_OFFCORE_RSP0, MSR_OFFCORE_RSP1]"

definition monitor_flags :: u64 where
  "monitor_flags = (push_bit 22 1) OR (push_bit 16 3)"

definition monitor_init :: "prfcnt_t \<Rightarrow> machine \<Rightarrow> (prfcnt_t \<times> machine) res" where
  "monitor_init handle m =
     bindR (wrmsrs (cpu handle) (map (\<lambda>r. (r, 0)) monitor_zeroed) m) (\<lambda>m.
     bindR (wrmsrs (cpu handle)
              [(MSR_PERF_FIXED_CTR_CTRL, 0x333), (MSR_PERFEVTSEL0, monitor_flags),
               (MSR_PERFEVTSEL1, monitor_flags), (MSR_PERFEVTSEL2, monitor_flags),
               (MSR_PERFEVTSEL3, monitor_flags)] m) (\<lambda>m.
     Inr (handle\<lparr>counters := monitor_counters\<rparr>, m)))"

text \<open>The bit fields of the off-core response mask (\<open>struct off_rsp\<close>), from the lowest bit on, with their
  widths; the position of a field is the sum of the widths before it.\<close>

definition off_rsp :: "(string \<times> nat) list" where
  "off_rsp =
     [(''dmnd_data_rd'', 1), (''dmnd_rfo'', 1), (''dmnd_ifetch'', 1), (''corewb'', 1),
      (''pf_data_rd'', 1), (''pf_rfo'', 1), (''pf_ifetch'', 1), (''pf_l3_data_rd'', 1),
      (''pf_l3_rfo'', 1), (''pf_l3_code_rd'', 1), (''split_lock_uc_lock'', 1), (''strm_st'', 1),
      (''reserved'', 3), (''other'', 1), (''any'', 1), (''no_supp'', 1), (''l3_hitm'', 1),
      (''l3_hite'', 1), (''l3_hits'', 1), (''l3_hitf'', 1), (''local'', 1), (''reserved2'', 4),
      (''l3_miss_remote_hop0'', 1), (''l3_miss_remote_hop1'', 1), (''l3_miss_remote_hop2p'', 1),
      (''reserved3'', 1), (''snp_none'', 1), (''snp_not_needed'', 1), (''snp_miss'', 1),
      (''snp_no_fwd'', 1), (''snp_fwd'', 1), (''hitm'', 1), (''non_dram'', 1), (''reserved4'', 26)]"

fun bit_position :: "(string \<times> nat) list \<Rightarrow> string \<Rightarrow> nat" where
  "bit_position [] n = 0"
| "bit_position ((f, w) # fs) n = (if f = n then 0 else w + bit_position fs n)"

text \<open>The fields that \<open>prfcnt_init\<close> assigns, in its order.\<close>

definition off_assigned :: "(string \<times> bool) list" where
  "off_assigned =
     [(''dmnd_data_rd'', True), (''dmnd_rfo'', True), (''dmnd_ifetch'', False),
      (''corewb'', False), (''pf_data_rd'', True), (''pf_rfo'', True), (''pf_ifetch'', False),
      (''pf_l3_data_rd'', True), (''pf_l3_rfo'', True), (''pf_l3_code_rd'', False),
      (''split_lock_uc_lock'', False), (''strm_st'', False), (''other'', False),
      (''any'', False), (''no_supp'', False), (''l3_hitm'', False), (''l3_hite'', False),
      (''l3_hits'', False), (''l3_hitf'', False), (''local'', True),
      (''l3_miss_remote_hop0'', False), (''l3_miss_remote_hop1'', False),
      (''l3_miss_remote_hop2p'', False), (''snp_none'', False), (''snp_not_needed'', False),
      (''snp_miss'', True), (''snp_no_fwd'', False), (''snp_fwd'', False), (''hitm'', False),
      (''non_dram'', False)]"

definition off_fields :: "(nat \<times> bool) list" where
  "off_fields = map (\<lambda>(f, b). (bit_position off_rsp f, b)) off_assigned"

lemma off_fields_list:
  "off_fields =
     [(0, True), (1, True), (2, False), (3, False), (4, True), (5, True), (6, False), (7, True),
      (8, True), (9, False), (10, False), (11, False), (15, False), (16, False), (17, False),
      (18, False), (19, False), (20, False), (21, False), (22, True), (27, False), (28, False),
      (29, False), (31, False), (32, False), (33, True), (34, False), (35, False), (36, False),
      (37, False)]"
  by code_simp

lemma off_rsp_size: "sum_list (map snd off_rsp) = 64"
  by code_simp

definition set_field :: "nat \<times> bool \<Rightarrow> u64 \<Rightarrow> u64" where
  "set_field f v = (if snd f then v OR push_bit (fst f) 1 else v AND not (push_bit (fst f) 1))"

definition set_fields :: "(nat \<times> bool) list \<Rightarrow> u64 \<Rightarrow> u64" where
  "set_fields fs v = foldl (\<lambda>v f. set_field f v) v fs"

text \<open>The event select value: the clearing masks are 32-bit constants, so they clear the upper
  half of the register too.\<close>

definition evtsel_value :: "prfcnt_event \<Rightarrow> u64 \<Rightarrow> u64" where
  "evtsel_value event rflags =
     (let rflags = rflags AND 0xFFFF0000;
          rflags = rflags OR push_bit 8 (umask event);
          rflags = rflags OR evnt event
      in if cfgBits event \<noteq> 0
         then (rflags AND 0x0000FFFF) OR push_bit 16 (push_bit 8 (cmask event) + cfgBits event)
         else rflags)"

definition program_event :: "nat \<Rightarrow> prfcnt_event \<Rightarrow> prfcnt_t \<times> machine \<Rightarrow> (prfcnt_t \<times> machine) res" where
  "program_event i event hm = (case hm of (handle, m) \<Rightarrow>
     if etype event = PMC then
       let c = counters handle ! i in
       bindR (prfcnt_rdmsr (cpu handle) (configRegister c) m) (\<lambda>rflags.
       bindR (prfcnt_wrmsr (cpu handle) (configRegister c) (evtsel_value event rflags) m) (\<lambda>m.
       let handle = handle\<lparr>counters := (counters handle)[i := c\<lparr>cinit := True\<rparr>]\<rparr> in
       if evnt event = 0xB7 \<and> umask event = 0x01 then
         bindR (prfcnt_rdmsr (cpu handle) MSR_OFFCORE_RSP0 m) (\<lambda>v.
         bindR (prfcnt_wrmsr (cpu handle) MSR_OFFCORE_RSP0 (set_fields off_fields v) m) (\<lambda>m.
         Inr (handle, m)))
       else if evnt event = 0xBB \<and> umask event = 0x01 then
         bindR (prfcnt_wrmsr (cpu handle) MSR_OFFCORE_RSP1 (off_mask event) m) (\<lambda>m. Inr (handle, m))
       else Inr (handle, m)))
     else Inr (handle, m))"

definition select_event :: "nat \<Rightarrow> prfcnt_t \<times> machine \<Rightarrow> (prfcnt_t \<times> machine) res" where
  "select_event i hm =
     (let e = evnts_selected ! i in
      if e < 0 then Inr hm
      else if FIXED_EVENTS_OFFSET \<le> e then Inr hm
      else program_event i (evnts ! nat e) hm)"

definition prfcnt_init :: "prfcnt_t \<Rightarrow> nat \<Rightarrow> u64 \<Rightarrow> machine \<Rightarrow> (prfcnt_t \<times> machine) res" where
  "prfcnt_init handle c fl m =
     (let handle = handle\<lparr>cpu := c, flags := fl, events_nr := length evnts_selected\<rparr>;
          handle = (if L3COMetricAvailable handle then handle\<lparr>L3Occupancy := 0\<rparr> else handle);
          handle = (if DTSAvailable handle then handle\<lparr>DTSValue := 0\<rparr> else handle);
          handle = (if PLTAvailable handle then handle\<lparr>PLTValue := 0\<rparr> else handle)
      in bindR (monitor_init handle m) (\<lambda>hm.
         foldR select_event [0..<length evnts_selected] hm))"

definition enable_bits :: u64 where "enable_bits = 0x000000070000000F"

definition prfcnt_start :: "prfcnt_t \<Rightarrow> machine \<Rightarrow> machine res" where
  "prfcnt_start handle m =
     bindR (prfcnt_rdmsr (cpu handle) MSR_PERF_GLOBAL_CTRL m) (\<lambda>fl.
     prfcnt_wrmsr (cpu handle) MSR_PERF_GLOBAL_CTRL (fl OR 0x000000070000000F) m)"

text \<open>The answer's first component is the global \<open>overf\<close>.\<close>

definition prfcnt_pause :: "prfcnt_t \<Rightarrow> machine \<Rightarrow> (bool \<times> machine) res" where
  "prfcnt_pause handle m =
     bindR (prfcnt_rdmsr (cpu handle) MSR_PERF_GLOBAL_CTRL m) (\<lambda>fl.
     bindR (prfcnt_wrmsr (cpu handle) MSR_PERF_GLOBAL_CTRL (fl AND 0xFFFFFFF8FFFFFFF0) m) (\<lambda>m.
     bindR (prfcnt_rdmsr (cpu handle) MSR_PERF_GLOBAL_STATUS m) (\<lambda>st.
     Inr (st AND 0xf \<noteq> 0, m))))"

definition read_counter :: "machine \<Rightarrow> nat \<Rightarrow> prfcnt_t \<Rightarrow> prfcnt_t res" where
  "read_counter m i handle =
     (let c = counters handle ! i in
      bindR (prfcnt_rdmsr (cpu handle) (counterRegister c) m) (\<lambda>data.
      Inr (handle\<lparr>counters := (counters handle)[i := c\<lparr>counterData := data\<rparr>]\<rparr>)))"

text \<open>The occupancy value is kept when the two top bits of the register are clear; the digital
  thermometer when the register is valid: the mask \<open>1<<31\<close> is a negative \<open>int\<close>, so that any of
  the upper 33 bits counts as the valid bit.\<close>

definition prfcnt_read_cnts_rdmsr :: "prfcnt_t \<Rightarrow> machine \<Rightarrow> prfcnt_t res" where
  "prfcnt_read_cnts_rdmsr handle m =
     bindR (foldR (read_counter m) [0..<events_nr handle] handle) (\<lambda>handle.
     bindR (if L3COMetricAvailable handle then
              bindR (prfcnt_rdmsr (cpu handle) IA32_QM_CTR m) (\<lambda>data.
              if drop_bit 63 data AND 1 \<noteq> 0 then Inr handle
              else if drop_bit 62 data AND 1 \<noteq> 0 then Inr handle
              else Inr (handle\<lparr>L3Occupancy := drop_bit 2 (push_bit 2 data)\<rparr>))
            else Inr handle) (\<lambda>handle.
     bindR (if DTSAvailable handle then
              bindR (prfcnt_rdmsr (cpu handle) MSR_IA32_THERM_STATUS m) (\<lambda>data.
              if data AND 0xFFFFFFFF80000000 \<noteq> 0
              then Inr (handle\<lparr>DTSValue := drop_bit 16 data AND 0x7f\<rparr>)
              else Inr handle)
            else Inr handle) (\<lambda>handle.
     if PLTAvailable handle then
       bindR (prfcnt_rdmsr (cpu handle) MSR_IA32_PACKAGE_THERM_STATUS m) (\<lambda>data.
       Inr (handle\<lparr>PLTValue := drop_bit 16 data AND 0x7f\<rparr>))
     else Inr handle)))"

definition prfcnt_readstats_rdmsr :: "prfcnt_t \<Rightarrow> u64 list" where
  "prfcnt_readstats_rdmsr handle = map (\<lambda>i. counterData (counters handle ! i)) [0..<events_nr handle]"

definition prfcnt_zerocounters :: "prfcnt_t \<Rightarrow> machine \<Rightarrow> machine res" where
  "prfcnt_zerocounters handle m =
     wrmsrs (cpu handle) (map (\<lambda>i. (counterRegister (counters handle ! i), 0)) [0..<events_nr handle]) m"

section \<open>Facts\<close>

definition all_ok :: "machine \<Rightarrow> bool" where
  "all_ok m \<longleftrightarrow> (\<forall>c r. msr_ok m c r)"

lemma rdmsr_ok: "all_ok m \<Longrightarrow> prfcnt_rdmsr c r m = Inr (msr m c r)"
  by (simp add: all_ok_def prfcnt_rdmsr_def)

lemma wrmsr_ok: "all_ok m \<Longrightarrow> prfcnt_wrmsr c r v m = Inr (m\<lparr>msr := (msr m)(c := (msr m c)(r := v))\<rparr>)"
  by (simp add: all_ok_def prfcnt_wrmsr_def)

lemma all_ok_upd [simp]: "all_ok (m\<lparr>msr := f\<rparr>) = all_ok m"
  by (simp add: all_ok_def)

lemma wrmsrs_ok:
  "all_ok m \<Longrightarrow> wrmsrs c ws m = Inr (m\<lparr>msr := (msr m)(c := foldl (\<lambda>f (r, v). f(r := v)) (msr m c) ws)\<rparr>)"
proof (induction ws arbitrary: m)
  case Nil
  then show ?case by (simp add: wrmsrs_def)
next
  case (Cons w ws)
  obtain r v where w: "w = (r, v)" by fastforce
  let ?m = "m\<lparr>msr := (msr m)(c := (msr m c)(r := v))\<rparr>"
  have "wrmsrs c (w # ws) m = wrmsrs c ws ?m"
    using Cons.prems w by (simp add: wrmsrs_def wrmsr_ok)
  with Cons.IH [of ?m] Cons.prems w show ?case
    by (simp del: fun_upd_apply add: fun_upd_same)
qed

lemma bindR_if: "bindR (if b then x else y) f = (if b then bindR x f else bindR y f)"
  by simp

text \<open>The layout that \<open>prfcnt_init\<close> establishes: seven counters with distinct registers.\<close>

definition handle_ready :: "prfcnt_t \<Rightarrow> bool" where
  "handle_ready handle \<longleftrightarrow> events_nr handle = 7 \<and> length (counters handle) = 7
     \<and> map counterRegister (counters handle) = map counterRegister monitor_counters"

lemma read_counters_ok:
  assumes "all_ok m"
  shows "n \<le> length (counters handle) \<Longrightarrow>
    foldR (read_counter m) [0..<n] handle = Inr (handle\<lparr>counters :=
      map (\<lambda>c. c\<lparr>counterData := msr m (cpu handle) (counterRegister c)\<rparr>) (take n (counters handle))
        @ drop n (counters handle)\<rparr>)"
proof (induction n)
  case 0
  then show ?case by simp
next
  case (Suc n)
  let ?rd = "\<lambda>c. c\<lparr>counterData := msr m (cpu handle) (counterRegister c)\<rparr>"
  have n: "n < length (counters handle)"
    using Suc.prems by simp
  let ?cs = "map ?rd (take n (counters handle)) @ drop n (counters handle)"
  have nth: "?cs ! n = counters handle ! n"
    using n by (simp add: nth_append)
  have upd: "?cs[n := ?rd (counters handle ! n)]
      = map ?rd (take (Suc n) (counters handle)) @ drop (Suc n) (counters handle)"
    by (rule nth_equalityI) (use n in \<open>auto simp: nth_list_update nth_append min_def less_Suc_eq\<close>)
  have step: "foldR (read_counter m) [0..<Suc n] handle = read_counter m n (handle\<lparr>counters := ?cs\<rparr>)"
    using Suc n by (simp add: foldR_append bindR_def split: sum.splits)
  show ?case
    unfolding step using nth upd by (simp add: read_counter_def rdmsr_ok [OF assms] Let_def)
qed

definition plain_handle :: prfcnt_t where
  "plain_handle = \<lparr>L3COMetricAvailable = False, DTSAvailable = False, PLTAvailable = False,
     L3Occupancy = 0, DTSValue = 0, PLTValue = 0, cpu = 0, flags = 0, events_nr = 0, counters = []\<rparr>"

definition plain_machine :: machine where
  "plain_machine = \<lparr>msr = (\<lambda>_ _. 0), msr_ok = (\<lambda>_ _. True), pci = (\<lambda>_ _. 0)\<rparr>"

lemma plain_machine_ok: "all_ok plain_machine"
  by (simp add: all_ok_def plain_machine_def)

lemma program_event_ok:
  assumes "all_ok m" and "etype e = PMC" and "evnt e \<noteq> 0xBB"
  shows "program_event i e (handle, m) = Inr
    (handle\<lparr>counters := (counters handle)[i := (counters handle ! i)\<lparr>cinit := True\<rparr>]\<rparr>,
     let c = cpu handle; r = configRegister (counters handle ! i);
         f = (msr m c)(r := evtsel_value e (msr m c r))
     in m\<lparr>msr := (msr m)(c := if evnt e = 0xB7 \<and> umask e = 1
          then f(MSR_OFFCORE_RSP0 := set_fields off_fields (f MSR_OFFCORE_RSP0)) else f)\<rparr>)"
  using assms by (simp add: program_event_def rdmsr_ok wrmsr_ok Let_def)

text \<open>What the registers of the core hold after the initialisation.\<close>

definition programmed :: "(nat \<times> u64) list" where
  "programmed =
     [(MSR_PERF_FIXED_CTR_CTRL, 0x333), (MSR_PERFEVTSEL0, 0x43412E), (MSR_PERFEVTSEL1, 0x430151),
      (MSR_PERFEVTSEL2, 0x4307F1), (MSR_PERFEVTSEL3, 0x4301B7), (MSR_OFFCORE_RSP0, 0x2004001b3),
      (MSR_PMC0, 0), (MSR_PMC1, 0), (MSR_PMC2, 0), (MSR_PMC3, 0), (MSR_PERF_FIXED_CTR0, 0),
      (MSR_PERF_FIXED_CTR1, 0), (MSR_PERF_FIXED_CTR2, 0), (MSR_PERF_GLOBAL_CTRL, 0),
      (MSR_PERF_GLOBAL_OVF_CTRL, 0), (MSR_PEBS_ENABLE, 0), (MSR_OFFCORE_RSP1, 0)]"

lemma selected_values:
  "evtsel_value (evnts ! 3) monitor_flags = 0x43412E"
  "evtsel_value (evnts ! 4) monitor_flags = 0x430151"
  "evtsel_value (evnts ! 5) monitor_flags = 0x4307F1"
  "evtsel_value (evnts ! 6) monitor_flags = 0x4301B7"
  by (simp_all add: evtsel_value_def evnts_def core_event_def monitor_flags_def Let_def)

lemma selected_events:
  "etype (evnts ! 3) = PMC" "etype (evnts ! 4) = PMC" "etype (evnts ! 5) = PMC" "etype (evnts ! 6) = PMC"
  "evnt (evnts ! 3) = 0x2e" "evnt (evnts ! 4) = 0x51" "evnt (evnts ! 5) = 0xF1" "evnt (evnts ! 6) = 0xB7"
  "umask (evnts ! 6) = 1"
  by (simp_all add: evnts_def core_event_def)

lemma off_fields_zero: "set_fields off_fields 0 = 0x2004001b3"
  by (simp add: set_fields_def off_fields_list set_field_def)

text \<open>The registers after \<open>monitor_init\<close>, before the events are selected.\<close>

definition monitored :: "(nat \<Rightarrow> u64) \<Rightarrow> nat \<Rightarrow> u64" where
  "monitored f = foldl (\<lambda>f (r, v). f(r := v)) f
     (map (\<lambda>r. (r, 0)) monitor_zeroed @
      [(MSR_PERF_FIXED_CTR_CTRL, 0x333), (MSR_PERFEVTSEL0, monitor_flags),
       (MSR_PERFEVTSEL1, monitor_flags), (MSR_PERFEVTSEL2, monitor_flags),
       (MSR_PERFEVTSEL3, monitor_flags)])"

lemma monitor_init_ok:
  assumes "all_ok m"
  shows "monitor_init handle m = Inr (handle\<lparr>counters := monitor_counters\<rparr>,
    m\<lparr>msr := (msr m)(cpu handle := monitored (msr m (cpu handle)))\<rparr>)"
  using assms by (simp add: monitor_init_def wrmsrs_ok monitored_def)

lemma monitored_values:
  "monitored f MSR_PERFEVTSEL0 = monitor_flags" "monitored f MSR_PERFEVTSEL1 = monitor_flags"
  "monitored f MSR_PERFEVTSEL2 = monitor_flags" "monitored f MSR_PERFEVTSEL3 = monitor_flags"
  "monitored f MSR_OFFCORE_RSP0 = 0"
  by (simp_all add: monitored_def monitor_zeroed_def msr_addrs)

definition selected :: "(nat \<Rightarrow> u64) \<Rightarrow> nat \<Rightarrow> u64" where
  "selected f = (monitored f)(MSR_PERFEVTSEL0 := 0x43412E, MSR_PERFEVTSEL1 := 0x430151,
     MSR_PERFEVTSEL2 := 0x4307F1, MSR_PERFEVTSEL3 := 0x4301B7, MSR_OFFCORE_RSP0 := 0x2004001b3)"

lemma prfcnt_init_result:
  assumes "all_ok m"
  shows "\<exists>handle'. prfcnt_init handle c fl m = Inr (handle', m\<lparr>msr := (msr m)(c := selected (msr m c))\<rparr>)
    \<and> handle_ready handle' \<and> cpu handle' = c
    \<and> L3COMetricAvailable handle' = L3COMetricAvailable handle
    \<and> DTSAvailable handle' = DTSAvailable handle \<and> PLTAvailable handle' = PLTAvailable handle
    \<and> (\<forall>c \<in> set (counters handle'). cinit c)"
proof -
  have nums: "[0..<length evnts_selected] = [0, 1, 2, 3, 4, 5, 6]"
    by (simp add: evnts_selected_def upt_rec)
  have sel: "select_event 0 hm = Inr hm" "select_event (Suc 0) hm = Inr hm" "select_event 2 hm = Inr hm"
    "select_event 3 hm = program_event 3 (evnts ! 3) hm" "select_event 4 hm = program_event 4 (evnts ! 4) hm"
    "select_event 5 hm = program_event 5 (evnts ! 5) hm" "select_event 6 hm = program_event 6 (evnts ! 6) hm" for hm
    by (simp_all add: select_event_def evnts_selected_def FIXED_EVENTS_OFFSET_def)
  define h where "h = (let handle = handle\<lparr>cpu := c, flags := fl, events_nr := length evnts_selected\<rparr>;
          handle = (if L3COMetricAvailable handle then handle\<lparr>L3Occupancy := 0\<rparr> else handle);
          handle = (if DTSAvailable handle then handle\<lparr>DTSValue := 0\<rparr> else handle)
          in (if PLTAvailable handle then handle\<lparr>PLTValue := 0\<rparr> else handle))"
  have h: "cpu h = c" "events_nr h = 7" "L3COMetricAvailable h = L3COMetricAvailable handle"
    "DTSAvailable h = DTSAvailable handle" "PLTAvailable h = PLTAvailable handle"
    by (simp_all add: h_def Let_def evnts_selected_def)
  have ne: "MSR_PERFEVTSEL0 \<noteq> MSR_PERFEVTSEL1" "MSR_PERFEVTSEL0 \<noteq> MSR_PERFEVTSEL2"
    "MSR_PERFEVTSEL0 \<noteq> MSR_PERFEVTSEL3" "MSR_PERFEVTSEL1 \<noteq> MSR_PERFEVTSEL2"
    "MSR_PERFEVTSEL1 \<noteq> MSR_PERFEVTSEL3" "MSR_PERFEVTSEL2 \<noteq> MSR_PERFEVTSEL3"
    "MSR_OFFCORE_RSP0 \<notin> {MSR_PERFEVTSEL0, MSR_PERFEVTSEL1, MSR_PERFEVTSEL2, MSR_PERFEVTSEL3}"
    by (simp_all add: msr_addrs)
  have "prfcnt_init handle c fl m = bindR (monitor_init h m) (\<lambda>hm. foldR select_event [0..<length evnts_selected] hm)"
    by (simp add: prfcnt_init_def h_def Let_def)
  also have "\<dots> = foldR select_event [3, 4, 5, 6] (h\<lparr>counters := monitor_counters\<rparr>,
      m\<lparr>msr := (msr m)(c := monitored (msr m c))\<rparr>)"
    using monitor_init_ok [OF assms, of h] by (simp add: nums sel h)
  finally have run: "prfcnt_init handle c fl m = foldR select_event [3, 4, 5, 6]
      (h\<lparr>counters := monitor_counters\<rparr>, m\<lparr>msr := (msr m)(c := monitored (msr m c))\<rparr>)" .
  let ?cs = "map (\<lambda>x. x\<lparr>cinit := True\<rparr>) monitor_counters"
  have "foldR select_event [3, 4, 5, 6] (h\<lparr>counters := monitor_counters\<rparr>,
      m\<lparr>msr := (msr m)(c := monitored (msr m c))\<rparr>)
    = Inr (h\<lparr>counters := ?cs\<rparr>, m\<lparr>msr := (msr m)(c := selected (msr m c))\<rparr>)"
    using assms ne
    by (simp add: sel program_event_ok selected_events h Let_def monitor_counters_def counter_of_def
        selected_values monitored_values off_fields_zero selected_def)
  then show ?thesis
    using run h by (simp add: handle_ready_def monitor_counters_def counter_of_def)
qed

lemma read_cnts_ok:
  assumes "all_ok m" and "handle_ready handle"
  shows "\<exists>handle'. prfcnt_read_cnts_rdmsr handle m = Inr handle' \<and> handle_ready handle'
    \<and> cpu handle' = cpu handle
    \<and> prfcnt_readstats_rdmsr handle' = map (\<lambda>c. msr m (cpu handle) (counterRegister c)) monitor_counters"
proof -
  let ?rd = "\<lambda>c. c\<lparr>counterData := msr m (cpu handle) (counterRegister c)\<rparr>"
  define h where "h = handle\<lparr>counters := map ?rd (counters handle)\<rparr>"
  have len: "length (counters handle) = 7" "events_nr handle = 7"
    and regs: "map counterRegister (counters handle) = map counterRegister monitor_counters"
    using assms(2) by (auto simp: handle_ready_def)
  have rd: "foldR (read_counter m) [0..<events_nr handle] handle = Inr h"
    using read_counters_ok [OF assms(1), of 7 handle] len by (simp add: h_def)
  have h: "handle_ready h" "cpu h = cpu handle"
    using regs len by (simp_all add: handle_ready_def h_def comp_def)
  have keep: "handle_ready (h\<lparr>L3Occupancy := x\<rparr>) = handle_ready h"
    "handle_ready (h'\<lparr>DTSValue := y\<rparr>) = handle_ready h'" "handle_ready (h'\<lparr>PLTValue := z\<rparr>) = handle_ready h'"
    for x y z and h' :: prfcnt_t
    by (simp_all add: handle_ready_def)
  have rd_ok: "prfcnt_rdmsr c r m = Inr (msr m c r)" for c r
    by (rule rdmsr_ok [OF assms(1)])
  have avail: "L3COMetricAvailable h = L3COMetricAvailable handle"
    "DTSAvailable h = DTSAvailable handle" "PLTAvailable h = PLTAvailable handle"
    by (simp_all add: h_def)
  have "\<exists>h2. prfcnt_read_cnts_rdmsr handle m = Inr h2 \<and> handle_ready h2 \<and> cpu h2 = cpu handle
    \<and> counters h2 = counters h \<and> events_nr h2 = events_nr h"
    using h
    by (cases "L3COMetricAvailable handle"; cases "DTSAvailable handle"; cases "PLTAvailable handle")
      (simp_all add: prfcnt_read_cnts_rdmsr_def rd rd_ok avail keep)
  then obtain h2 where h2: "prfcnt_read_cnts_rdmsr handle m = Inr h2" "handle_ready h2" "cpu h2 = cpu handle"
    "counters h2 = counters h" "events_nr h2 = events_nr h"
    by blast
  have "prfcnt_readstats_rdmsr h2 = map counterData (counters h)"
    using h2(4,5) h(1) by (simp add: prfcnt_readstats_rdmsr_def handle_ready_def map_upt_nth)
  also have "\<dots> = map (\<lambda>r. msr m (cpu handle) r) (map counterRegister (counters handle))"
    by (simp add: h_def comp_def)
  finally show ?thesis
    using h2 unfolding regs by (auto simp: comp_def)
qed

lemma zero_ok:
  assumes "all_ok m" and "handle_ready handle"
  shows "\<exists>m'. prfcnt_zerocounters handle m = Inr m' \<and> all_ok m'
    \<and> (\<forall>c \<in> set monitor_counters. msr m' (cpu handle) (counterRegister c) = 0)
    \<and> (\<forall>c r. c \<noteq> cpu handle \<or> r \<notin> counterRegister ` set monitor_counters \<longrightarrow> msr m' c r = msr m c r)"
proof -
  have idx: "map (\<lambda>i. counterRegister (counters handle ! i)) [0..<events_nr handle]
      = map counterRegister (counters handle)"
    by (rule map_upt_nth) (use assms(2) in \<open>simp add: handle_ready_def\<close>)
  have "map (\<lambda>i. (counterRegister (counters handle ! i), 0 :: u64)) [0..<events_nr handle]
      = map (\<lambda>r. (r, 0)) (map (\<lambda>i. counterRegister (counters handle ! i)) [0..<events_nr handle])"
    by simp
  also have "\<dots> = map (\<lambda>r. (r, 0)) (map counterRegister monitor_counters)"
    unfolding idx using assms(2) by (simp add: handle_ready_def)
  finally have ws: "map (\<lambda>i. (counterRegister (counters handle ! i), 0 :: u64)) [0..<events_nr handle]
      = map (\<lambda>r. (r, 0)) (map counterRegister monitor_counters)" .
  have f: "foldl (\<lambda>f (r, v). f(r := v)) f (map (\<lambda>r. (r, 0 :: u64)) rs) r = (if r \<in> set rs then 0 else f r)"
    for f r and rs :: "nat list"
    by (induction rs arbitrary: f) auto
  show ?thesis
    using assms(1) by (auto simp: prfcnt_zerocounters_def ws wrmsrs_ok f simp del: map_map)
qed

section \<open>Properties\<close>

text \<open>C21: The initialisation of a core programs it as the event tables ask, whatever the
  registers held before: the four general counters count last-level cache misses, L1D
  replacements, L2 lines in and off-core reads (with the user and the kernel bit set and
  enabled), the off-core mask selects the demand and prefetch reads that the code names, the
  fixed counters are configured, everything is stopped and zero; other cores and the memory
  controllers are not touched, and all seven counters are marked as initialised.\<close>

theorem prfcnt_init_programs:
  assumes "all_ok m"
  shows "\<exists>handle' m'. prfcnt_init handle c fl m = Inr (handle', m') \<and> handle_ready handle'
    \<and> (\<forall>(r, v) \<in> set programmed. msr m' c r = v)
    \<and> (\<forall>c' r. c' \<noteq> c \<or> r \<notin> fst ` set programmed \<longrightarrow> msr m' c' r = msr m c' r)
    \<and> pci m' = pci m \<and> (\<forall>c \<in> set (counters handle'). cinit c)"
proof -
  have "\<forall>(r, v) \<in> set programmed. selected f r = v" for f
    by (simp add: programmed_def selected_def monitored_def monitor_zeroed_def msr_addrs)
  moreover have "selected f r = f r" if "r \<notin> fst ` set programmed" for f r
    using that by (simp add: programmed_def selected_def monitored_def monitor_zeroed_def)
  ultimately show ?thesis
    using prfcnt_init_result [OF assms, of handle c fl] by auto
qed

theorem prfcnt_init_programs_witness:
  "\<exists>handle' m'. prfcnt_init plain_handle 3 0 plain_machine = Inr (handle', m')
     \<and> msr m' 3 MSR_PERFEVTSEL0 = 0x43412E \<and> msr m' 2 MSR_PERFEVTSEL0 = 0"
proof -
  have "(MSR_PERFEVTSEL0, 0x43412E) \<in> set programmed"
    by (simp add: programmed_def)
  with prfcnt_init_programs [OF plain_machine_ok, of plain_handle 3 0] show ?thesis
    by (fastforce simp: plain_machine_def)
qed

text \<open>C22: Stopping clears exactly the seven enable bits of the core's global control register
  and starting sets exactly these; what a paused core counted is not lost: the counter
  registers are not touched by either. The overflow flag reports the low four status bits.\<close>

theorem prfcnt_pause_start:
  assumes "all_ok m"
  shows "\<exists>ov m1 m2. prfcnt_pause handle m = Inr (ov, m1) \<and> prfcnt_start handle m1 = Inr m2
    \<and> msr m1 (cpu handle) MSR_PERF_GLOBAL_CTRL AND enable_bits = 0
    \<and> msr m2 (cpu handle) MSR_PERF_GLOBAL_CTRL = msr m (cpu handle) MSR_PERF_GLOBAL_CTRL OR enable_bits
    \<and> (\<forall>c r. c \<noteq> cpu handle \<or> r \<noteq> MSR_PERF_GLOBAL_CTRL \<longrightarrow> msr m1 c r = msr m c r \<and> msr m2 c r = msr m c r)
    \<and> (ov \<longleftrightarrow> msr m (cpu handle) MSR_PERF_GLOBAL_STATUS AND 0xf \<noteq> 0)"
proof -
  have not_enable: "(0xFFFFFFF8FFFFFFF0 :: u64) = not enable_bits"
    by (simp add: enable_bits_def)
  have 1: "(x AND not e) AND e = 0" "(x AND not e) OR e = x OR e" for x e :: u64
    by (rule bit_word_eqI, auto simp: bit_simps)+
  show ?thesis
    using assms 1 [of "msr m (cpu handle) MSR_PERF_GLOBAL_CTRL" enable_bits]
    by (simp add: prfcnt_pause_def prfcnt_start_def rdmsr_ok wrmsr_ok not_enable [symmetric])
      (simp add: enable_bits_def msr_addrs)
qed

theorem prfcnt_pause_start_witness:
  "\<exists>ov m1 m2. prfcnt_pause plain_handle plain_machine = Inr (ov, m1) \<and> prfcnt_start plain_handle m1 = Inr m2
     \<and> msr m2 0 MSR_PERF_GLOBAL_CTRL = 0x70000000F"
  using prfcnt_pause_start [OF plain_machine_ok, of plain_handle]
  by (auto simp: plain_handle_def plain_machine_def enable_bits_def)

end
