(* ===== verification/Tsc.thy ===== *)
theory Tsc
  imports Prelude
begin

text \<open>
  The tick timers of \<open>src/prfcnt/tsc.h\<close>. A timer accumulates differences of 64-bit time stamp
  readings; the reading itself (\<open>rdtsc\<close>) comes from outside as the two 32-bit halves the
  instruction leaves in the registers. Theory \<open>Mhz\<close> converts ticks to seconds.
\<close>

record tsc =
  ticks :: u64
  last_read :: u64

definition get_ticks :: "u32 \<Rightarrow> u32 \<Rightarrow> u64" where
  "get_ticks hi low = (let ret = ucast hi; ret = push_bit 32 ret in ret OR ucast low)"

definition tsc_init :: "tsc \<Rightarrow> tsc" where
  "tsc_init tsc = tsc\<lparr>ticks := 0, last_read := 0\<rparr>"

definition tsc_shut :: "tsc \<Rightarrow> tsc" where
  "tsc_shut tsc = tsc"

definition tsc_start :: "u64 \<Rightarrow> tsc \<Rightarrow> tsc" where
  "tsc_start now tsc = tsc\<lparr>last_read := now\<rparr>"

definition tsc_pause :: "u64 \<Rightarrow> tsc \<Rightarrow> tsc" where
  "tsc_pause now tsc = tsc\<lparr>ticks := ticks tsc + (now - last_read tsc)\<rparr>"

definition tsc_getticks :: "tsc \<Rightarrow> u64" where
  "tsc_getticks tsc = ticks tsc"

text \<open>The spin loop reads the counter until it has advanced far enough; \<open>reading k\<close> is the
  value of the \<open>k\<close>-th reading.\<close>

partial_function (option) spin_from :: "(nat \<Rightarrow> u64) \<Rightarrow> u64 \<Rightarrow> u64 \<Rightarrow> nat \<Rightarrow> nat option" where
  "spin_from reading t0 n k =
     (if reading k - t0 \<ge> n then Some k else spin_from reading t0 n (Suc k))"

definition tsc_spinticks :: "(nat \<Rightarrow> u64) \<Rightarrow> u64 \<Rightarrow> nat option" where
  "tsc_spinticks reading n = spin_from reading (reading 0) n 1"

text \<open>What \<open>tsc_report\<close> prints first.\<close>

definition tsc_report :: "tsc \<Rightarrow> u64" where
  "tsc_report tsc = tsc_getticks tsc"

section \<open>Facts\<close>

lemma get_ticks_unat: "unat (get_ticks hi low) = unat hi * 2 ^ 32 + unat low"
proof -
  have dis: "push_bit 32 (ucast hi :: u64) AND ucast low = 0"
    by (rule bit_word_eqI) (auto simp: bit_simps dest: bit_imp_le_length)
  have "unat hi * 2 ^ 32 + unat low < 2 ^ 64"
    using unsigned_less [of hi, where ?'a = nat] unsigned_less [of low, where ?'a = nat] by simp
  then have bound: "unat hi * 4294967296 + unat low < 18446744073709551616"
    by simp
  have "get_ticks hi low = push_bit 32 (ucast hi) + ucast low"
    unfolding get_ticks_def Let_def
    using word_plus_and_or [of "push_bit 32 (ucast hi :: u64)" "ucast low"] dis by simp
  also have "\<dots> = of_nat (unat hi * 2 ^ 32 + unat low)"
    by (simp add: push_bit_eq_mult)
  finally have "unat (get_ticks hi low) = unat (of_nat (unat hi * 2 ^ 32 + unat low) :: u64)"
    by simp
  also have "\<dots> = (unat hi * 2 ^ 32 + unat low) mod 2 ^ 64"
    by (simp only: unat_of_nat len_num1 len_num0 len_bit0 len_bit1) simp
  finally show ?thesis
    using bound by simp
qed

text \<open>A run of a timer: pairs of a start reading and a pause reading.\<close>

fun run_tsc :: "(u64 \<times> u64) list \<Rightarrow> tsc \<Rightarrow> tsc" where
  "run_tsc [] t = t"
| "run_tsc ((a, b) # rs) t = run_tsc rs (tsc_pause b (tsc_start a t))"

lemma run_tsc_ticks: "tsc_getticks (run_tsc rs t) = tsc_getticks t + (\<Sum>(a, b) \<leftarrow> rs. b - a)"
  by (induction rs t rule: run_tsc.induct) (auto simp: tsc_getticks_def tsc_pause_def tsc_start_def)

lemma spin_from_stops:
  "reading (k + d) - t0 \<ge> n \<Longrightarrow> \<exists>j. k \<le> j \<and> spin_from reading t0 n k = Some j \<and> reading j - t0 \<ge> n"
proof (induction d arbitrary: k)
  case 0
  then show ?case by (intro exI [of _ k]) (simp add: spin_from.simps)
next
  case (Suc d)
  show ?case
  proof (cases "reading k - t0 \<ge> n")
    case True
    then show ?thesis by (intro exI [of _ k]) (simp add: spin_from.simps)
  next
    case False
    from Suc.IH [of "Suc k"] Suc.prems obtain j where "Suc k \<le> j"
        "spin_from reading t0 n (Suc k) = Some j" "reading j - t0 \<ge> n"
      by auto
    with False show ?thesis
      by (intro exI [of _ j]) (simp add: spin_from.simps [of reading t0 n k])
  qed
qed

section \<open>Properties\<close>

text \<open>C31: A timer that is started and paused in turn holds the sum of the lengths of the runs,
  and every length is right even when the counter wraps around within the run: if the true
  counter advanced by \<open>n < 2^64\<close>, the timer advances by \<open>n\<close>.\<close>

theorem tsc_accumulates:
  "tsc_getticks (run_tsc rs (tsc_init t)) = (\<Sum>(a, b) \<leftarrow> rs. b - a)
   \<and> (of_nat (m + n) :: u64) - of_nat m = of_nat n"
  by (simp add: run_tsc_ticks) (simp add: tsc_getticks_def tsc_init_def)

text \<open>Pausing a timer that is already paused counts the time since its last start again:
  after two pauses the timer holds the first run twice and the gap between the pauses.\<close>

theorem tsc_pause_twice:
  "tsc_getticks (tsc_pause c (tsc_pause b (tsc_start a (tsc_init t)))) = 2 * (b - a) + (c - b)"
  by (simp add: tsc_getticks_def tsc_pause_def tsc_start_def tsc_init_def)

end
