(* ===== verification/Stats.thy ===== *)
theory Stats
  imports Complex_Main PrfCnt Tsc
begin

text \<open>
  The counters of the whole machine and the per-program statistics, \<open>src/stats.c\<close> and
  \<open>src/stats.h\<close>: the memory controller counters behind the PCI configuration space, the energy
  counters, the association of cores with monitoring identifiers, and the accumulation of the
  per-core readings into a program's record. A cpuset that is asked for its processors is the
  list of them, \<open>None\<close> when the call fails. Energy units are kept as the exponents the
  hardware reports; products with them are rational numbers instead of \<open>double\<close>s.
\<close>

section \<open>State\<close>

record mc_pci =
  mc_fd :: "nat list"
  previousMCNormalReads :: u64
  previousMCFullWrites :: u64
  UncMCNormalReads :: u64
  UncMCFullWrites :: u64

record energy_counters =
  prev_pkg :: u64
  prev_pp0 :: u64
  prev_dram :: u64
  pkg_energy :: u64
  pp0_energy :: u64
  dram_energy :: u64

record aff_counters =
  MCinfo :: mc_pci
  UpscalingFactor :: u64
  MaxRMID :: u64
  TCCActivation :: u64
  TCCOffset :: u64
  energy_shift :: nat
  energy :: energy_counters
  cpus :: "nat list"
  prfcnt :: "prfcnt_t list"

record aff_stats =
  waiting :: tsc
  total_running :: tsc
  running :: "tsc list"
  events_tmp :: "u64 list list"
  events :: "u64 list list"
  L3OccupancyMetric :: "u64 list option"
  DTSMetric :: "u64 list option"
  PLTMetric :: "u64 list option"
  st_cpu :: nat
  st_events_nr :: nat
  stats_on :: bool

section \<open>Memory controller counters\<close>

definition BOX_CTL :: nat where "BOX_CTL = 0xF4"
definition FIXED_CTL :: nat where "FIXED_CTL = 0xF0"
definition CTL0 :: nat where "CTL0 = 0xD8"
definition CTL1 :: nat where "CTL1 = 0xDC"
definition CTL2 :: nat where "CTL2 = 0xE0"
definition CTL3 :: nat where "CTL3 = 0xE4"
definition CTR0 :: nat where "CTR0 = 0xA0"
definition CTR1 :: nat where "CTR1 = 0xA8"
definition FRZ_EN :: u32 where "FRZ_EN = push_bit 16 1"
definition FRZ :: u32 where "FRZ = push_bit 8 1"
definition RST_COUNTERS :: u32 where "RST_COUNTERS = push_bit 1 1"
definition FIXED_CTL_RST :: u32 where "FIXED_CTL_RST = push_bit 19 1"
definition CTL_EN :: u32 where "CTL_EN = push_bit 22 1"

lemmas pci_consts = BOX_CTL_def FIXED_CTL_def CTL0_def CTL1_def CTL2_def CTL3_def CTR0_def CTR1_def
  FRZ_EN_def FRZ_def RST_COUNTERS_def FIXED_CTL_RST_def CTL_EN_def

definition Pciread32 :: "nat \<Rightarrow> nat \<Rightarrow> machine \<Rightarrow> u32" where
  "Pciread32 fd offset m = pci m fd offset"

definition Pciwrite32 :: "nat \<Rightarrow> nat \<Rightarrow> u32 \<Rightarrow> machine \<Rightarrow> machine" where
  "Pciwrite32 fd offset value m = m\<lparr>pci := (pci m)(fd := (pci m fd)(offset := value))\<rparr>"

definition Pciread64 :: "nat \<Rightarrow> nat \<Rightarrow> machine \<Rightarrow> u64" where
  "Pciread64 fd offset m = ucast (pci m fd offset) OR push_bit 32 (ucast (pci m fd (offset + 4)))"

text \<open>Opening a channel: the device and function numbers give the handle; a missing device ends
  the process.\<close>

definition Pciopen :: "(nat \<times> nat \<Rightarrow> nat option) \<Rightarrow> nat \<Rightarrow> nat \<Rightarrow> nat res" where
  "Pciopen dev device func = (case dev (device, func) of Some fd \<Rightarrow> Inr fd | None \<Rightarrow> Inl (ExitWith (-1)))"

definition Pciopensocket :: "(nat \<times> nat \<Rightarrow> nat option) \<Rightarrow> mc_pci \<Rightarrow> mc_pci res" where
  "Pciopensocket dev info =
     bindR (Pciopen dev 14 0) (\<lambda>fd0. bindR (Pciopen dev 14 1) (\<lambda>fd1.
     bindR (Pciopen dev 15 0) (\<lambda>fd2. bindR (Pciopen dev 15 1) (\<lambda>fd3.
     bindR (Pciopen dev 17 0) (\<lambda>fd4. Inr (info\<lparr>mc_fd := [fd0, fd1, fd2, fd3, fd4]\<rparr>))))))"

definition program_channel :: "nat \<Rightarrow> machine \<Rightarrow> machine" where
  "program_channel fd m =
     foldl (\<lambda>m (offset, v). Pciwrite32 fd offset v m) m
       [(BOX_CTL, FRZ_EN), (BOX_CTL, FRZ_EN + FRZ),
        (FIXED_CTL, CTL_EN), (FIXED_CTL, CTL_EN + FIXED_CTL_RST),
        (CTL0, CTL_EN), (CTL0, CTL_EN + 0x304),
        (CTL1, CTL_EN), (CTL1, CTL_EN + 0xC04),
        (CTL2, CTL_EN), (CTL2, CTL_EN + 0),
        (CTL3, CTL_EN), (CTL3, CTL_EN + 0),
        (BOX_CTL, FRZ_EN + FRZ + RST_COUNTERS), (BOX_CTL, FRZ_EN)]"

definition Pciprogram :: "mc_pci \<Rightarrow> machine \<Rightarrow> machine" where
  "Pciprogram info m = foldl (\<lambda>m fd. program_channel fd m) m (mc_fd info)"

definition getImcReads :: "mc_pci \<Rightarrow> machine \<Rightarrow> u64" where
  "getImcReads handle m = foldl (\<lambda>r fd. r + Pciread64 fd CTR0 m) 0 (mc_fd handle)"

definition getImcWrites :: "mc_pci \<Rightarrow> machine \<Rightarrow> u64" where
  "getImcWrites handle m = foldl (\<lambda>r fd. r + Pciread64 fd CTR1 m) 0 (mc_fd handle)"

definition freezeCounters :: "mc_pci \<Rightarrow> machine \<Rightarrow> machine" where
  "freezeCounters handle m = foldl (\<lambda>m fd. Pciwrite32 fd BOX_CTL (FRZ_EN + FRZ) m) m (mc_fd handle)"

definition unfreezeCounters :: "mc_pci \<Rightarrow> machine \<Rightarrow> machine" where
  "unfreezeCounters handle m = foldl (\<lambda>m fd. Pciwrite32 fd BOX_CTL FRZ_EN m) m (mc_fd handle)"

definition startMCCounters :: "aff_counters \<Rightarrow> machine \<Rightarrow> aff_counters \<times> machine" where
  "startMCCounters cntrs m =
     (let mc = MCinfo cntrs;
          m = freezeCounters mc m;
          mc = mc\<lparr>previousMCNormalReads := getImcReads mc m\<rparr>;
          mc = mc\<lparr>previousMCFullWrites := getImcWrites mc m\<rparr>;
          m = unfreezeCounters mc m
      in (cntrs\<lparr>MCinfo := mc\<rparr>, m))"

definition stopMCCounters :: "aff_counters \<Rightarrow> machine \<Rightarrow> aff_counters \<times> machine" where
  "stopMCCounters cntrs m =
     (let mc = MCinfo cntrs;
          m = freezeCounters mc m;
          currentReads = getImcReads mc m;
          currentWrites = getImcWrites mc m;
          m = unfreezeCounters mc m;
          mc = mc\<lparr>UncMCNormalReads := currentReads - previousMCNormalReads mc\<rparr>;
          mc = mc\<lparr>UncMCFullWrites := currentWrites - previousMCFullWrites mc\<rparr>
      in (cntrs\<lparr>MCinfo := mc\<rparr>, m))"

section \<open>Cores\<close>

definition MSR_IA32_DISABLE_PREF :: nat where "MSR_IA32_DISABLE_PREF = 0x1A4"
definition MSR_TEMPERATURE_TARGET :: nat where "MSR_TEMPERATURE_TARGET = 0x1A2"

definition handlePrefetchers :: "aff_counters \<Rightarrow> int \<Rightarrow> machine \<Rightarrow> machine res" where
  "handlePrefetchers cntrs mode m =
     foldR (\<lambda>handle m. bindR (prfcnt_rdmsr (cpu handle) MSR_IA32_DISABLE_PREF m) (\<lambda>data.
       let data = (if mode = 1 then data AND 0xfffffffffffffff0
                   else if mode = 0 then data OR 0xf else data)
       in prfcnt_wrmsr (cpu handle) MSR_IA32_DISABLE_PREF data m)) (prfcnt cntrs) m"

definition init_core ::
  "bool \<Rightarrow> bool \<Rightarrow> bool \<Rightarrow> nat \<Rightarrow> prfcnt_t list \<times> machine \<Rightarrow> (prfcnt_t list \<times> machine) res" where
  "init_core cmt dts plt c hm = (case hm of (handles, m) \<Rightarrow>
     let handle = \<lparr>L3COMetricAvailable = cmt, DTSAvailable = dts, PLTAvailable = plt,
                   L3Occupancy = 0, DTSValue = 0, PLTValue = 0, cpu = c, flags = 0, events_nr = 0,
                   counters = []\<rparr>
     in bindR (prfcnt_init handle c 0 m) (\<lambda>(handle, m). Inr (handles @ [handle], m)))"

definition ss_aff_counters_init ::
  "(nat \<times> nat \<Rightarrow> nat option) \<Rightarrow> bool \<Rightarrow> bool \<Rightarrow> bool \<Rightarrow> nat list \<Rightarrow> machine \<Rightarrow> (aff_counters \<times> machine) res" where
  "ss_aff_counters_init dev cmt dts plt cs m =
     (if cs = [] then Inl BadAccess
      else bindR (foldR (init_core cmt dts plt) cs ([], m)) (\<lambda>(handles, m).
        bindR (prfcnt_rdmsr (cpu (hd handles)) MSR_TEMPERATURE_TARGET m) (\<lambda>data.
        let cntrs = \<lparr>MCinfo = \<lparr>mc_fd = [], previousMCNormalReads = 0, previousMCFullWrites = 0,
                       UncMCNormalReads = 0, UncMCFullWrites = 0\<rparr>,
                     UpscalingFactor = 0, MaxRMID = 0,
                     TCCActivation = drop_bit 16 data AND 0xff,
                     TCCOffset = drop_bit 24 data AND 0xf, energy_shift = 0,
                     energy = \<lparr>prev_pkg = 0, prev_pp0 = 0, prev_dram = 0, pkg_energy = 0,
                               pp0_energy = 0, dram_energy = 0\<rparr>,
                     cpus = cs, prfcnt = handles\<rparr>
        in bindR (handlePrefetchers cntrs 1 m) (\<lambda>m.
           bindR (Pciopensocket dev (MCinfo cntrs)) (\<lambda>mc.
           Inr (cntrs\<lparr>MCinfo := mc\<rparr>, Pciprogram mc m))))))"

definition pause_core :: "prfcnt_t \<Rightarrow> machine \<Rightarrow> machine res" where
  "pause_core handle m = bindR (prfcnt_pause handle m) (\<lambda>(overf, m). Inr m)"

definition cores_on :: "aff_counters \<Rightarrow> int \<Rightarrow> prfcnt_t list" where
  "cores_on cntrs c = map snd (filter (\<lambda>(k, h). int k = c) (zip (cpus cntrs) (prfcnt cntrs)))"

definition ss_aff_counter_start :: "aff_counters \<Rightarrow> int \<Rightarrow> machine \<Rightarrow> machine res" where
  "ss_aff_counter_start cntrs c m = foldR prfcnt_start (cores_on cntrs c) m"

definition ss_aff_stop_counter :: "aff_counters \<Rightarrow> int \<Rightarrow> machine \<Rightarrow> machine res" where
  "ss_aff_stop_counter cntrs c m = foldR pause_core (cores_on cntrs c) m"

definition read_core :: "machine \<Rightarrow> nat \<Rightarrow> aff_counters \<Rightarrow> aff_counters res" where
  "read_core m i cntrs = bindR (prfcnt_read_cnts_rdmsr (prfcnt cntrs ! i) m) (\<lambda>h.
     Inr (cntrs\<lparr>prfcnt := (prfcnt cntrs)[i := h]\<rparr>))"

definition ss_aff_read_counter :: "aff_counters \<Rightarrow> int \<Rightarrow> machine \<Rightarrow> aff_counters res" where
  "ss_aff_read_counter cntrs c m =
     foldR (\<lambda>i cntrs. if int (cpus cntrs ! i) = c then read_core m i cntrs else Inr cntrs)
       [0..<length (cpus cntrs)] cntrs"

definition ss_aff_counters_start :: "aff_counters \<Rightarrow> machine \<Rightarrow> machine res" where
  "ss_aff_counters_start cntrs m = foldR prfcnt_start (prfcnt cntrs) m"

definition ss_aff_stop_counters :: "aff_counters \<Rightarrow> machine \<Rightarrow> machine res" where
  "ss_aff_stop_counters cntrs m = foldR pause_core (prfcnt cntrs) m"

definition ss_aff_read_counters :: "aff_counters \<Rightarrow> machine \<Rightarrow> aff_counters res" where
  "ss_aff_read_counters cntrs m = foldR (read_core m) [0..<length (cpus cntrs)] cntrs"

definition ss_aff_zero_cntrs :: "aff_counters \<Rightarrow> machine \<Rightarrow> machine res" where
  "ss_aff_zero_cntrs cntrs m = foldR prfcnt_zerocounters (prfcnt cntrs) m"

section \<open>Statistics of a program\<close>

text \<open>Every array has one row per core, and the availability flags are those of the first core.
  \<open>malloc\<close> leaves in the fields what they have in \<open>junk\<close> and in the arrays words like those of its
  timer. The core is not initialised; the first reading of the counters sets it.\<close>

definition ss_aff_stats_alloc :: "aff_counters \<Rightarrow> aff_stats \<Rightarrow> aff_stats res" where
  "ss_aff_stats_alloc cntrs junk = (case prfcnt cntrs of [] \<Rightarrow> Inl BadAccess | h0 # _ \<Rightarrow>
     let n = length (cpus cntrs); words = replicate n (ticks (waiting junk));
         rows = replicate n (replicate (events_nr h0) (ticks (waiting junk))) in
     Inr (junk\<lparr>st_events_nr := events_nr h0, running := replicate n (waiting junk),
               events_tmp := rows, events := rows,
               L3OccupancyMetric := (if L3COMetricAvailable h0 then Some words else None),
               DTSMetric := (if DTSAvailable h0 then Some words else None),
               PLTMetric := (if PLTAvailable h0 then Some words else None)\<rparr>))"

definition ss_aff_stats_init :: "aff_counters \<Rightarrow> aff_stats \<Rightarrow> u64 \<Rightarrow> aff_stats res" where
  "ss_aff_stats_init cntrs junk now = bindR (ss_aff_stats_alloc cntrs junk) (\<lambda>stats.
     let stats = stats\<lparr>events := map (map (\<lambda>_. 0)) (events stats),
                      events_tmp := map (map (\<lambda>_. 0)) (events_tmp stats),
                      running := map tsc_init (running stats),
                      L3OccupancyMetric := map_option (map (\<lambda>_. 0)) (L3OccupancyMetric stats),
                      DTSMetric := map_option (map (\<lambda>_. 0)) (DTSMetric stats),
                      PLTMetric := map_option (map (\<lambda>_. 0)) (PLTMetric stats)\<rparr>
     in Inr (stats\<lparr>total_running := tsc_init (total_running stats),
                  waiting := tsc_start now (tsc_init (waiting stats)), stats_on := False\<rparr>))"

definition on_cpus :: "aff_counters \<Rightarrow> nat list \<Rightarrow> (nat \<Rightarrow> tsc \<Rightarrow> tsc) \<Rightarrow> tsc list \<Rightarrow> tsc list" where
  "on_cpus cntrs bm f ts = map (\<lambda>i. if cpus cntrs ! i \<in> set bm then f i (ts ! i) else ts ! i) [0..<length ts]"

text \<open>\<open>rd k\<close> is the \<open>k\<close>-th reading of the time stamp counter during the call.\<close>

definition ss_aff_stats_start ::
  "aff_counters \<Rightarrow> nat list option \<Rightarrow> (nat \<Rightarrow> u64) \<Rightarrow> aff_stats \<Rightarrow> aff_stats res" where
  "ss_aff_stats_start cntrs cp rd stats = (case cp of None \<Rightarrow> Inl (ExitWith 1) | Some bm \<Rightarrow>
     Inr (stats\<lparr>waiting := tsc_pause (rd 0) (waiting stats),
                total_running := tsc_start (rd 1) (total_running stats),
                running := on_cpus cntrs bm (\<lambda>i. tsc_start (rd (2 + i))) (running stats),
                stats_on := True\<rparr>))"

definition ss_aff_stats_pause ::
  "aff_counters \<Rightarrow> nat list option \<Rightarrow> (nat \<Rightarrow> u64) \<Rightarrow> aff_stats \<Rightarrow> aff_stats res" where
  "ss_aff_stats_pause cntrs cp rd stats = (case cp of None \<Rightarrow> Inl (ExitWith 1) | Some bm \<Rightarrow>
     Inr (stats\<lparr>total_running := tsc_pause (rd 0) (total_running stats),
                waiting := tsc_start (rd 1) (waiting stats),
                running := on_cpus cntrs bm (\<lambda>i. tsc_pause (rd (2 + i))) (running stats),
                stats_on := False\<rparr>))"

definition read_stats_of :: "aff_counters \<Rightarrow> nat \<Rightarrow> aff_stats \<Rightarrow> aff_stats" where
  "read_stats_of cntrs i stats =
     (let h = prfcnt cntrs ! i;
          data = map (\<lambda>j. counterData (counters h ! j)) [0..<st_events_nr stats];
          stats = stats\<lparr>st_cpu := cpus cntrs ! i,
                        events := (events stats)[i := data],
                        events_tmp := (events_tmp stats)[i := map2 (+) (events_tmp stats ! i) data]\<rparr>;
          stats = (if L3COMetricAvailable h then stats\<lparr>L3OccupancyMetric :=
                     map_option (\<lambda>l. l[i := L3Occupancy h * UpscalingFactor cntrs]) (L3OccupancyMetric stats)\<rparr>
                   else stats);
          stats = (if DTSAvailable h then stats\<lparr>DTSMetric :=
                     map_option (\<lambda>l. l[i := TCCActivation cntrs - DTSValue h]) (DTSMetric stats)\<rparr> else stats)
      in (if PLTAvailable h then stats\<lparr>PLTMetric :=
            map_option (\<lambda>l. l[i := TCCActivation cntrs - PLTValue h]) (PLTMetric stats)\<rparr> else stats))"

definition ss_aff_stats_read :: "aff_counters \<Rightarrow> nat list option \<Rightarrow> aff_stats \<Rightarrow> aff_stats res" where
  "ss_aff_stats_read cntrs cp stats = (case cp of None \<Rightarrow> Inl (ExitWith 1) | Some bm \<Rightarrow>
     Inr (fold (\<lambda>i stats. if cpus cntrs ! i \<in> set bm then read_stats_of cntrs i stats else stats)
       [0..<length (cpus cntrs)] stats))"

definition ss_aff_zero_stats :: "aff_stats \<Rightarrow> aff_stats" where
  "ss_aff_zero_stats stats = stats\<lparr>events := map (map (\<lambda>_. 0)) (events stats),
     L3OccupancyMetric := map_option (map (\<lambda>_. 0)) (L3OccupancyMetric stats),
     DTSMetric := map_option (map (\<lambda>_. 0)) (DTSMetric stats),
     PLTMetric := map_option (map (\<lambda>_. 0)) (PLTMetric stats)\<rparr>"

definition ss_aff_stats_shutdown ::
  "aff_counters \<Rightarrow> nat list option \<Rightarrow> (nat \<Rightarrow> u64) \<Rightarrow> aff_stats \<Rightarrow> aff_stats res" where
  "ss_aff_stats_shutdown cntrs cp rd stats =
     (if stats_on stats then ss_aff_stats_pause cntrs cp rd stats
      else Inr (stats\<lparr>waiting := tsc_pause (rd 0) (waiting stats)\<rparr>))"

definition get_total_instr :: "aff_stats \<Rightarrow> u64" where
  "get_total_instr stats = foldl (\<lambda>v row. v + row ! 0) 0 (events_tmp stats)"

definition get_total_cycles :: "aff_stats \<Rightarrow> u64" where
  "get_total_cycles stats = foldl (\<lambda>v row. v + row ! 1) 0 (events_tmp stats)"

datatype event_type = PROG_EVENT | TEMP_EVENT | RMID_EVENT

definition metric :: "u64 list option \<Rightarrow> nat \<Rightarrow> u64" where
  "metric m i = (case m of Some l \<Rightarrow> l ! i | None \<Rightarrow> 0)"

definition ss_get_counter :: "aff_stats \<Rightarrow> nat \<Rightarrow> event_type \<Rightarrow> u64" where
  "ss_get_counter stats counter type =
     foldl (\<lambda>value i.
       if tsc_getticks (running stats ! i) \<noteq> 0 then
         (case type of
            PROG_EVENT \<Rightarrow> value + events stats ! i ! counter
          | TEMP_EVENT \<Rightarrow> if counter = 0 then value + metric (DTSMetric stats) i
                          else value + metric (PLTMetric stats) i
          | RMID_EVENT \<Rightarrow> value + metric (L3OccupancyMetric stats) i)
       else value) 0 [0..<length (running stats)]"

section \<open>Monitoring identifiers\<close>

definition IA32_PQR_ASSOC :: nat where "IA32_PQR_ASSOC = 0xC8F"
definition IA32_QM_EVTSEL :: nat where "IA32_QM_EVTSEL = 0xC8D"

text \<open>The capabilities come from \<open>cpuid\<close> leaf 0x0f, subleaf 1: registers ebx and ecx.\<close>

definition L3CMTGetCapabilities :: "u32 \<times> u32 \<Rightarrow> aff_counters \<Rightarrow> aff_counters" where
  "L3CMTGetCapabilities leaf cntrs =
     cntrs\<lparr>UpscalingFactor := ucast (fst leaf), MaxRMID := ucast (snd leaf)\<rparr>"

definition assoc_rmid :: "u64 \<Rightarrow> prfcnt_t \<Rightarrow> u64 \<times> machine \<Rightarrow> (u64 \<times> machine) res" where
  "assoc_rmid maxrmid handle rm = (case rm of (rmid, m) \<Rightarrow>
     bindR (prfcnt_rdmsr (cpu handle) IA32_PQR_ASSOC m) (\<lambda>pqr_assoc_msr.
     if rmid > 0x4ff \<or> rmid > maxrmid then Inl (ExitWith (-1))
     else
       let rmid = rmid AND 0x4ff in
       bindR (prfcnt_wrmsr (cpu handle) IA32_PQR_ASSOC
                ((pqr_assoc_msr AND 0xfffffffffffffc00) OR rmid) m) (\<lambda>m.
       bindR (prfcnt_rdmsr (cpu handle) IA32_QM_EVTSEL m) (\<lambda>qm_evtsel.
       bindR (prfcnt_wrmsr (cpu handle) IA32_QM_EVTSEL
                ((qm_evtsel AND 0xfffffc00ffffff00) OR (push_bit 32 rmid OR 1)) m) (\<lambda>m.
       Inr (rmid - 1, m))))))"

definition InitRMID :: "u32 \<times> u32 \<Rightarrow> aff_counters \<Rightarrow> machine \<Rightarrow> (aff_counters \<times> machine) res" where
  "InitRMID leaf cntrs m =
     (let cntrs = L3CMTGetCapabilities leaf cntrs; maxrmid = MaxRMID cntrs in
      bindR (foldR (assoc_rmid maxrmid) (prfcnt cntrs) (maxrmid, m)) (\<lambda>(_, m). Inr (cntrs, m)))"

section \<open>Energy\<close>

definition MSR_IA32_MISC_ENABLE :: nat where "MSR_IA32_MISC_ENABLE = 0x1A0"
definition MSR_RAPL_POWER_UNIT :: nat where "MSR_RAPL_POWER_UNIT = 0x606"
definition MSR_PKG_POWER_INFO :: nat where "MSR_PKG_POWER_INFO = 0x614"
definition MSR_PKG_ENERGY_STATUS :: nat where "MSR_PKG_ENERGY_STATUS = 0x611"
definition MSR_PP0_ENERGY_STATUS :: nat where "MSR_PP0_ENERGY_STATUS = 0x639"
definition MSR_DRAM_ENERGY_STATUS :: nat where "MSR_DRAM_ENERGY_STATUS = 0x619"

definition handleTurboMode :: "prfcnt_t \<Rightarrow> int \<Rightarrow> machine \<Rightarrow> machine res" where
  "handleTurboMode handle mode m =
     bindR (prfcnt_rdmsr (cpu handle) MSR_IA32_MISC_ENABLE m) (\<lambda>data.
     let data = (if mode = 0 then data OR push_bit 38 1
                 else if mode = 1 then data AND 0xffffffbfffffffff else data)
     in prfcnt_wrmsr (cpu handle) MSR_IA32_MISC_ENABLE data m)"

definition InitPower :: "bool \<Rightarrow> aff_counters \<Rightarrow> machine \<Rightarrow> (aff_counters \<times> machine) res" where
  "InitPower turbo cntrs m =
     (let handle = hd (prfcnt cntrs);
          cntrs = cntrs\<lparr>energy := (energy cntrs)\<lparr>pkg_energy := 0, pp0_energy := 0, dram_energy := 0\<rparr>\<rparr>
      in bindR (if turbo then handleTurboMode handle 0 m else Inr m) (\<lambda>m.
         bindR (prfcnt_rdmsr (cpu handle) MSR_RAPL_POWER_UNIT m) (\<lambda>rapl_power_unit.
         bindR (prfcnt_rdmsr (cpu handle) MSR_PKG_POWER_INFO m) (\<lambda>pkg_power_info.
         Inr (cntrs\<lparr>energy_shift := unat (drop_bit 8 rapl_power_unit AND 0x1f)\<rparr>, m)))))"

definition startPower :: "aff_counters \<Rightarrow> machine \<Rightarrow> aff_counters res" where
  "startPower cntrs m =
     (let handle = hd (prfcnt cntrs) in
      bindR (prfcnt_rdmsr (cpu handle) MSR_PKG_ENERGY_STATUS m) (\<lambda>pkg.
      bindR (prfcnt_rdmsr (cpu handle) MSR_PP0_ENERGY_STATUS m) (\<lambda>pp0.
      bindR (prfcnt_rdmsr (cpu handle) MSR_DRAM_ENERGY_STATUS m) (\<lambda>dram.
      Inr (cntrs\<lparr>energy := (energy cntrs)\<lparr>prev_pkg := pkg AND 0xffffffff,
             prev_pp0 := pp0 AND 0xffffffff, prev_dram := dram AND 0xffffffff\<rparr>\<rparr>)))))"

definition energy_diff :: "u64 \<Rightarrow> u64 \<Rightarrow> u64" where
  "energy_diff cur prev = (if cur \<ge> prev then cur - prev else (push_bit 32 1 - prev) + cur)"

definition stopPower :: "aff_counters \<Rightarrow> machine \<Rightarrow> aff_counters res" where
  "stopPower cntrs m =
     (let handle = hd (prfcnt cntrs) in
      bindR (prfcnt_rdmsr (cpu handle) MSR_PKG_ENERGY_STATUS m) (\<lambda>pkg.
      bindR (prfcnt_rdmsr (cpu handle) MSR_PP0_ENERGY_STATUS m) (\<lambda>pp0.
      bindR (prfcnt_rdmsr (cpu handle) MSR_DRAM_ENERGY_STATUS m) (\<lambda>dram.
      let last = energy cntrs in
      Inr (cntrs\<lparr>energy := last\<lparr>pkg_energy := energy_diff (pkg AND 0xffffffff) (prev_pkg last),
             pp0_energy := energy_diff (pp0 AND 0xffffffff) (prev_pp0 last),
             dram_energy := energy_diff (dram AND 0xffffffff) (prev_dram last)\<rparr>\<rparr>)))))"

text \<open>The memory unit is a constant of the code.\<close>

definition PKG_ENERGY_COUNTER :: int where "PKG_ENERGY_COUNTER = 3"
definition PP0_ENERGY_COUNTER :: int where "PP0_ENERGY_COUNTER = 4"
definition DRAM_ENERGY_COUNTER :: int where "DRAM_ENERGY_COUNTER = 5"

definition getEnergyCounters :: "aff_counters \<Rightarrow> int \<Rightarrow> rat" where
  "getEnergyCounters cntrs type =
     (if type = PKG_ENERGY_COUNTER then of_nat (unat (pkg_energy (energy cntrs))) / 2 ^ energy_shift cntrs
      else if type = PP0_ENERGY_COUNTER then of_nat (unat (pp0_energy (energy cntrs))) / 2 ^ energy_shift cntrs
      else if type = DRAM_ENERGY_COUNTER then of_nat (unat (dram_energy (energy cntrs))) * 153 / 10 ^ 7
      else 0)"

section \<open>Facts\<close>

text \<open>Machine well-formedness for the operations: registers accessible, one initialised handle
  per core, and distinct memory channels.\<close>

definition counters_wf :: "aff_counters \<Rightarrow> bool" where
  "counters_wf cntrs \<longleftrightarrow> cpus cntrs \<noteq> [] \<and> length (prfcnt cntrs) = length (cpus cntrs)
     \<and> map cpu (prfcnt cntrs) = cpus cntrs \<and> distinct (cpus cntrs)
     \<and> (\<forall>h \<in> set (prfcnt cntrs). handle_ready h)"

definition stats_wf :: "aff_counters \<Rightarrow> aff_stats \<Rightarrow> bool" where
  "stats_wf cntrs stats \<longleftrightarrow> st_events_nr stats = 7 \<and> length (running stats) = length (cpus cntrs)
     \<and> length (events stats) = length (cpus cntrs) \<and> length (events_tmp stats) = length (cpus cntrs)
     \<and> (\<forall>row \<in> set (events stats). length row = 7) \<and> (\<forall>row \<in> set (events_tmp stats). length row = 7)"

lemma hd_cpus: "counters_wf cntrs \<Longrightarrow> cpu (hd (prfcnt cntrs)) = hd (cpus cntrs)"
  by (metis counters_wf_def hd_map length_0_conv)

lemma stats_init_wf:
  assumes "counters_wf cntrs"
  shows "\<exists>stats. ss_aff_stats_init cntrs junk now = Inr stats \<and> stats_wf cntrs stats \<and> get_total_instr stats = 0"
proof -
  obtain h0 hs where h: "prfcnt cntrs = h0 # hs"
    using assms by (cases "prfcnt cntrs") (auto simp: counters_wf_def)
  then have "events_nr h0 = 7"
    using assms by (auto simp: counters_wf_def handle_ready_def)
  moreover have "foldl (\<lambda>v row. v + row ! 0) 0 (replicate n (replicate 7 (0::u64))) = 0" for n
    by (induction n) auto
  ultimately show ?thesis
    using h by (auto simp: ss_aff_stats_init_def ss_aff_stats_alloc_def stats_wf_def get_total_instr_def Let_def)
qed

text \<open>Apart from the core, fresh statistics do not depend on what \<open>malloc\<close> left.\<close>

lemma tsc_init_forgets: "tsc_init t = \<lparr>ticks = 0, last_read = 0\<rparr>"
  by (cases t) (simp add: tsc_init_def)

lemma stats_init_forgets:
  assumes "ss_aff_stats_init cntrs junk now = Inr stats" and "ss_aff_stats_init cntrs junk' now = Inr stats'"
  shows "stats'\<lparr>st_cpu := st_cpu stats\<rparr> = stats"
  using assms
  by (cases junk; cases junk')
    (auto simp: ss_aff_stats_init_def ss_aff_stats_alloc_def tsc_init_forgets Let_def split: list.splits)

lemma foldl_sum: "foldl (\<lambda>v x. v + f x) a xs = a + sum_list (map f xs)" for a :: "'a :: comm_monoid_add"
  by (induction xs arbitrary: a) (auto simp: ac_simps)

lemma get_total_instr_sum: "get_total_instr stats = (\<Sum>row \<leftarrow> events_tmp stats. row ! 0)"
  by (simp add: get_total_instr_def foldl_sum)

lemma get_total_cycles_sum: "get_total_cycles stats = (\<Sum>row \<leftarrow> events_tmp stats. row ! 1)"
  by (simp add: get_total_cycles_def foldl_sum)

text \<open>A 32-bit hardware counter: the difference of two readings, whatever wrapped.\<close>

lemma energy_diff_mod:
  assumes "a < 2 ^ 32" and "b < 2 ^ 32"
  shows "unat (energy_diff (of_nat b) (of_nat a)) = (b + (2 ^ 32 - a)) mod 2 ^ 32"
proof -
  have small: "unat (of_nat n :: u64) = n" if "n < 2 ^ 33" for n
  proof -
    have "n < 2 ^ 64"
      using that by (rule order.strict_trans2) simp
    then show ?thesis
      by (simp add: unat_of_nat)
  qed
  have ab: "unat (of_nat a :: u64) = a" "unat (of_nat b :: u64) = b"
    using assms by (auto intro!: small)
  show ?thesis
  proof (cases "a \<le> b")
    case True
    have "energy_diff (of_nat b) (of_nat a) = (of_nat (b - a) :: u64)"
      using True ab by (simp add: energy_diff_def word_le_nat_alt of_nat_diff)
    moreover have "b - a < 2 ^ 33" and "b - a < 2 ^ 32"
      using assms by simp_all
    moreover have "b + (2 ^ 32 - a) = (b - a) + 2 ^ 32"
      using True assms by simp
    ultimately show ?thesis
      by (simp only: small mod_add_self2 mod_less)
  next
    case False
    have "(of_nat (2 ^ 32 - a + b) :: u64) = (2 ^ 32 - of_nat a) + of_nat b"
      using assms by (simp add: of_nat_diff)
    then have "energy_diff (of_nat b) (of_nat a) = (of_nat (2 ^ 32 - a + b) :: u64)"
      using False ab by (simp add: energy_diff_def word_le_nat_alt push_bit_eq_mult)
    moreover have "2 ^ 32 - a + b < 2 ^ 33" and "2 ^ 32 - a + b < 2 ^ 32"
      using False assms by simp_all
    ultimately show ?thesis
      by (simp only: small add.commute [of b] mod_less)
  qed
qed

text \<open>Freezing and unfreezing the boxes leaves every other register of the channels alone.\<close>

lemma box_writes:
  "pci (foldl (\<lambda>m fd. Pciwrite32 fd r v m) m fds) fd r' = (if fd \<in> set fds \<and> r' = r then v else pci m fd r')"
  "msr (foldl (\<lambda>m fd. Pciwrite32 fd r v m) m fds) = msr m"
  "msr_ok (foldl (\<lambda>m fd. Pciwrite32 fd r v m) m fds) = msr_ok m"
  by (induction fds arbitrary: m) (auto simp: Pciwrite32_def)

lemma getImc_frozen [simp]:
  "getImcReads mc (freezeCounters mc' m) = getImcReads mc m"
  "getImcWrites mc (freezeCounters mc' m) = getImcWrites mc m"
  by (simp_all add: getImcReads_def getImcWrites_def Pciread64_def freezeCounters_def box_writes pci_consts)

lemma getImc_fds:
  "getImcReads mc m = (\<Sum>fd \<leftarrow> mc_fd mc. Pciread64 fd CTR0 m)"
  "getImcWrites mc m = (\<Sum>fd \<leftarrow> mc_fd mc. Pciread64 fd CTR1 m)"
  by (simp_all add: getImcReads_def getImcWrites_def foldl_sum)

lemma box_unfrozen:
  "fd \<in> set (mc_fd mc) \<Longrightarrow> pci (unfreezeCounters mc m) fd BOX_CTL = FRZ_EN"
  "r \<noteq> BOX_CTL \<Longrightarrow> pci (unfreezeCounters mc m) fd r = pci m fd r"
  "r \<noteq> BOX_CTL \<Longrightarrow> pci (freezeCounters mc m) fd r = pci m fd r"
  by (simp_all add: unfreezeCounters_def freezeCounters_def box_writes)

definition row_data :: "aff_counters \<Rightarrow> nat \<Rightarrow> nat \<Rightarrow> u64 list" where
  "row_data cntrs n i = map (\<lambda>j. counterData (counters (prfcnt cntrs ! i) ! j)) [0..<n]"

lemma read_stats_of_fields [simp]:
  "events (read_stats_of cntrs i stats) = (events stats)[i := row_data cntrs (st_events_nr stats) i]"
  "events_tmp (read_stats_of cntrs i stats)
     = (events_tmp stats)[i := map2 (+) (events_tmp stats ! i) (row_data cntrs (st_events_nr stats) i)]"
  "running (read_stats_of cntrs i stats) = running stats"
  "st_events_nr (read_stats_of cntrs i stats) = st_events_nr stats"
  by (simp_all add: read_stats_of_def Let_def row_data_def)

text \<open>The rows after the loop over the first \<open>n\<close> cores.\<close>

lemma fold_read:
  fixes cntrs bm defines "step \<equiv> \<lambda>i s. if cpus cntrs ! i \<in> set bm then read_stats_of cntrs i s else s"
  shows "n \<le> length (events stats) \<Longrightarrow> length (events_tmp stats) = length (events stats) \<Longrightarrow>
    let s = fold step [0..<n] stats in
      events s = map (\<lambda>i. if i < n \<and> cpus cntrs ! i \<in> set bm then row_data cntrs (st_events_nr stats) i
                          else events stats ! i) [0..<length (events stats)]
    \<and> events_tmp s = map (\<lambda>i. if i < n \<and> cpus cntrs ! i \<in> set bm
                          then map2 (+) (events_tmp stats ! i) (row_data cntrs (st_events_nr stats) i)
                          else events_tmp stats ! i) [0..<length (events_tmp stats)]
    \<and> running s = running stats \<and> st_events_nr s = st_events_nr stats"
proof (induction n)
  case 0
  then show ?case
    using map_nth [of "events stats"] map_nth [of "events_tmp stats"] by simp
next
  case (Suc n)
  let ?s = "fold step [0..<n] stats"
  have IH: "events ?s = map (\<lambda>i. if i < n \<and> cpus cntrs ! i \<in> set bm then row_data cntrs (st_events_nr stats) i
                          else events stats ! i) [0..<length (events stats)]"
    "events_tmp ?s = map (\<lambda>i. if i < n \<and> cpus cntrs ! i \<in> set bm
                          then map2 (+) (events_tmp stats ! i) (row_data cntrs (st_events_nr stats) i)
                          else events_tmp stats ! i) [0..<length (events_tmp stats)]"
    "running ?s = running stats" "st_events_nr ?s = st_events_nr stats"
    using Suc by (auto simp: Let_def)
  have fold: "fold step [0..<Suc n] stats = step n ?s"
    by simp
  show ?case
    unfolding fold Let_def step_def using IH Suc.prems
    by (auto simp: nth_list_update less_Suc_eq step_def intro!: nth_equalityI)
qed

text \<open>On a machine that has its registers and its memory controllers a core is initialised.\<close>

lemma handlePrefetchers_ok:
  assumes "all_ok m"
  shows "\<exists>m'. handlePrefetchers c mode m = Inr m' \<and> all_ok m'"
proof -
  have "\<exists>m'. foldR (\<lambda>handle m. bindR (prfcnt_rdmsr (cpu handle) MSR_IA32_DISABLE_PREF m) (\<lambda>data.
       let data = (if mode = 1 then data AND 0xfffffffffffffff0
                   else if mode = 0 then data OR 0xf else data)
       in prfcnt_wrmsr (cpu handle) MSR_IA32_DISABLE_PREF data m)) hs m = Inr m' \<and> all_ok m'" for hs :: "prfcnt_t list"
    using assms by (induction hs arbitrary: m) (simp_all add: rdmsr_ok wrmsr_ok Let_def)
  then show ?thesis
    by (simp add: handlePrefetchers_def)
qed

lemma Pciprogram_ok: "all_ok (Pciprogram mc m) = all_ok m"
proof -
  have "all_ok (foldl (\<lambda>m (offset, v). Pciwrite32 fd offset v m) m ws) = all_ok m" for fd ws m
    by (induction ws arbitrary: m) (auto simp: Pciwrite32_def all_ok_def)
  then have "all_ok (program_channel fd m) = all_ok m" for fd m
    unfolding program_channel_def .
  then have "all_ok (foldl (\<lambda>m fd. program_channel fd m) m fds) = all_ok m" for fds m
    by (induction fds arbitrary: m) simp_all
  then show ?thesis
    by (simp add: Pciprogram_def)
qed

lemma counters_init_ok:
  assumes "all_ok m" and "\<forall>x. dev x \<noteq> None"
  shows "\<exists>c m'. ss_aff_counters_init dev L D P [k] m = Inr (c, m') \<and> all_ok m'"
proof -
  let ?h = "\<lparr>L3COMetricAvailable = L, DTSAvailable = D, PLTAvailable = P,
                   L3Occupancy = 0, DTSValue = 0, PLTValue = 0, cpu = k, flags = 0, events_nr = 0,
                   counters = []\<rparr>"
  obtain h where h: "prfcnt_init ?h k 0 m = Inr (h, m\<lparr>msr := (msr m)(k := PrfCnt.selected (msr m k))\<rparr>)"
    using prfcnt_init_result [OF assms(1)] by blast
  have dev: "\<exists>y. dev x = Some y" for x
    using assms(2) by blast
  have pci: "\<exists>mc'. Pciopensocket dev mc = Inr mc'" for mc
    using dev [of "(14, 0)"] dev [of "(14, 1)"] dev [of "(15, 0)"] dev [of "(15, 1)"] dev [of "(17, 0)"]
    by (auto simp: Pciopensocket_def Pciopen_def)
  let ?m = "m\<lparr>msr := (msr m)(k := PrfCnt.selected (msr m k))\<rparr>"
  have m: "all_ok ?m"
    using assms(1) by simp
  have "\<forall>c. \<exists>m'. handlePrefetchers c 1 ?m = Inr m' \<and> all_ok m'"
    using handlePrefetchers_ok [OF m] by blast
  from choice [OF this] obtain f where f: "\<And>c. handlePrefetchers c 1 ?m = Inr (f c) \<and> all_ok (f c)"
    by blast
  obtain g where g: "\<And>mc. Pciopensocket dev mc = Inr (g mc)"
    using pci by metis
  show ?thesis
    by (simp add: ss_aff_counters_init_def init_core_def Let_def h rdmsr_ok [OF m] f g Pciprogram_ok)
qed

section \<open>Properties\<close>

text \<open>C20: The energy that a quantum consumed is measured correctly for the package, the cores and
  the memory: the difference of the 32-bit hardware counters between start and stop, also when
  a counter wrapped around once in between, whatever their upper halves hold.\<close>

theorem power_measures_difference:
  assumes "all_ok m" and "all_ok m2" and "prfcnt cntrs \<noteq> []"
  shows "\<exists>c1 c2. startPower cntrs m = Inr c1 \<and> stopPower c1 m2 = Inr c2
    \<and> (let reg = (\<lambda>m r. unat (msr m (cpu (hd (prfcnt cntrs))) r AND 0xffffffff));
           used = (\<lambda>r. (reg m2 r + (2 ^ 32 - reg m r)) mod 2 ^ 32)
       in unat (pkg_energy (energy c2)) = used MSR_PKG_ENERGY_STATUS
        \<and> unat (pp0_energy (energy c2)) = used MSR_PP0_ENERGY_STATUS
        \<and> unat (dram_energy (energy c2)) = used MSR_DRAM_ENERGY_STATUS)"
proof -
  have bound: "unat (x AND 0xffffffff) < 2 ^ 32" for x :: u64
  proof -
    have "x AND 0xffffffff \<le> 0xffffffff"
      by (rule word_and_le1)
    then have "unat (x AND 0xffffffff) \<le> unat (0xffffffff :: u64)"
      by (simp only: word_le_nat_alt)
    then show ?thesis by simp
  qed
  have diff: "unat (energy_diff (x AND 0xffffffff) (y AND 0xffffffff))
      = (unat (x AND 0xffffffff) + (2 ^ 32 - unat (y AND 0xffffffff))) mod 2 ^ 32" for x y :: u64
    using energy_diff_mod [OF bound [of y] bound [of x]] by simp
  show ?thesis
    using assms
    by (simp add: startPower_def stopPower_def rdmsr_ok Let_def diff)
qed

definition junk_stats :: aff_stats where
  "junk_stats = \<lparr>waiting = \<lparr>ticks = 11, last_read = 12\<rparr>, total_running = \<lparr>ticks = 13, last_read = 14\<rparr>, running = [],
     events_tmp = [], events = [], L3OccupancyMetric = None, DTSMetric = None, PLTMetric = None, st_cpu = 15,
     st_events_nr = 16, stats_on = True\<rparr>"

definition example_counters :: aff_counters where
  "example_counters = \<lparr>MCinfo = \<lparr>mc_fd = [0, 1], previousMCNormalReads = 0, previousMCFullWrites = 0,
       UncMCNormalReads = 0, UncMCFullWrites = 0\<rparr>,
     UpscalingFactor = 1, MaxRMID = 0, TCCActivation = 0, TCCOffset = 0, energy_shift = 14,
     energy = \<lparr>prev_pkg = 0, prev_pp0 = 0, prev_dram = 0, pkg_energy = 0, pp0_energy = 0, dram_energy = 0\<rparr>,
     cpus = [0], prfcnt = [plain_handle\<lparr>events_nr := 7, counters := monitor_counters\<rparr>]\<rparr>"

lemma example_counters_wf: "counters_wf example_counters"
  by (simp add: counters_wf_def example_counters_def plain_handle_def handle_ready_def
      monitor_counters_def)

theorem power_measures_difference_witness:
  "\<exists>c1 c2. startPower example_counters (plain_machine\<lparr>msr := \<lambda>_ _. 0xfffffff0\<rparr>) = Inr c1
     \<and> stopPower c1 (plain_machine\<lparr>msr := \<lambda>_ _. 0x10\<rparr>) = Inr c2 \<and> unat (pkg_energy (energy c2)) = 32"
proof -
  have "all_ok (plain_machine\<lparr>msr := \<lambda>_ _. 0xfffffff0\<rparr>)" "all_ok (plain_machine\<lparr>msr := \<lambda>_ _. 0x10\<rparr>)"
    using plain_machine_ok by simp_all
  moreover have "prfcnt example_counters \<noteq> []"
    by (simp add: example_counters_def)
  ultimately obtain c1 c2 where c: "startPower example_counters (plain_machine\<lparr>msr := \<lambda>_ _. 0xfffffff0\<rparr>) = Inr c1"
      "stopPower c1 (plain_machine\<lparr>msr := \<lambda>_ _. 0x10\<rparr>) = Inr c2"
    and e: "unat (pkg_energy (energy c2)) = (unat ((0x10 :: u64) AND 0xffffffff)
        + (2 ^ 32 - unat ((0xfffffff0 :: u64) AND 0xffffffff))) mod 2 ^ 32"
    using power_measures_difference
      [of "plain_machine\<lparr>msr := \<lambda>_ _. 0xfffffff0\<rparr>" "plain_machine\<lparr>msr := \<lambda>_ _. 0x10\<rparr>" example_counters]
    unfolding Let_def by auto
  from e have "unat (pkg_energy (energy c2)) = 32"
    by simp
  with c show ?thesis by blast
qed

text \<open>C32: The memory traffic of a quantum is the sum, over the channels, of how far their
  counters advanced between start and stop (modulo 2^64); taking the readings changes no
  counter and leaves every box counting again.\<close>

theorem mc_measures_difference:
  "let (c1, m1) = startMCCounters cntrs m; (c2, m2) = stopMCCounters c1 m'; fds = mc_fd (MCinfo cntrs) in
     UncMCNormalReads (MCinfo c2) = (\<Sum>fd \<leftarrow> fds. Pciread64 fd CTR0 m' - Pciread64 fd CTR0 m)
   \<and> UncMCFullWrites (MCinfo c2) = (\<Sum>fd \<leftarrow> fds. Pciread64 fd CTR1 m' - Pciread64 fd CTR1 m)
   \<and> (\<forall>fd r. pci m1 fd r = (if r = BOX_CTL \<and> fd \<in> set fds then FRZ_EN else pci m fd r))
   \<and> (\<forall>fd r. pci m2 fd r = (if r = BOX_CTL \<and> fd \<in> set fds then FRZ_EN else pci m' fd r))"
proof -
  have sub: "(\<Sum>x \<leftarrow> xs. f x - g x) = (\<Sum>x \<leftarrow> xs. f x) - (\<Sum>x \<leftarrow> xs. g x)" for xs :: "nat list" and f g :: "nat \<Rightarrow> u64"
    by (induction xs) auto
  show ?thesis
    by (simp add: startMCCounters_def stopMCCounters_def Let_def sub getImc_fds
        unfreezeCounters_def freezeCounters_def box_writes Pciread64_def pci_consts)
qed

text \<open>C19: Reading a program's statistics charges it with exactly what its cores counted: its
  total of instructions (and of cycles) grows by the sum of the counters of the cores of its
  cpuset, and the rows of the other cores stay as they are.\<close>

theorem stats_read_charges:
  assumes "counters_wf cntrs" and "stats_wf cntrs stats"
  shows "\<exists>stats'. ss_aff_stats_read cntrs (Some bm) stats = Inr stats' \<and> stats_wf cntrs stats'
    \<and> (let on = filter (\<lambda>i. cpus cntrs ! i \<in> set bm) [0..<length (cpus cntrs)] in
         get_total_instr stats' = get_total_instr stats
           + (\<Sum>i \<leftarrow> on. counterData (counters (prfcnt cntrs ! i) ! 0))
       \<and> get_total_cycles stats' = get_total_cycles stats
           + (\<Sum>i \<leftarrow> on. counterData (counters (prfcnt cntrs ! i) ! 1)))
    \<and> (\<forall>i < length (cpus cntrs). cpus cntrs ! i \<notin> set bm \<longrightarrow> events stats' ! i = events stats ! i)"
proof -
  let ?n = "length (cpus cntrs)"
  define s where "s = fold (\<lambda>i s. if cpus cntrs ! i \<in> set bm then read_stats_of cntrs i s else s) [0..<?n] stats"
  have len: "length (events stats) = ?n" "length (events_tmp stats) = ?n" "st_events_nr stats = 7"
    using assms(2) by (auto simp: stats_wf_def)
  have s: "events s = map (\<lambda>i. if cpus cntrs ! i \<in> set bm then row_data cntrs 7 i else events stats ! i) [0..<?n]"
    "events_tmp s = map (\<lambda>i. if cpus cntrs ! i \<in> set bm then map2 (+) (events_tmp stats ! i) (row_data cntrs 7 i)
                            else events_tmp stats ! i) [0..<?n]"
    "running s = running stats" "st_events_nr s = 7"
    using fold_read [of ?n stats cntrs bm] len by (auto simp: s_def Let_def)
  have wf: "stats_wf cntrs s"
    using assms(2) len s by (auto simp: stats_wf_def row_data_def)
  have row: "map2 (+) (events_tmp stats ! i) (row_data cntrs 7 i) ! k
      = events_tmp stats ! i ! k + counterData (counters (prfcnt cntrs ! i) ! k)" if "i < ?n" "k < 7" for i k
    using assms(2) that len by (simp add: stats_wf_def row_data_def)
  have total: "(\<Sum>r \<leftarrow> events_tmp s. r ! k) = (\<Sum>r \<leftarrow> events_tmp stats. r ! k)
      + (\<Sum>i \<leftarrow> filter (\<lambda>i. cpus cntrs ! i \<in> set bm) [0..<?n]. counterData (counters (prfcnt cntrs ! i) ! k))"
    if "k < 7" for k
  proof -
    have "(\<Sum>r \<leftarrow> events_tmp s. r ! k) = (\<Sum>i \<leftarrow> [0..<?n]. events_tmp stats ! i ! k
        + (if cpus cntrs ! i \<in> set bm then counterData (counters (prfcnt cntrs ! i) ! k) else 0))"
      unfolding s(2) map_map comp_def
      by (rule arg_cong [of _ _ sum_list], rule map_cong [OF refl]) (use row that in auto)
    also have "\<dots> = (\<Sum>i \<leftarrow> [0..<?n]. events_tmp stats ! i ! k)
        + (\<Sum>i \<leftarrow> [0..<?n]. if cpus cntrs ! i \<in> set bm then counterData (counters (prfcnt cntrs ! i) ! k) else 0)"
      by (simp add: sum_list_addf)
    also have "(\<Sum>i \<leftarrow> [0..<?n]. events_tmp stats ! i ! k) = (\<Sum>r \<leftarrow> events_tmp stats. r ! k)"
      using map_upt_nth [of "events_tmp stats" ?n "\<lambda>r. r ! k"] len by simp
    finally show ?thesis
      by (simp add: sum_list_map_filter')
  qed
  have "ss_aff_stats_read cntrs (Some bm) stats = Inr s"
    by (simp add: ss_aff_stats_read_def s_def)
  then show ?thesis
    using wf total [of 0] total [of 1] s(1) by (simp add: get_total_instr_sum get_total_cycles_sum)
qed

theorem stats_read_charges_witness:
  "\<exists>stats stats'. ss_aff_stats_init example_counters junk_stats 0 = Inr stats
     \<and> ss_aff_stats_read example_counters (Some [0]) stats = Inr stats' \<and> stats_wf example_counters stats'"
  using stats_init_wf [OF example_counters_wf, of junk_stats 0] stats_read_charges [OF example_counters_wf] by blast

text \<open>C40: The comment on \<open>InitRMID\<close> promises the first core the identifier \<open>MaxRMID\<close>, the next
  \<open>MaxRMID - 1\<close> and so on, but the mask \<open>0x4ff\<close> drops bits 8 and 9 of the number: the ten
  identifier bits written for a core are the number modulo 256, and the numbering goes on
  from there. A number above \<open>0x4ff\<close> ends the process.\<close>

theorem rmid_bits_dropped:
  assumes "all_ok m" and "rmid \<le> maxrmid"
  shows "(rmid \<le> 0x4ff \<longrightarrow> (\<exists>m'. assoc_rmid maxrmid handle (rmid, m) = Inr ((rmid AND 0x4ff) - 1, m')
      \<and> msr m' (cpu handle) IA32_PQR_ASSOC AND 0x3ff = rmid AND 0xff
      \<and> (\<forall>n \<ge> 11. bit (msr m' (cpu handle) IA32_PQR_ASSOC) n = bit (msr m (cpu handle) IA32_PQR_ASSOC) n)))
    \<and> (rmid > 0x4ff \<longrightarrow> assoc_rmid maxrmid handle (rmid, m) = Inl (ExitWith (-1)))"
proof -
  have low: "((v AND 0xfffffffffffffc00) OR (rmid AND 0x4ff)) AND 0x3ff = rmid AND 0xff" for v :: u64
  proof -
    have "((v AND 0xfffffffffffffc00) OR (rmid AND 0x4ff)) AND 0x3ff
        = (v AND (0xfffffffffffffc00 AND 0x3ff)) OR (rmid AND (0x4ff AND 0x3ff))"
      by (simp only: word_bw_assocs word_ao_dist)
    then show ?thesis by simp
  qed
  have high: "bit ((v AND 0xfffffffffffffc00) OR (rmid AND 0x4ff)) n = bit v n" if "n \<ge> 11" for v :: u64 and n
  proof -
    have e: "(0xfffffffffffffc00 :: u64) = not (mask 10)" "(0x4ff :: u64) = mask 8 OR push_bit 10 1"
      by (simp_all add: mask_eq_exp_minus_1)
    show ?thesis
      unfolding e bit_or_iff bit_and_iff bit_not_iff bit_mask_iff bit_push_bit_iff bit_1_iff
      using that by (auto dest: bit_imp_le_length simp: possible_bit_def)
  qed
  show ?thesis
    using assms low high
    by (auto simp: assoc_rmid_def rdmsr_ok wrmsr_ok Let_def IA32_PQR_ASSOC_def IA32_QM_EVTSEL_def)
qed

theorem rmid_bits_dropped_witness:
  "\<exists>m'. assoc_rmid 0x1ff plain_handle (0x1ff, plain_machine) = Inr (0xfe, m')
     \<and> msr m' 0 IA32_PQR_ASSOC AND 0x3ff = 0xff"
  using rmid_bits_dropped [OF plain_machine_ok, of "0x1ff" "0x1ff" plain_handle]
  by (auto simp: plain_handle_def)

end
