(* ===== verification/CdsList.thy ===== *)
theory CdsList
  imports Prelude
begin

text \<open>
  The intrusive doubly linked lists of \<open>src/list.h\<close>. The links live in a store that maps the
  address of a node to its \<open>next\<close> and \<open>prev\<close> fields; every operation is the sequence of
  pointer assignments of the header. \<open>is_list s h xs\<close> says that \<open>h\<close> heads a well formed
  circular list of the nodes \<open>xs\<close>; under it each operation is an operation on \<open>xs\<close>, which is
  what lets the schedulers' lists be read as lists of programs.
\<close>

section \<open>The store\<close>

type_synonym addr = nat

record store =
  nxt :: "addr \<Rightarrow> addr"
  prv :: "addr \<Rightarrow> addr"
  brk :: addr

text \<open>Nodes at addresses from \<open>brk\<close> on are not allocated yet.\<close>

definition set_next :: "addr \<Rightarrow> addr \<Rightarrow> store \<Rightarrow> store" where
  "set_next p q s = s\<lparr>nxt := (nxt s)(p := q)\<rparr>"

definition set_prev :: "addr \<Rightarrow> addr \<Rightarrow> store \<Rightarrow> store" where
  "set_prev p q s = s\<lparr>prv := (prv s)(p := q)\<rparr>"

lemma set_sels [simp]:
  "nxt (set_next p q s) = (nxt s)(p := q)" "prv (set_next p q s) = prv s" "brk (set_next p q s) = brk s"
  "nxt (set_prev p q s) = nxt s" "prv (set_prev p q s) = (prv s)(p := q)" "brk (set_prev p q s) = brk s"
  by (simp_all add: set_next_def set_prev_def)

section \<open>Operations\<close>

definition CDS_INIT_LIST_HEAD :: "addr \<Rightarrow> store \<Rightarrow> store" where
  "CDS_INIT_LIST_HEAD ptr s = (let s = set_prev ptr ptr s in set_next ptr (prv s ptr) s)"

definition cds_list_add :: "addr \<Rightarrow> addr \<Rightarrow> store \<Rightarrow> store" where
  "cds_list_add newp head s =
     (let s = set_prev (nxt s head) newp s;
          s = set_next newp (nxt s head) s;
          s = set_prev newp head s
      in set_next head newp s)"

definition cds_list_add_tail :: "addr \<Rightarrow> addr \<Rightarrow> store \<Rightarrow> store" where
  "cds_list_add_tail newp head s =
     (let s = set_next (prv s head) newp s;
          s = set_next newp head s;
          s = set_prev newp (prv s head) s
      in set_prev head newp s)"

definition cds_list_unlink :: "addr \<Rightarrow> addr \<Rightarrow> store \<Rightarrow> store" where
  "cds_list_unlink prev_p next_p s = set_next prev_p next_p (set_prev next_p prev_p s)"

definition cds_list_del :: "addr \<Rightarrow> store \<Rightarrow> store" where
  "cds_list_del elem s = cds_list_unlink (prv s elem) (nxt s elem) s"

definition cds_list_move :: "addr \<Rightarrow> addr \<Rightarrow> store \<Rightarrow> store" where
  "cds_list_move elem head s = cds_list_add elem head (cds_list_unlink (prv s elem) (nxt s elem) s)"

definition cds_list_replace :: "addr \<Rightarrow> addr \<Rightarrow> store \<Rightarrow> store" where
  "cds_list_replace old newp s =
     (let s = set_next newp (nxt s old) s;
          s = set_prev newp (prv s old) s;
          s = set_next (prv s newp) newp s
      in set_prev (nxt s newp) newp s)"

definition cds_list_splice :: "addr \<Rightarrow> addr \<Rightarrow> store \<Rightarrow> store" where
  "cds_list_splice add head s =
     (if add \<noteq> nxt s add then
        (let s = set_prev (nxt s add) head s;
             s = set_next (prv s add) (nxt s head) s;
             s = set_prev (nxt s head) (prv s add) s
         in set_next head (nxt s add) s)
      else s)"

definition cds_list_empty :: "store \<Rightarrow> addr \<Rightarrow> bool" where
  "cds_list_empty s head \<longleftrightarrow> head = nxt s head"

definition cds_list_replace_init :: "addr \<Rightarrow> addr \<Rightarrow> store \<Rightarrow> store" where
  "cds_list_replace_init old newp s =
     (let head = nxt s old;
          s = cds_list_del old s;
          s = cds_list_add_tail newp head s
      in CDS_INIT_LIST_HEAD old s)"

text \<open>The loops: the nodes that \<open>cds_list_for_each\<close> and \<open>cds_list_for_each_prev\<close> visit when the
  body leaves the links alone. A walk that never comes back to the head is \<open>None\<close>.\<close>

partial_function (option) walk_from :: "(addr \<Rightarrow> addr) \<Rightarrow> addr \<Rightarrow> addr \<Rightarrow> addr list option" where
  "walk_from step pos head =
     (if pos = head then Some []
      else Option.bind (walk_from step (step pos) head) (\<lambda>ps. Some (pos # ps)))"

definition cds_list_for_each :: "store \<Rightarrow> addr \<Rightarrow> addr list option" where
  "cds_list_for_each s head = walk_from (nxt s) (nxt s head) head"

definition cds_list_for_each_prev :: "store \<Rightarrow> addr \<Rightarrow> addr list option" where
  "cds_list_for_each_prev s head = walk_from (prv s) (prv s head) head"

section \<open>Well formed lists\<close>

definition link :: "store \<Rightarrow> addr \<Rightarrow> addr \<Rightarrow> bool" where
  "link s a b \<longleftrightarrow> nxt s a = b \<and> prv s b = a"

fun linked :: "store \<Rightarrow> addr list \<Rightarrow> bool" where
  "linked s (a # b # xs) \<longleftrightarrow> link s a b \<and> linked s (b # xs)"
| "linked s _ \<longleftrightarrow> True"

definition is_list :: "store \<Rightarrow> addr \<Rightarrow> addr list \<Rightarrow> bool" where
  "is_list s h xs \<longleftrightarrow> distinct (h # xs) \<and> linked s (h # xs @ [h])"

lemma is_list_distinct: "is_list s h xs \<Longrightarrow> distinct (h # xs)"
  by (simp add: is_list_def)

lemma linked_append:
  "linked s (xs @ ys) \<longleftrightarrow> linked s xs \<and> linked s ys
     \<and> (xs \<noteq> [] \<longrightarrow> ys \<noteq> [] \<longrightarrow> link s (last xs) (hd ys))"
proof (induction xs)
  case Nil
  then show ?case by simp
next
  case (Cons a xs)
  then show ?case by (cases xs; cases ys) auto
qed

lemma linked_frame:
  assumes "\<And>a. a \<in> set (butlast xs) \<Longrightarrow> nxt s' a = nxt s a"
    and "\<And>a. a \<in> set (tl xs) \<Longrightarrow> prv s' a = prv s a"
  shows "linked s' xs = linked s xs"
  using assms
proof (induction s xs rule: linked.induct)
  case (1 s a b xs)
  from 1 show ?case by (auto simp: link_def)
qed auto

text \<open>The two ends of a cut of the list, and the list as the parts beside the cut.\<close>

abbreviation before_cut :: "addr \<Rightarrow> addr list \<Rightarrow> addr" where
  "before_cut h xs \<equiv> last (h # xs)"

abbreviation after_cut :: "addr list \<Rightarrow> addr \<Rightarrow> addr" where
  "after_cut ys h \<equiv> hd (ys @ [h])"

lemma is_list_cut:
  "is_list s h (xs @ ys) \<longleftrightarrow> distinct (h # xs @ ys) \<and> linked s (h # xs)
     \<and> link s (before_cut h xs) (after_cut ys h) \<and> linked s (ys @ [h])"
  using linked_append [of s "h # xs" "ys @ [h]"] by (auto simp: is_list_def)

lemma is_list_cut_node:
  "is_list s h (xs @ e # ys) \<longleftrightarrow> distinct (h # xs @ e # ys) \<and> linked s (h # xs)
     \<and> link s (before_cut h xs) e \<and> link s e (after_cut ys h) \<and> linked s (ys @ [h])"
  by (cases ys) (auto simp: is_list_cut)

lemma linked_left_frame:
  assumes "distinct (h # xs)"
    and "\<And>a. a \<in> set (h # xs) \<Longrightarrow> a \<noteq> before_cut h xs \<Longrightarrow> nxt s' a = nxt s a"
    and "\<And>a. a \<in> set xs \<Longrightarrow> prv s' a = prv s a"
  shows "linked s' (h # xs) = linked s (h # xs)"
proof (rule linked_frame)
  fix a
  assume a: "a \<in> set (butlast (h # xs))"
  have "butlast (h # xs) @ [last (h # xs)] = h # xs"
    by (rule append_butlast_last_id) simp
  then have "distinct (butlast (h # xs) @ [last (h # xs)])"
    using assms(1) by (simp only:)
  then have "a \<noteq> before_cut h xs"
    using a by auto
  then show "nxt s' a = nxt s a"
    using a in_set_butlastD [OF a] assms(2) by blast
next
  fix a
  assume "a \<in> set (tl (h # xs))"
  then show "prv s' a = prv s a"
    using assms(3) by simp
qed

lemma linked_right_frame:
  assumes "distinct (h # ys)"
    and "\<And>a. a \<in> set ys \<Longrightarrow> nxt s' a = nxt s a"
    and "\<And>a. a \<in> set (h # ys) \<Longrightarrow> a \<noteq> after_cut ys h \<Longrightarrow> prv s' a = prv s a"
  shows "linked s' (ys @ [h]) = linked s (ys @ [h])"
proof (rule linked_frame)
  fix a
  assume "a \<in> set (butlast (ys @ [h]))"
  then show "nxt s' a = nxt s a"
    using assms(2) by simp
next
  fix a
  assume "a \<in> set (tl (ys @ [h]))"
  then show "prv s' a = prv s a"
    using assms(1,3) by (cases ys) auto
qed

lemma cut_ends:
  "before_cut h xs \<in> set (h # xs)" "after_cut ys h \<in> set (h # ys)"
  "distinct (h # xs @ ys) \<Longrightarrow> before_cut h xs \<notin> set ys"
  "distinct (h # xs @ ys) \<Longrightarrow> after_cut ys h \<notin> set xs"
  by (cases ys; use last_in_set [of "h # xs"] in auto)+

section \<open>Each operation on the list it works on\<close>

lemma list_init: "is_list (CDS_INIT_LIST_HEAD h s) h []"
  by (simp add: is_list_def link_def CDS_INIT_LIST_HEAD_def Let_def)

text \<open>Insertion at a cut: both \<open>cds_list_add\<close> after its left end and \<open>cds_list_add_tail\<close>
  before its right end.\<close>

lemma list_insert:
  assumes l: "is_list s h (xs @ ys)" and n: "n \<notin> set (h # xs @ ys)"
    and s': "nxt s' = (nxt s)(n := after_cut ys h, before_cut h xs := n)"
      "prv s' = (prv s)(n := before_cut h xs, after_cut ys h := n)"
  shows "is_list s' h (xs @ n # ys)"
proof -
  have d: "distinct (h # xs @ ys)"
    using l by (simp add: is_list_def)
  note ends = cut_ends(1) [of h xs] cut_ends(2) [of ys h] cut_ends(3,4) [OF d]
  have "linked s' (h # xs) = linked s (h # xs)"
    by (rule linked_left_frame) (use d n s' ends in auto)
  moreover have "linked s' (ys @ [h]) = linked s (ys @ [h])"
    by (rule linked_right_frame) (use d n s' ends in auto)
  moreover have "link s' (before_cut h xs) n" "link s' n (after_cut ys h)"
    using n s' ends by (auto simp: link_def)
  moreover have "linked s (h # xs) \<and> linked s (ys @ [h])"
    using l by (simp only: is_list_cut)
  ultimately show ?thesis
    unfolding is_list_cut_node using d n by auto
qed

lemma list_add:
  assumes "is_list s h (xs @ ys)" and "n \<notin> set (h # xs @ ys)"
  shows "is_list (cds_list_add n (before_cut h xs) s) h (xs @ n # ys)"
proof -
  have "link s (before_cut h xs) (after_cut ys h)"
    using assms(1) by (simp add: is_list_cut)
  moreover have "before_cut h xs \<noteq> n" "after_cut ys h \<noteq> n"
    using assms(2) cut_ends(1) [of h xs] cut_ends(2) [of ys h] by auto
  ultimately show ?thesis
    by (intro list_insert [OF assms])
      (auto simp: cds_list_add_def link_def Let_def fun_eq_iff)
qed

lemma list_add_before:
  assumes "is_list s h (xs @ ys)" and "n \<notin> set (h # xs @ ys)"
  shows "is_list (cds_list_add_tail n (after_cut ys h) s) h (xs @ n # ys)"
proof -
  have "link s (before_cut h xs) (after_cut ys h)"
    using assms(1) by (simp add: is_list_cut)
  moreover have "before_cut h xs \<noteq> n" "after_cut ys h \<noteq> n"
    using assms(2) cut_ends(1) [of h xs] cut_ends(2) [of ys h] by auto
  ultimately show ?thesis
    by (intro list_insert [OF assms])
      (auto simp: cds_list_add_tail_def link_def Let_def fun_eq_iff)
qed

lemma list_add_head:
  "is_list s h xs \<Longrightarrow> n \<notin> set (h # xs) \<Longrightarrow> is_list (cds_list_add n h s) h (n # xs)"
  using list_add [of s h "[]" xs n] by simp

lemma list_add_tail:
  "is_list s h xs \<Longrightarrow> n \<notin> set (h # xs) \<Longrightarrow> is_list (cds_list_add_tail n h s) h (xs @ [n])"
  using list_add_before [of s h xs "[]" n] by simp

lemma list_del:
  assumes l: "is_list s h (xs @ e # ys)"
  shows "is_list (cds_list_del e s) h (xs @ ys)"
proof -
  have d: "distinct (h # xs @ e # ys)"
    using l by (simp add: is_list_def)
  then have d': "distinct (h # xs @ ys)" by auto
  note ends = cut_ends(1) [of h xs] cut_ends(2) [of ys h] cut_ends(3,4) [OF d']
  have e: "prv s e = before_cut h xs" "nxt s e = after_cut ys h"
    using l by (simp_all only: is_list_cut_node link_def)
  let ?s = "cds_list_del e s"
  have s': "nxt ?s = (nxt s)(before_cut h xs := after_cut ys h)"
      "prv ?s = (prv s)(after_cut ys h := before_cut h xs)"
    using e by (simp_all add: cds_list_del_def cds_list_unlink_def)
  have "linked ?s (h # xs) = linked s (h # xs)"
    by (rule linked_left_frame) (use d s' ends in auto)
  moreover have "linked ?s (ys @ [h]) = linked s (ys @ [h])"
    by (rule linked_right_frame) (use d s' ends in auto)
  moreover have "link ?s (before_cut h xs) (after_cut ys h)"
    using s' by (simp add: link_def)
  moreover have "linked s (h # xs) \<and> linked s (ys @ [h])"
    using l by (simp only: is_list_cut_node)
  ultimately show ?thesis
    unfolding is_list_cut using d' by blast
qed

text \<open>An operation on one list leaves the lists of other nodes alone.\<close>

definition frame :: "addr set \<Rightarrow> store \<Rightarrow> store \<Rightarrow> bool" where
  "frame A s s' \<longleftrightarrow> (\<forall>a. a \<notin> A \<longrightarrow> nxt s' a = nxt s a \<and> prv s' a = prv s a)"

lemma frame_refl [simp]: "frame A s s"
  by (simp add: frame_def)

lemma frame_trans: "frame A s t \<Longrightarrow> frame A t u \<Longrightarrow> frame A s u"
  by (simp add: frame_def)

lemma frame_mono: "frame A s t \<Longrightarrow> A \<subseteq> B \<Longrightarrow> frame B s t"
  by (auto simp: frame_def)

lemma frame_is_list:
  assumes "frame A s s'" and "set (h # xs) \<inter> A = {}"
  shows "is_list s' h xs = is_list s h xs"
proof -
  have "linked s' (h # xs @ [h]) = linked s (h # xs @ [h])"
  proof (rule linked_frame)
    fix a
    assume "a \<in> set (butlast (h # xs @ [h]))"
    then have "a \<in> set (h # xs)" by (auto dest: in_set_butlastD)
    then show "nxt s' a = nxt s a"
      using assms by (auto simp: frame_def)
  next
    fix a
    assume "a \<in> set (tl (h # xs @ [h]))"
    then show "prv s' a = prv s a"
      using assms by (auto simp: frame_def)
  qed
  then show ?thesis by (simp add: is_list_def)
qed

lemma frame_add:
  assumes "is_list s h (xs @ ys)"
  shows "frame (insert n (set (h # xs @ ys))) s (cds_list_add n (before_cut h xs) s)"
proof -
  have "link s (before_cut h xs) (after_cut ys h)"
    using assms(1) by (simp add: is_list_cut)
  then show ?thesis
    using cut_ends(1) [of h xs] cut_ends(2) [of ys h]
    by (auto simp: frame_def cds_list_add_def Let_def link_def)
qed

lemma frame_add_tail:
  assumes "is_list s h (xs @ ys)"
  shows "frame (insert n (set (h # xs @ ys))) s (cds_list_add_tail n (after_cut ys h) s)"
proof -
  have "link s (before_cut h xs) (after_cut ys h)"
    using assms(1) by (simp add: is_list_cut)
  then show ?thesis
    using cut_ends(1) [of h xs] cut_ends(2) [of ys h]
    by (auto simp: frame_def cds_list_add_tail_def Let_def link_def)
qed

lemma frame_del:
  assumes "is_list s h (xs @ e # ys)"
  shows "frame (set (h # xs @ ys)) s (cds_list_del e s)"
proof -
  have "prv s e = before_cut h xs" "nxt s e = after_cut ys h"
    using assms by (simp_all only: is_list_cut_node link_def)
  then show ?thesis
    using cut_ends(1) [of h xs] cut_ends(2) [of ys h]
    by (auto simp: frame_def cds_list_del_def cds_list_unlink_def)
qed

text \<open>A circular list may be read from any of its nodes.\<close>

lemma list_rotate: "is_list s h (x # xs) \<longleftrightarrow> is_list s x (xs @ [h])"
  using linked_append [of s "x # xs @ [h]" "[x]"] by (auto simp: is_list_def)

lemma list_unlink_frame:
  assumes "is_list s h (xs @ e # ys)" and "is_list s k zs"
    and "set (k # zs) \<inter> set (h # xs @ ys) = {}"
  shows "is_list (cds_list_del e s) k zs"
  using frame_is_list [OF frame_del [OF assms(1)] assms(3)] assms(2) by simp

lemma list_move:
  assumes "is_list s h (xs @ e # ys)" and "is_list s k zs"
    and "set (k # zs) \<inter> set (h # xs @ e # ys) = {}"
  shows "is_list (cds_list_move e k s) h (xs @ ys) \<and> is_list (cds_list_move e k s) k (e # zs)"
proof -
  let ?t = "cds_list_del e s"
  have move: "cds_list_move e k s = cds_list_add e k ?t"
    by (simp add: cds_list_move_def cds_list_del_def)
  have e: "e \<notin> set (h # xs @ ys)"
    using assms(1) by (simp add: is_list_def)
  have t: "is_list ?t h (xs @ ys)" "is_list ?t k zs"
    using list_del [OF assms(1)] list_unlink_frame [OF assms(1,2)] assms(3) by auto
  have "e \<notin> set (k # zs)"
    using assms(3) by auto
  then have k: "is_list (cds_list_add e k ?t) k (e # zs)"
    using list_add_head [OF t(2)] by simp
  have fr: "frame (insert e (set (k # zs))) ?t (cds_list_add e k ?t)"
    using frame_add [of ?t k "[]" zs e] t(2) by simp
  have "set (h # xs @ ys) \<inter> insert e (set (k # zs)) = {}"
    using assms(3) e by auto
  from frame_is_list [OF fr this] t(1) k move show ?thesis by simp
qed

lemma list_replace:
  assumes l: "is_list s h (xs @ e # ys)" and n: "n \<notin> set (h # xs @ e # ys)"
  shows "is_list (cds_list_replace e n s) h (xs @ n # ys)"
proof -
  have d: "distinct (h # xs @ e # ys)"
    using l by (simp add: is_list_def)
  then have d': "distinct (h # xs @ ys)" by auto
  note ends = cut_ends(1) [of h xs] cut_ends(2) [of ys h] cut_ends(3,4) [OF d']
  have e: "prv s e = before_cut h xs" "nxt s e = after_cut ys h"
    using l by (simp_all only: is_list_cut_node link_def)
  let ?s = "cds_list_replace e n s"
  have s': "nxt ?s = (nxt s)(n := after_cut ys h, before_cut h xs := n)"
      "prv ?s = (prv s)(n := before_cut h xs, after_cut ys h := n)"
    using e n ends by (auto simp: cds_list_replace_def Let_def fun_eq_iff)
  have "linked ?s (h # xs) = linked s (h # xs)"
    by (rule linked_left_frame) (use d n s' ends in auto)
  moreover have "linked ?s (ys @ [h]) = linked s (ys @ [h])"
    by (rule linked_right_frame) (use d n s' ends in auto)
  moreover have "link ?s (before_cut h xs) n" "link ?s n (after_cut ys h)"
    using n s' ends by (auto simp: link_def)
  moreover have "linked s (h # xs) \<and> linked s (ys @ [h])"
    using l by (simp only: is_list_cut_node)
  ultimately show ?thesis
    unfolding is_list_cut_node using d n by auto
qed

lemma list_empty: "is_list s h xs \<Longrightarrow> cds_list_empty s h \<longleftrightarrow> xs = []"
  by (cases xs) (auto simp: cds_list_empty_def is_list_def link_def)

lemma list_splice:
  assumes a: "is_list s a xs" and h: "is_list s h ys"
    and dj: "set (a # xs) \<inter> set (h # ys) = {}"
  shows "is_list (cds_list_splice a h s) h (xs @ ys)"
proof (cases "xs = []")
  case True
  then show ?thesis
    using a h by (simp add: cds_list_splice_def is_list_def link_def)
next
  case False
  define x1 xn y1 where "x1 = hd xs" and "xn = last xs" and "y1 = after_cut ys h"
  let ?s = "cds_list_splice a h s"
  have mem: "x1 \<in> set xs" "xn \<in> set xs" "y1 \<in> set (h # ys)"
    using False cut_ends(2) [of ys h] by (simp_all add: x1_def xn_def y1_def)
  have xs: "linked s xs" "link s a x1" "link s xn a"
    using a False linked_append [of s "a # xs" "[a]"] linked_append [of s "[a]" xs]
    by (auto simp: is_list_def x1_def xn_def)
  have ys: "linked s (ys @ [h])" "link s h y1"
    using h is_list_cut [of s h "[]" ys] by (auto simp: y1_def)
  have d: "distinct (a # xs)" "distinct (h # ys)"
    using a h by (auto simp: is_list_def)
  have ne: "a \<noteq> x1" "a \<noteq> h" "x1 \<noteq> y1" "xn \<noteq> h" "a \<noteq> y1"
    using mem dj d by auto
  have "a \<noteq> nxt s a"
    using xs(2) ne by (simp add: link_def)
  then have s': "nxt ?s = (nxt s)(xn := y1, h := x1)" "prv ?s = (prv s)(x1 := h, y1 := xn)"
    using xs ys ne mem dj d by (auto simp: cds_list_splice_def link_def Let_def fun_eq_iff)
  have "linked ?s xs = linked s xs"
  proof (rule linked_frame)
    fix b
    assume b: "b \<in> set (butlast xs)"
    have "distinct (butlast xs @ [xn])"
      using d(1) False by (simp add: xn_def)
    then show "nxt ?s b = nxt s b"
      using b in_set_butlastD [OF b] s' dj by auto
  next
    fix b
    assume b: "b \<in> set (tl xs)"
    then have "b \<noteq> x1" "b \<in> set xs"
      using d(1) False by (cases xs; auto simp: x1_def)+
    then show "prv ?s b = prv s b"
      using s' mem(3) dj by auto
  qed
  moreover have "linked ?s (ys @ [h]) = linked s (ys @ [h])"
    by (rule linked_right_frame) (use d s' dj mem y1_def in auto)
  moreover have "link ?s h x1" "link ?s xn y1"
    using s' ne dj mem by (auto simp: link_def)
  ultimately have "linked ?s (h # (xs @ (ys @ [h])))"
    using xs ys False linked_append [of ?s xs "ys @ [h]"] linked_append [of ?s "[h]" "xs @ (ys @ [h])"]
    by (simp add: x1_def xn_def y1_def)
  then show ?thesis
    using d dj by (auto simp: is_list_def)
qed

text \<open>The loops visit the nodes in order, and they come to an end.\<close>

lemma walk_forward:
  "linked s (xs @ [h]) \<Longrightarrow> h \<notin> set xs \<Longrightarrow> walk_from (nxt s) (after_cut xs h) h = Some xs"
proof (induction xs)
  case Nil
  then show ?case by (simp add: walk_from.simps)
next
  case (Cons x xs)
  from Cons.prems have "nxt s x = after_cut xs h" "linked s (xs @ [h])"
    by (cases xs; auto simp: link_def)+
  with Cons show ?case
    by (subst walk_from.simps) simp
qed

lemma walk_backward:
  "linked s (h # xs) \<Longrightarrow> h \<notin> set xs \<Longrightarrow> walk_from (prv s) (before_cut h xs) h = Some (rev xs)"
proof (induction xs rule: rev_induct)
  case Nil
  then show ?case by (simp add: walk_from.simps)
next
  case (snoc x xs)
  have "linked s (h # xs)" and "link s (before_cut h xs) x"
    using snoc.prems(1) linked_append [of s "h # xs" "[x]"] by auto
  with snoc have "prv s x = before_cut h xs" "walk_from (prv s) (before_cut h xs) h = Some (rev xs)"
    by (auto simp: link_def)
  with snoc.prems(2) show ?case
    by (subst walk_from.simps) simp
qed

lemma for_each_law: "is_list s h xs \<Longrightarrow> cds_list_for_each s h = Some xs"
  using is_list_cut [of s h "[]" xs] walk_forward [of s xs h]
  by (auto simp: cds_list_for_each_def link_def)

lemma for_each_prev_law: "is_list s h xs \<Longrightarrow> cds_list_for_each_prev s h = Some (rev xs)"
  using is_list_cut [of s h xs "[]"] walk_backward [of s h xs]
  by (auto simp: cds_list_for_each_prev_def link_def)

section \<open>The interface of the schedulers' lists\<close>

text \<open>
  What the schedulers need of a list of programs: adding at either end, taking a given
  member out, and a loop that visits the members in order. \<open>rep s l xs\<close>: in state \<open>s\<close> the
  list \<open>l\<close> holds \<open>xs\<close>.
\<close>

locale prog_queue =
  fixes rep :: "'s \<Rightarrow> 'a \<Rightarrow> 'a list \<Rightarrow> bool"
    and put_first :: "'a \<Rightarrow> 'a \<Rightarrow> 's \<Rightarrow> 's"
    and put_last :: "'a \<Rightarrow> 'a \<Rightarrow> 's \<Rightarrow> 's"
    and take_out :: "'a \<Rightarrow> 's \<Rightarrow> 's"
    and visit :: "'s \<Rightarrow> 'a \<Rightarrow> 'a list option"
  assumes put_first_law: "rep s l xs \<Longrightarrow> n \<notin> set (l # xs) \<Longrightarrow> rep (put_first n l s) l (n # xs)"
    and put_last_law: "rep s l xs \<Longrightarrow> n \<notin> set (l # xs) \<Longrightarrow> rep (put_last n l s) l (xs @ [n])"
    and take_out_law: "rep s l (xs @ e # ys) \<Longrightarrow> rep (take_out e s) l (xs @ ys)"
    and visit_law: "rep s l xs \<Longrightarrow> visit s l = Some xs"
    and rep_distinct: "rep s l xs \<Longrightarrow> distinct (l # xs)"
begin

fun put_all_last :: "'a list \<Rightarrow> 'a \<Rightarrow> 's \<Rightarrow> 's" where
  "put_all_last [] l s = s"
| "put_all_last (n # ns) l s = put_all_last ns l (put_last n l s)"

fun take_all_out :: "'a list \<Rightarrow> 's \<Rightarrow> 's" where
  "take_all_out [] s = s"
| "take_all_out (n # ns) s = take_all_out ns (take_out n s)"

lemma put_all_last_law:
  "rep s l xs \<Longrightarrow> distinct ns \<Longrightarrow> set ns \<inter> set (l # xs) = {} \<Longrightarrow> rep (put_all_last ns l s) l (xs @ ns)"
proof (induction ns arbitrary: s xs)
  case Nil
  then show ?case by simp
next
  case (Cons n ns)
  then have "rep (put_last n l s) l (xs @ [n])"
    by (intro put_last_law) auto
  from Cons.IH [OF this] Cons.prems show ?case by auto
qed

lemma take_out_remove1:
  assumes "rep s l xs" and "e \<in> set xs"
  shows "rep (take_out e s) l (remove1 e xs)"
proof -
  obtain ys zs where xs: "xs = ys @ e # zs" and "e \<notin> set ys"
    using split_list_first [OF assms(2)] by blast
  then have "remove1 e xs = ys @ zs"
    by (simp add: remove1_append)
  with xs take_out_law [of s l ys e zs] assms(1) show ?thesis by simp
qed

lemma take_all_out_law:
  "rep s l xs \<Longrightarrow> distinct ns \<Longrightarrow> set ns \<subseteq> set xs
    \<Longrightarrow> rep (take_all_out ns s) l (filter (\<lambda>x. x \<notin> set ns) xs)"
proof (induction ns arbitrary: s xs)
  case Nil
  then show ?case by simp
next
  case (Cons n ns)
  have "distinct xs"
    using rep_distinct [OF Cons.prems(1)] by simp
  then have f: "remove1 n xs = filter (\<lambda>x. x \<noteq> n) xs"
    by (rule distinct_remove1_removeAll [THEN trans]) (simp add: removeAll_filter_not_eq eq_commute)
  have "rep (take_out n s) l (filter (\<lambda>x. x \<noteq> n) xs)"
    using take_out_remove1 [OF Cons.prems(1), of n] Cons.prems(3) by (simp add: f)
  from Cons.IH [OF this] Cons.prems show ?case
    by (auto simp: conj_commute)
qed

end

interpretation cds: prog_queue is_list cds_list_add cds_list_add_tail cds_list_del cds_list_for_each
  by unfold_locales
    (rule list_add_head list_add_tail list_del for_each_law is_list_distinct; assumption)+

section \<open>Properties\<close>

text \<open>C12: The list operations are operations on sequences. For two well formed lists with no
  node in common and a node that is in neither, insertion after or before any member, deletion,
  move to the front of another list, replacement and splicing leave well formed lists that hold
  exactly the expected sequence of nodes.\<close>

theorem cds_list_operations:
  assumes "is_list s h (xs @ e # ys)" and "is_list s k zs"
    and "set (k # zs) \<inter> set (h # xs @ e # ys) = {}" and "n \<notin> set (h # xs @ e # ys)"
  shows "is_list (cds_list_add n e s) h (xs @ e # n # ys)
    \<and> is_list (cds_list_add_tail n e s) h (xs @ n # e # ys)
    \<and> is_list (cds_list_del e s) h (xs @ ys) \<and> is_list (cds_list_del e s) k zs
    \<and> is_list (cds_list_move e k s) h (xs @ ys) \<and> is_list (cds_list_move e k s) k (e # zs)
    \<and> is_list (cds_list_replace e n s) h (xs @ n # ys)
    \<and> is_list (cds_list_splice k h s) h (zs @ xs @ e # ys)"
  using list_add [of s h "xs @ [e]" ys n] list_add_before [of s h xs "e # ys" n]
    list_del [OF assms(1)] list_unlink_frame [OF assms(1,2)] list_move [OF assms(1-3)]
    list_replace [OF assms(1,4)] list_splice [OF assms(2,1,3)] assms
  by auto

definition example_store :: store where
  "example_store = \<lparr>nxt = (\<lambda>_. 0)(0 := 1, 1 := 2, 2 := 0, 3 := 4, 4 := 3),
                    prv = (\<lambda>_. 0)(0 := 2, 1 := 0, 2 := 1, 3 := 4, 4 := 3), brk = 6\<rparr>"

lemma example_store_lists: "is_list example_store 0 [1, 2]" "is_list example_store 3 [4]"
  by (simp_all add: is_list_def link_def example_store_def)

theorem cds_list_operations_witness:
  "is_list (cds_list_move 1 3 example_store) 0 [2]
   \<and> is_list (cds_list_move 1 3 example_store) 3 [1, 4]
   \<and> is_list (cds_list_splice 3 0 example_store) 0 [4, 1, 2]"
  using cds_list_operations [of example_store 0 "[]" 1 "[2]" 3 "[4]" 5] example_store_lists
  by simp

text \<open>C13: Loops over a list that is built with \<open>cds_list_add_tail\<close> and thinned out with
  \<open>cds_list_del\<close> come to an end, forwards and backwards, and visit the nodes that remain, in
  the order they were added.\<close>

theorem cds_list_loops_terminate:
  assumes "distinct (h # ns)" and "distinct ds" and "set ds \<subseteq> set ns"
  shows "let s' = cds.take_all_out ds (cds.put_all_last ns h (CDS_INIT_LIST_HEAD h s));
             left = filter (\<lambda>x. x \<notin> set ds) ns
         in cds_list_for_each s' h = Some left \<and> cds_list_for_each_prev s' h = Some (rev left)
          \<and> (cds_list_empty s' h \<longleftrightarrow> set ns \<subseteq> set ds)"
proof -
  have "is_list (cds.put_all_last ns h (CDS_INIT_LIST_HEAD h s)) h ([] @ ns)"
    by (rule cds.put_all_last_law [OF list_init]) (use assms(1) in auto)
  then have "is_list (cds.take_all_out ds (cds.put_all_last ns h (CDS_INIT_LIST_HEAD h s))) h
      (filter (\<lambda>x. x \<notin> set ds) ns)"
    using cds.take_all_out_law [OF _ assms(2,3)] by simp
  then show ?thesis
    using for_each_law for_each_prev_law list_empty by (auto simp: Let_def filter_empty_conv)
qed

theorem cds_list_loops_terminate_witness:
  "cds_list_for_each (cds.take_all_out [2] (cds.put_all_last [1, 2, 3] 0
     (CDS_INIT_LIST_HEAD 0 example_store))) 0 = Some [1, 3]"
  using cds_list_loops_terminate [of 0 "[1, 2, 3]" "[2]" example_store] by (simp add: Let_def)

text \<open>\<open>cds_list_replace_init\<close> puts a new head in the place of the head of a list that is
  not empty; for an empty list it does not make the new head an empty list: the new head is
  left pointing at the old one, and a loop over it never comes back to it.\<close>

theorem cds_list_replace_init_head:
  assumes "is_list s old xs" and "new \<notin> set (old # xs)"
  shows "is_list (cds_list_replace_init old new s) old []
    \<and> (xs \<noteq> [] \<longrightarrow> is_list (cds_list_replace_init old new s) new xs)
    \<and> (xs = [] \<longrightarrow> nxt (cds_list_replace_init old new s) new = old
          \<and> \<not> cds_list_empty (cds_list_replace_init old new s) new)"
proof (cases xs)
  case Nil
  then show ?thesis
    using assms
    by (auto simp: cds_list_replace_init_def cds_list_del_def cds_list_unlink_def cds_list_empty_def
        cds_list_add_tail_def is_list_def link_def Let_def CDS_INIT_LIST_HEAD_def)
next
  case (Cons x ys)
  let ?t = "cds_list_add_tail new x (cds_list_del old s)"
  have r: "is_list s x (ys @ old # [])"
    using assms(1) Cons list_rotate by simp
  have "is_list ?t x (ys @ [new])"
    using list_add_tail [OF list_del [OF r]] assms Cons by simp
  then have t: "is_list ?t new xs"
    using Cons list_rotate by simp
  have x: "nxt s old = x"
    using assms(1) Cons by (simp add: is_list_def link_def)
  have "frame {old} ?t (CDS_INIT_LIST_HEAD old ?t)"
    by (simp add: frame_def CDS_INIT_LIST_HEAD_def Let_def)
  moreover have "set (new # xs) \<inter> {old} = {}"
    using assms by (auto simp: is_list_def)
  ultimately have "is_list (CDS_INIT_LIST_HEAD old ?t) new xs"
    using frame_is_list t by blast
  then show ?thesis
    using Cons x list_init [of old ?t] by (simp add: cds_list_replace_init_def Let_def)
qed

theorem cds_list_replace_init_head_witness:
  "is_list (cds_list_replace_init 3 5 example_store) 5 [4]"
  using cds_list_replace_init_head [OF example_store_lists(2), of 5] by simp

end
