(* ===== verification/CQsort.thy ===== *)
theory CQsort
  imports CdsList
begin

text \<open>
  The in-place quicksort of \<open>src/scheds/c_qsort.c\<close>, on the pointer store of \<open>CdsList\<close>. The
  scans and the partition loop are partial functions (a scan that ran past the list head
  would read it as a program), so that termination is something to prove; the recursion
  allocates two temporary list heads for every partition. The policies sort their program
  lists with it, through the global \<open>qsrt_get_val\<close>, here the parameter \<open>val\<close>. The last part
  states the result as what the policies use: a stable interface "sort this list of
  programs" (\<open>qsrt_list\<close>).
\<close>

section \<open>The code\<close>

datatype sort_type = ASC | DESC

text \<open>The conditions of the two scans: \<open>v\<close> belongs strictly before \<open>w\<close>.\<close>

definition before :: "sort_type \<Rightarrow> int \<Rightarrow> int \<Rightarrow> bool" where
  "before qtype v w \<longleftrightarrow> (qtype = DESC \<and> v > w) \<or> (qtype = ASC \<and> v < w)"

partial_function (option) scan_up ::
  "store \<Rightarrow> (addr \<Rightarrow> int) \<Rightarrow> sort_type \<Rightarrow> int \<Rightarrow> addr \<Rightarrow> addr \<Rightarrow> addr \<Rightarrow> bool \<Rightarrow> (addr \<times> bool) option" where
  "scan_up s val qtype pivot list i j flag =
     (let i = nxt s i;
          flag = (flag \<or> ((prv s i = j \<or> i = j) \<and> j \<noteq> list))
      in if before qtype (val i) pivot then scan_up s val qtype pivot list i j flag
         else Some (i, flag))"

partial_function (option) scan_down ::
  "store \<Rightarrow> (addr \<Rightarrow> int) \<Rightarrow> sort_type \<Rightarrow> int \<Rightarrow> addr \<Rightarrow> addr \<Rightarrow> addr \<Rightarrow> bool \<Rightarrow> (addr \<times> bool) option" where
  "scan_down s val qtype pivot list i j flag =
     (let j = prv s j;
          flag = (flag \<or> ((nxt s j = i \<or> i = j) \<and> i \<noteq> list))
      in if before qtype pivot (val j) then scan_down s val qtype pivot list i j flag
         else Some (j, flag))"

definition swap_nodes :: "addr \<Rightarrow> addr \<Rightarrow> store \<Rightarrow> store" where
  "swap_nodes i j s =
     (let prev = prv s i;
          s = cds_list_del i s;
          s = cds_list_add i j s;
          s = cds_list_del j s
      in cds_list_add j prev s)"

partial_function (option) partition_loop ::
  "store \<Rightarrow> (addr \<Rightarrow> int) \<Rightarrow> sort_type \<Rightarrow> int \<Rightarrow> addr \<Rightarrow> addr \<Rightarrow> addr \<Rightarrow> (store \<times> addr) option" where
  "partition_loop s val qtype pivot list i j =
     Option.bind (scan_up s val qtype pivot list i j False) (\<lambda>(i, flag).
     Option.bind (scan_down s val qtype pivot list i j flag) (\<lambda>(j, flag).
       if \<not> flag then partition_loop (swap_nodes i j s) val qtype pivot list j i
       else Some (s, j)))"

definition qsrt_partition ::
  "store \<Rightarrow> (addr \<Rightarrow> int) \<Rightarrow> addr \<Rightarrow> sort_type \<Rightarrow> (store \<times> addr) option" where
  "qsrt_partition s val list qtype =
     partition_loop s val qtype (val (nxt s list)) list list list"

definition singleton :: "store \<Rightarrow> addr \<Rightarrow> bool" where
  "singleton s list \<longleftrightarrow> nxt s (nxt s list) = list"

definition list_malloc :: "(addr \<Rightarrow> bool) \<Rightarrow> store \<Rightarrow> (addr \<times> store) res" where
  "list_malloc mem_ok s =
     (if mem_ok (brk s) then Inr (brk s, s\<lparr>brk := Suc (brk s)\<rparr>) else Inl (ExitWith 1))"

text \<open>The two halves of the list get the temporary heads, and afterwards the list is joined.\<close>

definition split_lists :: "addr \<Rightarrow> addr \<Rightarrow> addr \<Rightarrow> addr \<Rightarrow> store \<Rightarrow> store" where
  "split_lists list q head tail s =
     (let s = set_next head (nxt s list) s;
          s = set_prev head q s;
          s = set_next tail (nxt s q) s;
          s = set_prev tail (prv s list) s;
          s = set_prev (nxt s head) head s;
          s = set_next (prv s head) head s;
          s = set_prev (nxt s tail) tail s
      in set_next (prv s tail) tail s)"

definition join_lists :: "addr \<Rightarrow> addr \<Rightarrow> addr \<Rightarrow> store \<Rightarrow> store" where
  "join_lists list head tail s =
     (let s = set_next list (nxt s head) s;
          s = set_prev (nxt s head) list s;
          s = set_prev (nxt s tail) (prv s head) s;
          s = set_next (prv s head) (nxt s tail) s;
          s = set_prev list (prv s tail) s
      in set_next (prv s tail) list s)"

partial_function (option) qsrt_quicksort ::
  "(addr \<Rightarrow> bool) \<Rightarrow> (addr \<Rightarrow> int) \<Rightarrow> addr \<Rightarrow> sort_type \<Rightarrow> store \<Rightarrow> store res option" where
  "qsrt_quicksort mem_ok val list qtype s =
     (if singleton s list then Some (Inr s)
      else case list_malloc mem_ok s of
        Inl e \<Rightarrow> Some (Inl e)
      | Inr (head, s1) \<Rightarrow> (case list_malloc mem_ok s1 of
          Inl e \<Rightarrow> Some (Inl e)
        | Inr (tail, s2) \<Rightarrow>
            Option.bind (qsrt_partition s2 val list qtype) (\<lambda>(s3, q).
            Option.bind (qsrt_quicksort mem_ok val head qtype (split_lists list q head tail s3))
              (\<lambda>r1. case r1 of Inl e \<Rightarrow> Some (Inl e) | Inr s4 \<Rightarrow>
            Option.bind (qsrt_quicksort mem_ok val tail qtype s4)
              (\<lambda>r2. case r2 of Inl e \<Rightarrow> Some (Inl e) | Inr s5 \<Rightarrow>
                Some (Inr (join_lists list head tail s5)))))))"

section \<open>The same algorithm on the sequence of programs\<close>

text \<open>
  What the two scans and the swaps do to the sequence of nodes. The loop is at a state where
  \<open>i\<close> and \<open>j\<close> have just been swapped: \<open>as\<close> and \<open>i\<close> are done on the left, \<open>j\<close> and \<open>bs\<close> on the
  right, \<open>ms\<close> lies between them. The answer is the pair of the two parts. The policies, whose
  program lists are sequences, sort with \<open>qsrt_list\<close>.
\<close>

lemma length_dropWhile_Cons: "dropWhile P xs = y # ys \<Longrightarrow> length ys < length xs"
  using length_dropWhile_le [of P xs] by simp

function list_partition_loop ::
  "('a \<Rightarrow> int) \<Rightarrow> sort_type \<Rightarrow> int \<Rightarrow> 'a list \<Rightarrow> 'a \<Rightarrow> 'a list \<Rightarrow> 'a \<Rightarrow> 'a list \<Rightarrow> 'a list \<times> 'a list" where
  "list_partition_loop val qtype pivot as i ms j bs =
     (let us = takeWhile (\<lambda>m. before qtype (val m) pivot) ms in
      case dropWhile (\<lambda>m. before qtype (val m) pivot) ms of
        [] \<Rightarrow> (as @ i # ms, j # bs)
      | e # m2 \<Rightarrow>
          (case dropWhile (\<lambda>m. before qtype pivot (val m)) (rev m2) of
             [] \<Rightarrow> if before qtype pivot (val e) then (as @ i # us, e # m2 @ j # bs)
                   else (as @ i # us @ [e], m2 @ j # bs)
           | q # rn1 \<Rightarrow> list_partition_loop val qtype pivot (as @ i # us) q (rev rn1) e
               (rev (takeWhile (\<lambda>m. before qtype pivot (val m)) (rev m2)) @ j # bs)))"
  by pat_completeness auto

termination
proof (relation "measure (\<lambda>(val, qtype, pivot, as, i, ms, j, bs). length ms)", goal_cases)
  case 1
  then show ?case by simp
next
  case (2 val qtype pivot as i ms j bs us e m2 q rn1)
  from length_dropWhile_Cons [OF 2(2)] length_dropWhile_Cons [OF 2(3)] show ?case by simp
qed

fun list_partition :: "('a \<Rightarrow> int) \<Rightarrow> sort_type \<Rightarrow> 'a list \<Rightarrow> 'a list \<times> 'a list" where
  "list_partition val qtype [] = ([], [])"
| "list_partition val qtype (p # ms) =
     (case dropWhile (\<lambda>m. before qtype (val p) (val m)) (rev ms) of
        [] \<Rightarrow> ([p], ms)
      | q # rn1 \<Rightarrow> list_partition_loop val qtype (val p) [] q (rev rn1) p
          (rev (takeWhile (\<lambda>m. before qtype (val p) (val m)) (rev ms))))"

declare list_partition_loop.simps [simp del]

lemma mset_take_drop_While: "mset xs = mset (takeWhile P xs) + mset (dropWhile P xs)"
  by (metis mset_append takeWhile_dropWhile_id)

lemma list_partition_loop_mset:
  "list_partition_loop val qtype pivot as i ms j bs = (l, r) \<Longrightarrow>
     mset l + mset r = mset (as @ i # ms @ j # bs) \<and> l \<noteq> [] \<and> r \<noteq> []"
proof (induction val qtype pivot as i ms j bs rule: list_partition_loop.induct)
  case (1 val qtype pivot as i ms j bs)
  let ?up = "\<lambda>m. before qtype (val m) pivot" and ?down = "\<lambda>m. before qtype pivot (val m)"
  show ?case
  proof (cases "dropWhile ?up ms")
    case Nil
    with "1.prems" show ?thesis
      by (auto simp: list_partition_loop.simps [of val qtype pivot as i ms j bs])
  next
    case (Cons e m2)
    have ms: "mset ms = mset (takeWhile ?up ms) + mset (e # m2)"
      using mset_take_drop_While [of ms ?up] Cons by simp
    show ?thesis
    proof (cases "dropWhile ?down (rev m2)")
      case Nil
      with Cons "1.prems" ms show ?thesis
        by (auto simp: list_partition_loop.simps [of val qtype pivot as i ms j bs] Let_def
            split: if_splits)
    next
      case q: (Cons q rn1)
      have "mset m2 = mset (takeWhile ?down (rev m2)) + mset (q # rn1)"
        using mset_take_drop_While [of "rev m2" ?down] q by simp
      moreover have "mset l + mset r = mset ((as @ i # takeWhile ?up ms) @ q # rev rn1 @ e
          # rev (takeWhile ?down (rev m2)) @ j # bs) \<and> l \<noteq> [] \<and> r \<noteq> []"
        by (rule "1.IH" [OF refl Cons q])
          (use "1.prems" Cons q in \<open>simp add: list_partition_loop.simps [of val qtype pivot as i ms j bs] Let_def\<close>)
      ultimately show ?thesis
        using ms by simp
    qed
  qed
qed

lemma list_partition_mset:
  assumes "list_partition val qtype xs = (l, r)" and "2 \<le> length xs"
  shows "mset l + mset r = mset xs \<and> l \<noteq> [] \<and> r \<noteq> []"
proof -
  obtain p ms where xs: "xs = p # ms" "ms \<noteq> []"
    using assms(2) by (cases xs; cases "tl xs") auto
  let ?down = "\<lambda>m. before qtype (val p) (val m)"
  show ?thesis
  proof (cases "dropWhile ?down (rev ms)")
    case Nil
    with assms(1) xs show ?thesis by auto
  next
    case (Cons q rn1)
    have "mset ms = mset (takeWhile ?down (rev ms)) + mset (q # rn1)"
      using mset_take_drop_While [of "rev ms" ?down] Cons by simp
    with Cons assms(1) xs show ?thesis
      using list_partition_loop_mset [of val qtype "val p" "[]" q "rev rn1" p _ l r] by simp
  qed
qed

lemma list_partition_length:
  assumes "list_partition val qtype xs = (l, r)" and "2 \<le> length xs"
  shows "length l < length xs" "length r < length xs"
proof -
  have "size (mset l + mset r) = size (mset xs)" and "l \<noteq> []" and "r \<noteq> []"
    using list_partition_mset [OF assms] by auto
  then show "length l < length xs" "length r < length xs"
    by (cases l; cases r; simp)+
qed

function qsrt_list :: "('a \<Rightarrow> int) \<Rightarrow> sort_type \<Rightarrow> 'a list \<Rightarrow> 'a list" where
  "qsrt_list val qtype xs =
     (if length xs < 2 then xs
      else case list_partition val qtype xs of
        (l, r) \<Rightarrow> qsrt_list val qtype l @ qsrt_list val qtype r)"
  by pat_completeness auto

termination
  by (relation "measure (\<lambda>(val, qtype, xs). length xs)")
    (auto dest: list_partition_length [OF sym])

declare qsrt_list.simps [simp del]

lemma mset_qsrt_list [simp]: "mset (qsrt_list val qtype xs) = mset xs"
proof (induction val qtype xs rule: qsrt_list.induct)
  case (1 val qtype xs)
  obtain l r where lr: "list_partition val qtype xs = (l, r)" by fastforce
  show ?case
  proof (cases "length xs < 2")
    case True
    then show ?thesis by (simp add: qsrt_list.simps [of val qtype xs])
  next
    case False
    with list_partition_mset [OF lr] "1.IH" [OF False lr [symmetric]] lr show ?thesis
      by (simp add: qsrt_list.simps [of val qtype xs])
  qed
qed

lemma set_qsrt_list [simp]: "set (qsrt_list val qtype xs) = set xs"
  using mset_eq_setD [OF mset_qsrt_list] .

lemma length_qsrt_list [simp]: "length (qsrt_list val qtype xs) = length xs"
  using mset_eq_length [OF mset_qsrt_list] .

text \<open>The two ways a scan can cut a sequence, and the cut determines both halves.\<close>

lemma first_cut:
  assumes "\<forall>u \<in> set us. P u" and "\<not> P e"
  shows "takeWhile P (us @ e # vs) = us" "dropWhile P (us @ e # vs) = e # vs"
  using assms by (induction us) auto

lemma last_cut:
  assumes "\<forall>v \<in> set vs. P v" and "\<not> P q"
  shows "rev (takeWhile P (rev (us @ q # vs))) = vs" "dropWhile P (rev (us @ q # vs)) = q # rev us"
  using first_cut [of "rev vs" P q "rev us"] assms by auto

lemma no_cut:
  assumes "\<forall>v \<in> set vs. P v"
  shows "dropWhile P (rev vs) = []" "dropWhile P vs = []" "takeWhile P vs = vs"
  using assms by auto

section \<open>Partition\<close>

lemma before_irrefl [simp]: "\<not> before qtype v v"
  by (simp add: before_def)

lemma before_asym: "before qtype v w \<Longrightarrow> \<not> before qtype w v"
  by (auto simp: before_def)

lemma not_before_trans:
  "\<not> before qtype p a \<Longrightarrow> \<not> before qtype b p \<Longrightarrow> \<not> before qtype b a"
  by (cases qtype) (auto simp: before_def)

text \<open>The sequence-level algorithm sorts whatever its elements are.\<close>

lemma list_partition_loop_bounds:
  "list_partition_loop val qtype pivot as i ms j bs = (l, r) \<Longrightarrow>
     \<forall>a \<in> set (as @ [i]). \<not> before qtype pivot (val a) \<Longrightarrow>
     \<forall>b \<in> set (j # bs). \<not> before qtype (val b) pivot \<Longrightarrow>
     (\<forall>a \<in> set l. \<not> before qtype pivot (val a)) \<and> (\<forall>b \<in> set r. \<not> before qtype (val b) pivot)"
proof (induction val qtype pivot as i ms j bs rule: list_partition_loop.induct)
  case (1 val qtype pivot as i ms j bs)
  let ?up = "\<lambda>m. before qtype (val m) pivot" and ?down = "\<lambda>m. before qtype pivot (val m)"
  have us: "\<forall>a \<in> set (takeWhile ?up ms). \<not> ?down a"
    using before_asym set_takeWhileD by metis
  show ?case
  proof (cases "dropWhile ?up ms")
    case Nil
    have "l = as @ i # ms" "r = j # bs"
      using "1.prems"(1) unfolding list_partition_loop.simps [of val qtype pivot as i ms j bs] Nil by simp_all
    moreover have "takeWhile ?up ms = ms"
      using takeWhile_dropWhile_id [of ?up ms] unfolding Nil by simp
    from us [unfolded this] have "\<forall>a \<in> set ms. \<not> ?down a" .
    ultimately show ?thesis
      using "1.prems"(2,3) by auto
  next
    case (Cons e m2)
    have e: "\<not> ?up e"
      using Cons hd_dropWhile [of ?up ms] by simp
    have down: "\<forall>b \<in> set (takeWhile ?down (rev m2)). \<not> ?up b"
      using before_asym set_takeWhileD by metis
    show ?thesis
    proof (cases "dropWhile ?down (rev m2)")
      case Nil
      have "l = as @ i # takeWhile ?up ms \<and> r = e # m2 @ j # bs \<and> ?down e
          \<or> l = as @ i # takeWhile ?up ms @ [e] \<and> r = m2 @ j # bs \<and> \<not> ?down e"
        using "1.prems"(1)
        unfolding list_partition_loop.simps [of val qtype pivot as i ms j bs] Cons list.case Nil Let_def
        by (simp split: if_splits)
      moreover have "takeWhile ?down (rev m2) = rev m2"
        using takeWhile_dropWhile_id [of ?down "rev m2"] unfolding Nil by simp
      from down [unfolded this] have "\<forall>b \<in> set (rev m2). \<not> ?up b" .
      ultimately show ?thesis
        using us e "1.prems"(2,3) by auto
    next
      case q: (Cons q rn1)
      have "\<not> ?down q"
        using q hd_dropWhile [of ?down "rev m2"] by simp
      then show ?thesis
        by (intro "1.IH" [OF refl Cons q])
          (use "1.prems" Cons q us e down in \<open>auto simp: list_partition_loop.simps [of val qtype pivot as i ms j bs] Let_def\<close>)
    qed
  qed
qed

lemma list_partition_bounds:
  assumes "list_partition val qtype (p # ms) = (l, r)"
  shows "(\<forall>a \<in> set l. \<not> before qtype (val p) (val a)) \<and> (\<forall>b \<in> set r. \<not> before qtype (val b) (val p))"
proof -
  let ?down = "\<lambda>m. before qtype (val p) (val m)"
  have down: "\<forall>b \<in> set (takeWhile ?down (rev ms)). \<not> before qtype (val b) (val p)"
    using before_asym set_takeWhileD by metis
  show ?thesis
  proof (cases "dropWhile ?down (rev ms)")
    case Nil
    have "l = [p]" "r = ms"
      using assms unfolding list_partition.simps Nil by simp_all
    moreover have "takeWhile ?down (rev ms) = rev ms"
      using takeWhile_dropWhile_id [of ?down "rev ms"] unfolding Nil by simp
    from down [unfolded this] have "\<forall>b \<in> set (rev ms). \<not> before qtype (val b) (val p)" .
    ultimately show ?thesis
      by auto
  next
    case (Cons q rn1)
    then have q: "\<forall>a \<in> set ([] @ [q]). \<not> ?down a"
      using hd_dropWhile [of ?down "rev ms"] by simp
    have p: "\<forall>b \<in> set (p # rev (takeWhile ?down (rev ms))). \<not> before qtype (val b) (val p)"
      using down by simp
    have "list_partition_loop val qtype (val p) [] q (rev rn1) p
        (rev (takeWhile ?down (rev ms))) = (l, r)"
      using assms unfolding list_partition.simps Cons by simp
    from list_partition_loop_bounds [OF this q p] show ?thesis .
  qed
qed

lemma qsrt_list_sorted: "sorted_wrt (\<lambda>a b. \<not> before qtype (val b) (val a)) (qsrt_list val qtype xs)"
proof (induction val qtype xs rule: qsrt_list.induct)
  case (1 val qtype xs)
  obtain l r where lr: "list_partition val qtype xs = (l, r)" by fastforce
  show ?case
  proof (cases "length xs < 2")
    case True
    then show ?thesis
      unfolding qsrt_list.simps [of val qtype xs] by (cases xs; cases "tl xs") simp_all
  next
    case False
    then obtain p ms where "xs = p # ms"
      by (cases xs) auto
    with lr have "(\<forall>a \<in> set l. \<not> before qtype (val p) (val a)) \<and> (\<forall>b \<in> set r. \<not> before qtype (val b) (val p))"
      by (intro list_partition_bounds) simp
    then have "\<forall>a \<in> set l. \<forall>b \<in> set r. \<not> before qtype (val b) (val a)"
      using not_before_trans by blast
    then show ?thesis
      using False lr "1.IH" [OF False lr [symmetric]]
      by (simp add: qsrt_list.simps [of val qtype xs] sorted_wrt_append)
  qed
qed

lemma scan_up_stops:
  assumes "is_list s h (as @ ms @ e # ys)"
    and "\<forall>m \<in> set ms. before qtype (val m) pivot" and "\<not> before qtype (val e) pivot"
  shows "scan_up s val qtype pivot h (before_cut h as) j flag
    = Some (e, flag \<or> (j \<noteq> h \<and> (\<exists>a \<in> set (ms @ [e]). prv s a = j \<or> a = j)))"
  using assms
proof (induction ms arbitrary: as flag)
  case Nil
  have "nxt s (before_cut h as) = e"
    using Nil.prems(1) is_list_cut_node [of s h as e ys] by (simp add: link_def)
  with Nil.prems(3) show ?case
    by (subst scan_up.simps) (auto simp: Let_def)
next
  case (Cons m ms)
  have n: "nxt s (before_cut h as) = m"
    using Cons.prems(1) is_list_cut_node [of s h as m "ms @ e # ys"] by (simp add: link_def)
  have "scan_up s val qtype pivot h (before_cut h (as @ [m])) j flag'
    = Some (e, flag' \<or> (j \<noteq> h \<and> (\<exists>a \<in> set (ms @ [e]). prv s a = j \<or> a = j)))" for flag'
    using Cons.prems by (intro Cons.IH) auto
  with n Cons.prems(2) show ?case
    by (subst scan_up.simps) (auto simp: Let_def)
qed

lemma scan_down_stops:
  assumes "is_list s h (xs @ e # ms @ bs)"
    and "\<forall>m \<in> set ms. before qtype pivot (val m)" and "\<not> before qtype pivot (val e)"
  shows "scan_down s val qtype pivot h i (after_cut bs h) flag
    = Some (e, flag \<or> (i \<noteq> h \<and> (\<exists>a \<in> set (ms @ [e]). nxt s a = i \<or> a = i)))"
  using assms
proof (induction ms arbitrary: bs flag rule: rev_induct)
  case Nil
  have "prv s (after_cut bs h) = e"
    using Nil.prems(1) is_list_cut_node [of s h xs e bs] by (simp add: link_def)
  with Nil.prems(3) show ?case
    by (subst scan_down.simps) (auto simp: Let_def)
next
  case (snoc m ms)
  have n: "prv s (after_cut bs h) = m"
    using snoc.prems(1) is_list_cut_node [of s h "xs @ e # ms" m bs] by (simp add: link_def)
  have "scan_down s val qtype pivot h i (after_cut (m # bs) h) flag'
    = Some (e, flag' \<or> (i \<noteq> h \<and> (\<exists>a \<in> set (ms @ [e]). nxt s a = i \<or> a = i)))" for flag'
    using snoc.prems by (intro snoc.IH) auto
  with n snoc.prems(2) show ?case
    by (subst scan_down.simps) (auto simp: Let_def)
qed

lemma swap_nodes_list:
  assumes l: "is_list s h (as @ e # ms @ f # bs)"
  shows "is_list (swap_nodes e f s) h (as @ f # ms @ e # bs)
    \<and> frame (set (h # as @ e # ms @ f # bs)) s (swap_nodes e f s)
    \<and> brk (swap_nodes e f s) = brk s"
proof -
  let ?A = "set (h # as @ e # ms @ f # bs)"
  have d: "distinct (h # as @ e # ms @ f # bs)"
    using l by (simp add: is_list_def)
  have prev: "prv s e = before_cut h as"
    using l is_list_cut_node [of s h as e "ms @ f # bs"] by (simp add: link_def)
  define s1 s2 s3 where "s1 = cds_list_del e s" and "s2 = cds_list_add e f s1"
    and "s3 = cds_list_del f s2"
  have l1: "is_list s1 h (as @ ms @ f # bs)"
    using list_del [OF l] by (simp add: s1_def)
  have l2: "is_list s2 h ((as @ ms) @ f # e # bs)"
    using list_add [of s1 h "as @ ms @ [f]" bs e] l1 d by (simp add: s2_def)
  have l3: "is_list s3 h (as @ (ms @ e # bs))"
    using list_del [OF l2] by (simp add: s3_def)
  have l4: "is_list (cds_list_add f (before_cut h as) s3) h (as @ f # ms @ e # bs)"
    by (rule list_add [OF l3]) (use d in auto)
  have swap: "swap_nodes e f s = cds_list_add f (before_cut h as) s3"
    by (simp add: swap_nodes_def prev s1_def s2_def s3_def Let_def)
  have "frame ?A s s1"
    unfolding s1_def by (rule frame_mono [OF frame_del [OF l]]) auto
  moreover have "frame ?A s1 s2"
  proof -
    have "is_list s1 h ((as @ ms @ [f]) @ bs)"
      using l1 by simp
    from frame_add [OF this, of e] have "frame (insert e (set (h # (as @ ms @ [f]) @ bs))) s1 s2"
      by (simp add: s2_def)
    then show ?thesis
      by (rule frame_mono) auto
  qed
  moreover have "frame ?A s2 s3"
    unfolding s3_def by (rule frame_mono [OF frame_del [OF l2]]) auto
  moreover have "frame ?A s3 (swap_nodes e f s)"
    unfolding swap by (rule frame_mono [OF frame_add [OF l3]]) auto
  ultimately have "frame ?A s (swap_nodes e f s)"
    by (meson frame_trans)
  moreover have "brk (swap_nodes e f s) = brk s"
    by (simp add: swap_nodes_def cds_list_add_def cds_list_del_def cds_list_unlink_def Let_def)
  ultimately show ?thesis
    using l4 swap by simp
qed

text \<open>What a partition promises: a cut into two parts that are not empty, around the pivot.\<close>

definition partitioned :: "store \<Rightarrow> (addr \<Rightarrow> int) \<Rightarrow> sort_type \<Rightarrow> int \<Rightarrow> addr \<Rightarrow> addr list
    \<Rightarrow> store \<Rightarrow> addr \<Rightarrow> addr list \<times> addr list \<Rightarrow> bool" where
  "partitioned s val qtype pivot h zs s' q parts \<longleftrightarrow> (\<exists>ls rs. parts = (ls @ [q], rs)
     \<and> is_list s' h (ls @ q # rs) \<and> rs \<noteq> []
     \<and> mset (ls @ q # rs) = mset zs
     \<and> (\<forall>x \<in> set (ls @ [q]). \<not> before qtype pivot (val x))
     \<and> (\<forall>x \<in> set rs. \<not> before qtype (val x) pivot)
     \<and> frame (set (h # zs)) s s' \<and> brk s' = brk s)"

lemma partitionedI:
  assumes "is_list s h (ls @ q # rs)" and "rs \<noteq> []"
    and "\<And>x. x \<in> set (ls @ [q]) \<Longrightarrow> \<not> before qtype pivot (val x)"
    and "\<And>x. x \<in> set rs \<Longrightarrow> \<not> before qtype (val x) pivot"
  shows "partitioned s val qtype pivot h (ls @ q # rs) s q (ls @ [q], rs)"
  unfolding partitioned_def using assms by (intro exI [of _ ls] exI [of _ rs]) auto

lemma partitioned_after:
  assumes "partitioned t val qtype pivot h ys s' q parts"
    and "mset ys = mset zs" and "frame (set (h # zs)) s t" and "brk t = brk s"
  shows "partitioned s val qtype pivot h zs s' q parts"
proof -
  obtain ls rs where p: "parts = (ls @ [q], rs)" "is_list s' h (ls @ q # rs)" "rs \<noteq> []"
      "mset (ls @ q # rs) = mset ys"
      "\<forall>x \<in> set (ls @ [q]). \<not> before qtype pivot (val x)"
      "\<forall>x \<in> set rs. \<not> before qtype (val x) pivot"
      "frame (set (h # ys)) t s'" "brk s' = brk t"
    using assms(1) unfolding partitioned_def by blast
  have sets: "set (h # ys) = set (h # zs)"
    using mset_eq_setD [OF assms(2)] by simp
  have fr: "frame (set (h # zs)) s s'"
    by (rule frame_trans [OF assms(3) p(7) [unfolded sets]])
  have "mset (ls @ q # rs) = mset zs" and "brk s' = brk s"
    using p(4,8) assms(2,4) by simp_all
  note facts = p(1,2,3) this(1) p(5,6) fr this(2)
  show ?thesis
    unfolding partitioned_def
    by (rule exI [of _ ls], rule exI [of _ rs]) (intro conjI; rule facts)
qed

lemma last_satisfying:
  assumes "P x"
  obtains us e vs where "x # xs = us @ e # vs" and "P e" and "\<forall>v \<in> set vs. \<not> P v"
  using assms split_list_last_prop [of "x # xs" P] by auto

lemma is_list_prv: "is_list s h (xs @ e # ys) \<Longrightarrow> prv s e = before_cut h xs"
  using is_list_cut_node [of s h xs e ys] by (simp add: link_def)

lemma is_list_nxt: "is_list s h (xs @ e # ys) \<Longrightarrow> nxt s e = after_cut ys h"
  using is_list_cut_node [of s h xs e ys] by (simp add: link_def)

lemma is_list_prv_nxt:
  assumes "is_list s h xs" and "a \<in> set xs"
  shows "prv s (nxt s a) = a \<and> nxt s (prv s a) = a"
proof -
  obtain us vs where "xs = us @ a # vs"
    using split_list [OF assms(2)] by blast
  then show ?thesis
    using assms(1) is_list_cut_node [of s h us a vs] by (auto simp: link_def)
qed

text \<open>The state of the loop: what has been looked at from the left and from the right is on its side.\<close>

definition partitioning :: "store \<Rightarrow> (addr \<Rightarrow> int) \<Rightarrow> sort_type \<Rightarrow> int \<Rightarrow> addr
    \<Rightarrow> addr list \<Rightarrow> addr \<Rightarrow> addr list \<Rightarrow> addr \<Rightarrow> addr list \<Rightarrow> bool" where
  "partitioning s val qtype pivot h as i ms j bs \<longleftrightarrow> is_list s h (as @ i # ms @ j # bs)
     \<and> (\<forall>x \<in> set (as @ [i]). \<not> before qtype pivot (val x))
     \<and> (\<forall>x \<in> set (j # bs). \<not> before qtype (val x) pivot)"

lemma partitioningD:
  assumes "partitioning s val qtype pivot h as i ms j bs"
  shows "is_list s h (as @ i # ms @ j # bs)" and "distinct (h # as @ i # ms @ j # bs)"
    and "x \<in> set (as @ [i]) \<Longrightarrow> \<not> before qtype pivot (val x)"
    and "x \<in> set (j # bs) \<Longrightarrow> \<not> before qtype (val x) pivot"
  using assms by (auto simp: partitioning_def is_list_def)

text \<open>The loop ends: the parts are cut behind \<open>q\<close>.\<close>

lemma partition_ends:
  assumes st: "partitioning s val qtype pivot h as i ms j bs" and q: "i # ms = us @ q # vs"
    and "\<And>x. x \<in> set (us @ [q]) \<Longrightarrow> \<not> before qtype pivot (val x)"
    and "\<And>x. x \<in> set vs \<Longrightarrow> \<not> before qtype (val x) pivot"
  shows "partitioned s val qtype pivot h (as @ i # ms @ j # bs) s q ((as @ us) @ [q], vs @ j # bs)"
proof -
  have eq: "as @ i # ms @ j # bs = (as @ us) @ q # (vs @ j # bs)"
    using q by (metis append.assoc append_Cons)
  show ?thesis
    unfolding eq
  proof (rule partitionedI)
    show "is_list s h ((as @ us) @ q # vs @ j # bs)"
      using partitioningD(1) [OF st] unfolding eq .
    show "\<not> before qtype pivot (val x)" if "x \<in> set ((as @ us) @ [q])" for x
      using that assms(3) partitioningD(3) [OF st] by auto
    show "\<not> before qtype (val x) pivot" if "x \<in> set (vs @ j # bs)" for x
      using that assms(4) partitioningD(4) [OF st] by auto
  qed simp
qed

text \<open>The scans find no node between them that has to move.\<close>

lemma partition_meets:
  assumes st: "partitioning s val qtype pivot h as i ms j bs"
    and up: "\<forall>x \<in> set ms. before qtype (val x) pivot"
  shows "\<exists>q. partition_loop s val qtype pivot h i j = Some (s, q)
    \<and> partitioned s val qtype pivot h (as @ i # ms @ j # bs) s q
        (list_partition_loop val qtype pivot as i ms j bs)"
proof -
  let ?down = "\<lambda>m. before qtype pivot (val m)"
  note l = partitioningD(1) [OF st] and d = partitioningD(2) [OF st]
  have "is_list s h ((as @ [i]) @ ms @ j # bs)"
    using l by simp
  from scan_up_stops [OF this up, where flag = False and j = j]
  have scan: "scan_up s val qtype pivot h i j False = Some (j, True)"
    using partitioningD(4) [OF st] d by simp
  obtain us q vs where q: "i # ms = us @ q # vs" "\<not> ?down q" "\<forall>x \<in> set vs. ?down x"
    using last_satisfying [of "\<lambda>m. \<not> ?down m" i ms] partitioningD(3) [OF st] by auto
  have lq: "is_list s h ((as @ us) @ q # vs @ j # bs)"
    using l q(1) by (metis append.assoc append_Cons)
  have vs: "vs = []"
  proof (rule ccontr)
    assume "vs \<noteq> []"
    then have "last vs \<in> set vs" "last vs \<in> set ms"
      using q(1) by (cases us; auto)+
    with q(3) up before_asym show False by blast
  qed
  have "scan_down s val qtype pivot h j (after_cut (j # bs) h) True = Some (q, True)"
    using scan_down_stops [OF lq q(3,2), where flag = True and i = j] by simp
  then have "partition_loop s val qtype pivot h i j = Some (s, q)"
    using scan by (subst partition_loop.simps) auto
  moreover have "list_partition_loop val qtype pivot as i ms j bs = ((as @ us) @ [q], vs @ j # bs)"
    using up vs q(1) by (subst list_partition_loop.simps) (simp add: no_cut Let_def)
  moreover have "\<not> ?down x" if "x \<in> set (us @ [q])" for x
  proof -
    have "set (i # ms) = set us \<union> set (q # vs)"
      using q(1) by (metis set_append)
    with that have "x = i \<or> x \<in> set ms" by auto
    with partitioningD(3) [OF st] up before_asym show ?thesis by auto
  qed
  ultimately show ?thesis
    using partition_ends [OF st q(1)] vs by auto
qed

text \<open>Otherwise the scan from the left stops at a node \<open>e\<close> before it meets \<open>j\<close>.\<close>

lemma scan_up_inside:
  assumes st: "partitioning s val qtype pivot h as i ms j bs" and ms: "ms = us @ e # vs"
    and up: "\<forall>x \<in> set us. before qtype (val x) pivot" "\<not> before qtype (val e) pivot"
  shows "scan_up s val qtype pivot h i j False = Some (e, False)"
proof -
  note l = partitioningD(1) [OF st] and d = partitioningD(2) [OF st]
  have "prv s x \<noteq> j" if "x \<in> set (us @ [e])" for x
  proof
    assume "prv s x = j"
    then have "nxt s j = x"
      using is_list_prv_nxt [OF l, of x] that ms by auto
    moreover have "nxt s j = after_cut bs h"
      using is_list_nxt [of s h "as @ i # ms" j bs] l by simp
    ultimately have "x \<in> set (h # bs)"
      using cut_ends(2) by metis
    with that d ms show False by auto
  qed
  moreover have "x \<noteq> j" if "x \<in> set (us @ [e])" for x
    using that d ms by auto
  ultimately have "\<not> (\<exists>a \<in> set (us @ [e]). prv s a = j \<or> a = j)"
    by blast
  moreover have "is_list s h ((as @ [i]) @ us @ e # vs @ j # bs)"
    using l ms by simp
  ultimately show ?thesis
    using scan_up_stops [of s h "as @ [i]" us e "vs @ j # bs" qtype val pivot j False] up by simp
qed

lemma scan_down_inside:
  assumes st: "partitioning s val qtype pivot h as i ms j bs" and q: "i # ms = us @ q # vs"
    and down: "\<forall>x \<in> set vs. before qtype pivot (val x)" "\<not> before qtype pivot (val q)" and "e \<in> set ms"
  shows "scan_down s val qtype pivot h e j False = Some (q, \<exists>a \<in> set (vs @ [q]). nxt s a = e \<or> a = e)"
proof -
  have lq: "is_list s h ((as @ us) @ q # vs @ j # bs)"
    using partitioningD(1) [OF st] q by (metis append.assoc append_Cons)
  have "e \<noteq> h"
    using partitioningD(2) [OF st] assms(5) by auto
  then show ?thesis
    using scan_down_stops [OF lq down, where flag = False and i = e] by simp
qed

text \<open>The scan from the right passes \<open>e\<close>, or stops there: the loop ends.\<close>

lemma list_crosses:
  assumes ms: "ms = us @ e # m2" and up: "\<forall>x \<in> set us. before qtype (val x) pivot" "\<not> before qtype (val e) pivot"
    and q: "i # ms = us' @ q # vs" and down: "\<forall>x \<in> set vs. before qtype pivot (val x)" "\<not> before qtype pivot (val q)"
    and e: "e \<in> set (vs @ [q])" and once: "e \<notin> set (i # us)" "e \<notin> set m2"
  shows "list_partition_loop val qtype pivot as i ms j bs = ((as @ us') @ [q], vs @ j # bs)"
proof -
  have eq: "(i # us) @ e # m2 = us' @ q # vs"
    using q ms by simp
  show ?thesis
  proof (cases "q = e")
    case True
    with eq have "(i # us) @ e # m2 = us' @ e # vs" by simp
    from this [unfolded append_Cons_eq_iff [OF once]] have "us' = i # us" "vs = m2"
      by auto
    with True down up ms show ?thesis
      by (subst list_partition_loop.simps) (simp add: first_cut no_cut Let_def)
  next
    case False
    with e have "e \<in> set vs" by auto
    then obtain a b where ab: "vs = a @ e # b" "e \<notin> set a"
      using split_list_first by metis
    have "(i # us) @ e # m2 = (us' @ q # a) @ e # b"
      using eq ab by simp
    from this [unfolded append_Cons_eq_iff [OF once]] have s: "i # us = us' @ q # a" "m2 = b"
      by auto
    have "a = []"
    proof (rule ccontr)
      assume "a \<noteq> []"
      then have "last a \<in> set us" "last a \<in> set vs"
        using s(1) ab(1) by (cases us'; auto)+
      with up down before_asym show False by blast
    qed
    with s ab down up ms show ?thesis
      by (subst list_partition_loop.simps) (simp add: first_cut no_cut Let_def)
  qed
qed

lemma partition_crosses:
  assumes st: "partitioning s val qtype pivot h as i ms j bs"
    and ms: "ms = us @ e # m2" and up: "\<forall>x \<in> set us. before qtype (val x) pivot" "\<not> before qtype (val e) pivot"
    and q: "i # ms = us' @ q # vs" and down: "\<forall>x \<in> set vs. before qtype pivot (val x)" "\<not> before qtype pivot (val q)"
    and e: "e \<in> set (vs @ [q])"
  shows "partition_loop s val qtype pivot h i j = Some (s, q)
    \<and> partitioned s val qtype pivot h (as @ i # ms @ j # bs) s q
        (list_partition_loop val qtype pivot as i ms j bs)"
proof -
  have once: "e \<notin> set (i # us)" "e \<notin> set m2"
    using partitioningD(2) [OF st] ms by auto
  have "partition_loop s val qtype pivot h i j = Some (s, q)"
    using scan_up_inside [OF st ms up] scan_down_inside [OF st q down, of e] e ms
    by (subst partition_loop.simps) auto
  moreover have "set us' \<subseteq> set (i # us)"
  proof -
    have eq: "(i # us) @ e # m2 = us' @ q # vs"
      using q ms by simp
    have "distinct (us' @ q # vs)"
      using partitioningD(2) [OF st] ms unfolding eq [symmetric] by auto
    with e have "e \<notin> set us'" by auto
    with eq show ?thesis
      by (auto simp: append_eq_append_conv2 Cons_eq_append_conv)
  qed
  then have "\<not> before qtype pivot (val x)" if "x \<in> set (us' @ [q])" for x
    using that partitioningD(3) [OF st] up(1) before_asym down(2) by auto
  ultimately show ?thesis
    using partition_ends [OF st q] list_crosses [OF ms up q down e once] down(1) before_asym by auto
qed

text \<open>The scan from the right stops before it meets \<open>e\<close>: the two nodes are swapped, and the loop goes on
  between them.\<close>

lemma partition_swaps:
  assumes st: "partitioning s val qtype pivot h as i ms j bs"
    and ms: "ms = us @ e # m2" and up: "\<forall>x \<in> set us. before qtype (val x) pivot" "\<not> before qtype (val e) pivot"
    and q: "i # ms = us' @ q # vs" and down: "\<forall>x \<in> set vs. before qtype pivot (val x)" "\<not> before qtype pivot (val q)"
    and e: "e \<notin> set (vs @ [q])"
  obtains n1 where "m2 = n1 @ q # vs"
    and "partition_loop s val qtype pivot h i j = partition_loop (swap_nodes e q s) val qtype pivot h q e"
    and "list_partition_loop val qtype pivot as i ms j bs
      = list_partition_loop val qtype pivot (as @ i # us) q n1 e (vs @ j # bs)"
    and "partitioning (swap_nodes e q s) val qtype pivot h (as @ i # us) q n1 e (vs @ j # bs)"
    and "frame (set (h # as @ i # ms @ j # bs)) s (swap_nodes e q s)" and "brk (swap_nodes e q s) = brk s"
proof -
  note l = partitioningD(1) [OF st] and d = partitioningD(2) [OF st]
  have eq: "(i # us) @ e # m2 = us' @ q # vs"
    using q ms by simp
  have "e \<in> set (us' @ q # vs)"
    unfolding eq [symmetric] by simp
  with e have "e \<in> set us'" by auto
  then obtain a n1 where a: "us' = a @ e # n1" "e \<notin> set a"
    using split_list_first by metis
  with eq have "(i # us) @ e # m2 = a @ e # (n1 @ q # vs)" by simp
  moreover have "e \<notin> set (i # us)" "e \<notin> set m2"
    using d ms by auto
  ultimately have "a = i # us" and m2: "m2 = n1 @ q # vs"
    using append_Cons_eq_iff [of e "i # us" m2 a "n1 @ q # vs"] by auto
  have "nxt s a \<noteq> e" if "a \<in> set (vs @ [q])" for a
  proof
    assume "nxt s a = e"
    then have "prv s e = a"
      using is_list_prv_nxt [OF l, of a] that ms m2 by auto
    moreover have "prv s e = before_cut h (as @ i # us)"
      using is_list_prv [of s h "as @ i # us" e "m2 @ j # bs"] l ms by simp
    ultimately have "a \<in> set (h # as @ i # us)"
      using cut_ends(1) by metis
    with that d ms m2 show False by auto
  qed
  with e have "\<not> (\<exists>a \<in> set (vs @ [q]). nxt s a = e \<or> a = e)"
    by blast
  with scan_up_inside [OF st ms up] scan_down_inside [OF st q down, of e] ms
  have step: "partition_loop s val qtype pivot h i j = partition_loop (swap_nodes e q s) val qtype pivot h q e"
    by (subst partition_loop.simps) auto
  have "is_list s h ((as @ i # us) @ e # n1 @ q # (vs @ j # bs))"
    using l ms m2 by simp
  note sw = swap_nodes_list [OF this]
  have "partitioning (swap_nodes e q s) val qtype pivot h (as @ i # us) q n1 e (vs @ j # bs)"
    using sw partitioningD(3,4) [OF st] up down before_asym unfolding partitioning_def by auto
  moreover have "list_partition_loop val qtype pivot as i ms j bs
      = list_partition_loop val qtype pivot (as @ i # us) q n1 e (vs @ j # bs)"
    using ms m2 up down last_cut [of vs "\<lambda>m. before qtype pivot (val m)" q n1]
    by (subst list_partition_loop.simps) (simp add: first_cut Let_def)
  moreover have "frame (set (h # as @ i # ms @ j # bs)) s (swap_nodes e q s)" "brk (swap_nodes e q s) = brk s"
    using sw ms m2 by (auto simp: insert_commute Un_ac elim: frame_mono)
  ultimately show thesis
    using that [OF m2 step] by blast
qed

lemma partition_loop_spec:
  assumes "partitioning s val qtype pivot h as i ms j bs"
  shows "\<exists>s' q. partition_loop s val qtype pivot h i j = Some (s', q)
    \<and> partitioned s val qtype pivot h (as @ i # ms @ j # bs) s' q
        (list_partition_loop val qtype pivot as i ms j bs)"
  using assms
proof (induction "length ms" arbitrary: s as i ms j bs rule: less_induct)
  case less
  let ?up = "\<lambda>m. before qtype (val m) pivot" and ?down = "\<lambda>m. before qtype pivot (val m)"
  note st = less.prems
  show ?case
  proof (cases "\<forall>x \<in> set ms. ?up x")
    case True
    from partition_meets [OF st True] show ?thesis
      by blast
  next
    case False
    then obtain us e m2 where u: "ms = us @ e # m2" "\<not> ?up e" "\<forall>x \<in> set us. ?up x"
      using split_list_first_prop [of ms "\<lambda>m. \<not> ?up m"] by blast
    obtain us' q vs where q: "i # ms = us' @ q # vs" "\<not> ?down q" "\<forall>x \<in> set vs. ?down x"
      using last_satisfying [of "\<lambda>m. \<not> ?down m" i ms] partitioningD(3) [OF st] by auto
    show ?thesis
    proof (cases "e \<in> set (vs @ [q])")
      case True
      from partition_crosses [OF st u(1,3,2) q(1,3,2) True] show ?thesis
        by blast
    next
      case False
      obtain n1 where n: "m2 = n1 @ q # vs"
          "partition_loop s val qtype pivot h i j = partition_loop (swap_nodes e q s) val qtype pivot h q e"
          "list_partition_loop val qtype pivot as i ms j bs
            = list_partition_loop val qtype pivot (as @ i # us) q n1 e (vs @ j # bs)"
          "partitioning (swap_nodes e q s) val qtype pivot h (as @ i # us) q n1 e (vs @ j # bs)"
          "frame (set (h # as @ i # ms @ j # bs)) s (swap_nodes e q s)" "brk (swap_nodes e q s) = brk s"
        by (rule partition_swaps [OF st u(1,3,2) q(1,3,2) False])
      have "length n1 < length ms"
        using u(1) n(1) by simp
      from less.hyps [OF this n(4)] obtain s' p where "partition_loop s val qtype pivot h i j = Some (s', p)"
        and p: "partitioned (swap_nodes e q s) val qtype pivot h ((as @ i # us) @ q # n1 @ e # (vs @ j # bs)) s' p
            (list_partition_loop val qtype pivot as i ms j bs)"
        unfolding n(2,3) by blast
      moreover have "mset ((as @ i # us) @ q # n1 @ e # (vs @ j # bs)) = mset (as @ i # ms @ j # bs)"
        using u(1) n(1) by simp
      ultimately show ?thesis
        using partitioned_after [OF p _ n(5,6)] by blast
    qed
  qed
qed

text \<open>The first round: the pivot is the first node, and the scan from the left stops there.\<close>

lemma first_round:
  assumes l: "is_list s h (p # ms)" and "ms \<noteq> []" and q: "p # ms = us @ q # vs"
    and down: "\<forall>x \<in> set vs. before qtype (val p) (val x)" "\<not> before qtype (val p) (val q)"
  shows "qsrt_partition s val h qtype = (if \<exists>a \<in> set (vs @ [q]). nxt s a = p \<or> a = p
      then Some (s, q) else partition_loop (swap_nodes p q s) val qtype (val p) h q p)"
proof -
  have n: "nxt s h = p" and "h \<noteq> p"
    using l by (simp_all add: is_list_def link_def)
  have up: "scan_up s val qtype (val p) h h h False = Some (p, False)"
    using scan_up_stops [of s h "[]" "[]" p ms qtype val "val p" h False] l by simp
  have lq: "is_list s h (us @ q # vs @ [])"
    using l q by simp
  have "scan_down s val qtype (val p) h p h False
      = Some (q, \<exists>a \<in> set (vs @ [q]). nxt s a = p \<or> a = p)"
    using scan_down_stops [OF lq down, where flag = False and i = p] \<open>h \<noteq> p\<close> by simp
  with up show ?thesis
    unfolding qsrt_partition_def n by (subst partition_loop.simps) simp
qed

lemma first_swap:
  assumes l: "is_list s h (p # n1 @ q # vs)"
    and down: "\<forall>x \<in> set vs. before qtype (val p) (val x)" "\<not> before qtype (val p) (val q)"
  shows "\<exists>s' j. qsrt_partition s val h qtype = Some (s', j)
    \<and> partitioned s val qtype (val p) h (p # n1 @ q # vs) s' j (list_partition val qtype (p # n1 @ q # vs))"
proof -
  have d: "distinct (h # p # n1 @ q # vs)"
    using l by (simp add: is_list_def)
  have "nxt s a \<noteq> p \<and> a \<noteq> p" if a: "a \<in> set (vs @ [q])" for a
  proof -
    have "prv s p = h"
      using is_list_prv [of s h "[]" p "n1 @ q # vs"] l by simp
    moreover have "prv s (nxt s a) = a"
      using is_list_prv_nxt [OF l, of a] a by auto
    ultimately show ?thesis
      using a d by auto
  qed
  then have "\<not> (\<exists>a \<in> set (vs @ [q]). nxt s a = p \<or> a = p)"
    by blast
  with first_round [OF l _ _ down, of "p # n1"]
  have step: "qsrt_partition s val h qtype = partition_loop (swap_nodes p q s) val qtype (val p) h q p"
    by simp
  have "is_list s h ([] @ p # n1 @ q # vs)"
    using l by simp
  note sw = swap_nodes_list [OF this]
  have "\<exists>s' j. partition_loop (swap_nodes p q s) val qtype (val p) h q p = Some (s', j)
    \<and> partitioned (swap_nodes p q s) val qtype (val p) h ([] @ q # n1 @ p # vs) s' j
        (list_partition_loop val qtype (val p) [] q n1 p vs)"
    by (rule partition_loop_spec) (use sw down before_asym in \<open>auto simp: partitioning_def\<close>)
  then obtain s' j where "qsrt_partition s val h qtype = Some (s', j)"
      and pj: "partitioned (swap_nodes p q s) val qtype (val p) h ([] @ q # n1 @ p # vs) s' j
        (list_partition_loop val qtype (val p) [] q n1 p vs)"
    using step by auto
  moreover have "list_partition val qtype (p # n1 @ q # vs) = list_partition_loop val qtype (val p) [] q n1 p vs"
    using down last_cut [of vs "\<lambda>m. before qtype (val p) (val m)" q n1] by simp
  moreover from pj have "partitioned s val qtype (val p) h (p # n1 @ q # vs) s' j
      (list_partition_loop val qtype (val p) [] q n1 p vs)"
    by (rule partitioned_after) (use sw in auto)
  ultimately show ?thesis
    by auto
qed

lemma qsrt_partition_spec:
  assumes l: "is_list s h zs" and "length zs \<ge> 2"
  shows "\<exists>s' q. qsrt_partition s val h qtype = Some (s', q)
    \<and> partitioned s val qtype (val (nxt s h)) h zs s' q (list_partition val qtype zs)"
proof -
  obtain p ms where zs: "zs = p # ms" "ms \<noteq> []"
    using assms(2) by (cases zs; cases "tl zs") auto
  have n: "nxt s h = p"
    using l zs by (simp add: is_list_def link_def)
  obtain us q vs where q: "p # ms = us @ q # vs" "\<not> before qtype (val p) (val q)"
      "\<forall>v \<in> set vs. before qtype (val p) (val v)"
    using last_satisfying [of "\<lambda>m. \<not> before qtype (val p) (val m)" p ms] by auto
  show ?thesis
  proof (cases us)
    case Nil
    then have "q = p" "vs = ms"
      using q(1) by auto
    moreover have "partitioned s val qtype (val p) h ([] @ p # ms) s p ([] @ [p], ms)"
      by (rule partitionedI) (use l zs q(3) \<open>vs = ms\<close> before_asym in auto)
    ultimately show ?thesis
      using first_round [OF l [unfolded zs(1)] zs(2) q(1,3,2)] n zs q(3) by (auto simp: no_cut)
  next
    case (Cons p' n1)
    then have "zs = p # n1 @ q # vs"
      using q(1) zs(1) by auto
    with first_swap [of s h p n1 q vs qtype val] l q(2,3) n show ?thesis
      by simp
  qed
qed

section \<open>The sort\<close>

text \<open>A linked run of nodes becomes a list when its two ends are tied to a head.\<close>

lemma tie_list:
  assumes "linked s xs" and "xs \<noteq> []" and "distinct (k # xs)"
    and "\<And>a. a \<in> set xs \<Longrightarrow> a \<noteq> last xs \<Longrightarrow> nxt s' a = nxt s a"
    and "\<And>a. a \<in> set xs \<Longrightarrow> a \<noteq> hd xs \<Longrightarrow> prv s' a = prv s a"
    and "link s' k (hd xs)" and "link s' (last xs) k"
  shows "is_list s' k xs"
proof -
  have "linked s' xs = linked s xs"
  proof (rule linked_frame)
    fix a
    assume a: "a \<in> set (butlast xs)"
    have "distinct (butlast xs @ [last xs])"
      using assms(2,3) by simp
    then have "a \<noteq> last xs"
      using a by auto
    then show "nxt s' a = nxt s a"
      using assms(4) in_set_butlastD [OF a] by blast
  next
    fix a
    assume "a \<in> set (tl xs)"
    then have "a \<in> set xs" "a \<noteq> hd xs"
      using assms(2,3) by (cases xs; auto)+
    then show "prv s' a = prv s a"
      by (rule assms(5))
  qed
  then show ?thesis
    using assms linked_append [of s' "[k]" "xs @ [k]"] linked_append [of s' xs "[k]"]
    by (auto simp: is_list_def)
qed

lemma is_list_linked: "is_list s h (xs @ ys) \<Longrightarrow> linked s xs \<and> linked s ys"
  using linked_append [of s "[h]" "xs @ ys @ [h]"] linked_append [of s xs "ys @ [h]"]
    linked_append [of s ys "[h]"]
  by (auto simp: is_list_def)

lemma is_list_ends:
  "is_list s h xs \<Longrightarrow> nxt s h = after_cut xs h \<and> prv s h = before_cut h xs"
  using is_list_cut [of s h "[]" xs] is_list_cut [of s h xs "[]"] by (auto simp: link_def)

lemma split_lists_spec:
  assumes l: "is_list s h (ls @ q # rs)" and "rs \<noteq> []"
    and "k \<noteq> m" and "{k, m} \<inter> set (h # ls @ q # rs) = {}"
  shows "is_list (split_lists h q k m s) k (ls @ [q]) \<and> is_list (split_lists h q k m s) m rs
    \<and> frame (set (k # m # ls @ q # rs)) s (split_lists h q k m s)
    \<and> brk (split_lists h q k m s) = brk s"
proof -
  let ?s = "split_lists h q k m s"
  have d: "distinct (h # ls @ q # rs)"
    using l by (simp add: is_list_def)
  define a b c where "a = hd (ls @ [q])" and "b = hd rs" and "c = last rs"
  have mem: "a \<in> set (ls @ [q])" "b \<in> set rs" "c \<in> set rs"
    using assms(2) by (auto simp: a_def b_def c_def hd_append)
  have "nxt s h = a" "prv s h = c"
    using is_list_ends [OF l] assms(2) by (auto simp: a_def c_def hd_append)
  moreover have "nxt s q = b"
    using is_list_nxt [OF l] assms(2) by (simp add: b_def)
  moreover have "a \<noteq> b" "a \<noteq> c" "q \<noteq> b" "q \<noteq> c" "h \<noteq> k" "h \<noteq> m" "q \<noteq> k" "q \<noteq> m"
      "h \<noteq> q" "a \<noteq> h" "b \<noteq> h" "c \<noteq> h" "a \<noteq> k" "a \<noteq> m" "b \<noteq> k" "b \<noteq> m" "c \<noteq> k" "c \<noteq> m"
    using mem d assms(4) by auto
  ultimately have s': "nxt ?s = (nxt s)(k := a, m := b, q := k, c := m)"
      "prv ?s = (prv s)(k := q, m := c, a := k, b := m)"
    using assms(3) by (auto simp: split_lists_def Let_def fun_eq_iff)
  have run: "linked s (ls @ [q])" "linked s rs"
    using is_list_linked [of s h "ls @ [q]" rs] l by auto
  have fresh: "k \<notin> set (ls @ q # rs)" "m \<notin> set (ls @ q # rs)"
    using assms(4) by auto
  have "is_list ?s k (ls @ [q])"
    by (rule tie_list [OF run(1)])
      (use d fresh mem s' assms(3) in \<open>auto simp: link_def a_def [symmetric]\<close>)
  moreover have "is_list ?s m rs"
    by (rule tie_list [OF run(2)])
      (use d fresh mem s' assms(2,3) in \<open>auto simp: link_def b_def [symmetric] c_def [symmetric]\<close>)
  moreover have "frame (set (k # m # ls @ q # rs)) s ?s"
    using s' mem by (auto simp: frame_def)
  moreover have "brk ?s = brk s"
    by (simp add: split_lists_def Let_def)
  ultimately show ?thesis by blast
qed

text \<open>Two runs become one when their ends are tied together.\<close>

lemma linked_join:
  assumes "linked s xs" and "linked s ys" and "xs \<noteq> []" and "ys \<noteq> []" and d: "distinct (xs @ ys)"
  shows "linked (s\<lparr>nxt := (nxt s)(last xs := hd ys), prv := (prv s)(hd ys := last xs)\<rparr>) (xs @ ys)"
    (is "linked ?t _")
proof -
  have "linked ?t xs = linked s xs"
  proof (rule linked_frame)
    fix x
    assume x: "x \<in> set (butlast xs)"
    have "distinct (butlast xs @ [last xs])"
      using assms(3) d by simp
    then show "nxt ?t x = nxt s x"
      using x by auto
  next
    fix x
    assume "x \<in> set (tl xs)"
    then have "x \<in> set xs"
      by (rule list.set_sel(2) [OF assms(3)])
    then show "prv ?t x = prv s x"
      using hd_in_set [OF assms(4)] d by auto
  qed
  moreover have "linked ?t ys = linked s ys"
  proof (rule linked_frame)
    fix x
    assume "x \<in> set (butlast ys)"
    then have "x \<in> set ys"
      by (rule in_set_butlastD)
    then show "nxt ?t x = nxt s x"
      using last_in_set [OF assms(3)] d by auto
  next
    fix x
    assume "x \<in> set (tl ys)"
    then have "x \<noteq> hd ys"
      using assms(4) d by (cases ys) auto
    then show "prv ?t x = prv s x"
      by simp
  qed
  ultimately show ?thesis
    using assms(1-4) by (auto simp: linked_append link_def)
qed

lemma join_lists_spec:
  assumes k: "is_list s k xs" and m: "is_list s m ys" and "xs \<noteq> []" and "ys \<noteq> []"
    and "distinct (h # k # m # xs @ ys)"
  shows "is_list (join_lists h k m s) h (xs @ ys)
    \<and> frame (set (h # xs @ ys)) s (join_lists h k m s) \<and> brk (join_lists h k m s) = brk s"
proof -
  let ?s = "join_lists h k m s"
  define a b c e where "a = hd xs" and "b = last xs" and "c = hd ys" and "e = last ys"
  have mem: "a \<in> set xs" "b \<in> set xs" "c \<in> set ys" "e \<in> set ys"
    using assms(3,4) by (auto simp: a_def b_def c_def e_def)
  have "nxt s k = a" "prv s k = b" "nxt s m = c" "prv s m = e"
    using is_list_ends [OF k] is_list_ends [OF m] assms(3,4)
    by (auto simp: a_def b_def c_def e_def)
  moreover have "a \<noteq> c" "a \<noteq> e" "b \<noteq> c" "b \<noteq> e" "h \<noteq> k" "h \<noteq> m" "k \<noteq> m"
      "h \<notin> {a, b, c, e}" "k \<notin> {a, b, c, e}" "m \<notin> {a, b, c, e}"
    using mem assms(5) by auto
  ultimately have s': "nxt ?s = (nxt s)(h := a, b := c, e := h)"
      "prv ?s = (prv s)(a := h, c := b, h := e)"
    by (auto simp: join_lists_def Let_def fun_eq_iff)
  define t where "t = s\<lparr>nxt := (nxt s)(b := c), prv := (prv s)(c := b)\<rparr>"
  have "linked t (xs @ ys)"
    unfolding t_def b_def c_def using is_list_linked [of s k xs "[]"] is_list_linked [of s m ys "[]"] k m assms(3-5)
    by (intro linked_join) auto
  then have "is_list ?s h (xs @ ys)"
    by (rule tie_list)
      (use assms(3-5) mem s' in \<open>auto simp: link_def t_def a_def [symmetric] e_def [symmetric]\<close>)
  moreover have "frame (set (h # xs @ ys)) s ?s"
    using s' mem by (auto simp: frame_def)
  moreover have "brk ?s = brk s"
    by (simp add: join_lists_def Let_def)
  ultimately show ?thesis by blast
qed

abbreviation sorted_by :: "sort_type \<Rightarrow> (addr \<Rightarrow> int) \<Rightarrow> addr list \<Rightarrow> bool" where
  "sorted_by qtype val \<equiv> sorted_wrt (\<lambda>a b. \<not> before qtype (val b) (val a))"

lemma singleton_iff: "is_list s h zs \<Longrightarrow> singleton s h \<longleftrightarrow> length zs < 2"
  by (cases zs; cases "tl zs") (auto simp: singleton_def is_list_def link_def)

text \<open>One level of the recursion, before the two calls: two heads are allocated, and the list is cut
  into two.\<close>

definition halves :: "(addr \<Rightarrow> int) \<Rightarrow> sort_type \<Rightarrow> addr \<Rightarrow> addr list \<Rightarrow> store \<Rightarrow> addr list \<Rightarrow> addr list \<Rightarrow> store \<Rightarrow> bool" where
  "halves val qtype h zs s ls rs t \<longleftrightarrow> list_partition val qtype zs = (ls, rs) \<and> ls \<noteq> [] \<and> rs \<noteq> []
     \<and> is_list t (brk s) ls \<and> is_list t (Suc (brk s)) rs \<and> brk t = brk s + 2
     \<and> distinct (h # ls @ rs) \<and> set zs = set ls \<union> set rs \<and> length zs = length ls + length rs
     \<and> (\<forall>a \<in> set ls. \<forall>b \<in> set rs. \<not> before qtype (val b) (val a))
     \<and> frame (set (h # zs) \<union> {brk s..<brk s + 2}) s t"

lemma halvesD:
  assumes "halves val qtype h zs s ls rs t"
  shows "is_list t (brk s) ls" and "is_list t (Suc (brk s)) rs" and "brk t = brk s + 2" and "distinct (h # ls @ rs)"
    and "length ls < length zs" and "length rs < length zs" and "length zs = length ls + length rs"
    and "\<forall>a \<in> set (h # zs). a < brk s \<Longrightarrow> x \<in> set (h # ls @ rs) \<Longrightarrow> x < brk s"
  using assms unfolding halves_def by (auto simp: neq_Nil_conv)

lemma quicksort_split:
  assumes l: "is_list s h zs" and below: "\<forall>a \<in> set (h # zs). a < brk s" and n2: "length zs \<ge> 2"
  obtains q s1 ls rs where "qsrt_partition (s\<lparr>brk := brk s + 2\<rparr>) val h qtype = Some (s1, q)"
    and "halves val qtype h zs s ls rs (split_lists h q (brk s) (Suc (brk s)) s1)"
proof -
  define s0 where "s0 = s\<lparr>brk := brk s + 2\<rparr>"
  let ?k = "brk s" and ?m = "Suc (brk s)" and ?pivot = "val (nxt s0 h)"
  have fr0: "frame {} s s0"
    by (simp add: frame_def s0_def)
  have "is_list s0 h zs"
    using frame_is_list [OF fr0] l by simp
  from qsrt_partition_spec [OF this n2, of val qtype] obtain s1 q where
    part: "qsrt_partition s0 val h qtype = Some (s1, q)"
      "partitioned s0 val qtype ?pivot h zs s1 q (list_partition val qtype zs)"
    by blast
  obtain ls rs where lp: "list_partition val qtype zs = (ls @ [q], rs)"
    and p: "is_list s1 h (ls @ q # rs)" "rs \<noteq> []" "mset (ls @ q # rs) = mset zs"
    "\<forall>x \<in> set (ls @ [q]). \<not> before qtype ?pivot (val x)"
    "\<forall>x \<in> set rs. \<not> before qtype (val x) ?pivot"
    "frame (set (h # zs)) s0 s1" "brk s1 = brk s0"
    using part(2) unfolding partitioned_def by blast
  have zset: "set zs = set (ls @ q # rs)" and zlen: "length zs = length (ls @ q # rs)"
    using mset_eq_setD [OF p(3)] mset_eq_length [OF p(3)] by simp_all
  have "{?k, ?m} \<inter> set (h # ls @ q # rs) = {}"
    using below zset by fastforce
  note split = split_lists_spec [OF p(1,2) _ this]
  define A where "A = set (h # zs) \<union> {brk s..<brk s + 2}"
  have "frame A s s0"
    by (rule frame_mono [OF fr0]) simp
  from this have "frame A s s1"
    by (rule frame_trans) (rule frame_mono [OF p(6)], auto simp: A_def)
  from this have "frame A s (split_lists h q ?k ?m s1)"
  proof (rule frame_trans)
    have "set (?k # ?m # ls @ q # rs) \<subseteq> A"
      using zset by (auto simp: A_def)
    with split show "frame A s1 (split_lists h q ?k ?m s1)"
      by (auto elim: frame_mono)
  qed
  then have "halves val qtype h zs s (ls @ [q]) rs (split_lists h q ?k ?m s1)"
    using lp p split zset zlen not_before_trans unfolding halves_def A_def
    by (auto simp: s0_def is_list_def)
  with part(1) show thesis
    unfolding s0_def by (rule that)
qed

text \<open>And after the calls: what the second one does leaves the first half alone, and the lists are
  joined.\<close>

lemma quicksort_join:
  assumes "is_list s3 k xs" and two: "is_list s4 m ys" "frame (set (m # ys) \<union> {n..<brk s4}) s3 s4"
    and ne: "xs \<noteq> []" "ys \<noteq> []" and d: "distinct (h # k # m # xs @ ys)" and below: "\<forall>a \<in> set (k # xs). a < n"
  shows "is_list (join_lists h k m s4) h (xs @ ys)" and "frame (set (h # xs @ ys)) s4 (join_lists h k m s4)"
    and "brk (join_lists h k m s4) = brk s4"
proof -
  have "set (k # xs) \<inter> (set (m # ys) \<union> {n..<brk s4}) = {}"
    using d below by auto
  then have "is_list s4 k xs"
    using frame_is_list [OF two(2), of k xs] assms(1) by simp
  from join_lists_spec [OF this two(1) ne d]
  show "is_list (join_lists h k m s4) h (xs @ ys)" and "frame (set (h # xs @ ys)) s4 (join_lists h k m s4)"
    and "brk (join_lists h k m s4) = brk s4"
    by auto
qed

definition sorts :: "(addr \<Rightarrow> bool) \<Rightarrow> (addr \<Rightarrow> int) \<Rightarrow> sort_type \<Rightarrow> addr \<Rightarrow> addr list \<Rightarrow> store \<Rightarrow> store \<Rightarrow> bool" where
  "sorts mem_ok val qtype h zs s t \<longleftrightarrow> qsrt_quicksort mem_ok val h qtype s = Some (Inr t)
     \<and> is_list t h (qsrt_list val qtype zs) \<and> sorted_by qtype val (qsrt_list val qtype zs)
     \<and> frame (set (h # zs) \<union> {brk s..<brk t}) s t \<and> brk t = brk s + 2 * (length zs - 1)"

lemma sortsD:
  assumes "sorts mem_ok val qtype h zs s t"
  shows "qsrt_quicksort mem_ok val h qtype s = Some (Inr t)" and "is_list t h (qsrt_list val qtype zs)"
    and "sorted_by qtype val (qsrt_list val qtype zs)" and "frame (set (h # zs) \<union> {brk s..<brk t}) s t"
    and "brk t = brk s + 2 * (length zs - 1)" and "brk s \<le> brk t"
  using assms unfolding sorts_def by auto

lemma quicksort_level:
  assumes half: "halves val qtype h zs s ls rs s2" and below: "\<forall>a \<in> set (h # zs). a < brk s"
    and one: "sorts mem_ok val qtype (brk s) ls s2 s3" and two: "sorts mem_ok val qtype (Suc (brk s)) rs s3 s4"
  defines "t \<equiv> join_lists h (brk s) (Suc (brk s)) s4"
  shows "is_list t h (qsrt_list val qtype zs) \<and> sorted_by qtype val (qsrt_list val qtype zs)
    \<and> frame (set (h # zs) \<union> {brk s..<brk t}) s t \<and> brk t = brk s + 2 * (length zs - 1)"
proof -
  let ?xs = "qsrt_list val qtype ls" and ?ys = "qsrt_list val qtype rs"
  note h = half [unfolded halves_def] and lt = halvesD(8) [OF half below]
  have len: "length ls \<ge> 1" "length rs \<ge> 1" "length zs = length ls + length rs"
    using h by (auto simp: Suc_le_eq)
  have brks: "brk s3 = brk s + 2 * length ls" "brk s4 = brk s + 2 * (length zs - 1)"
    using h sortsD(5) [OF one] sortsD(5) [OF two] len by auto
  have sorted: "qsrt_list val qtype zs = ?xs @ ?ys"
    using h len by (simp add: qsrt_list.simps [of val qtype zs])
  have ne: "?xs \<noteq> []" "?ys \<noteq> []"
    using len length_qsrt_list by (metis list.size(3) not_one_le_zero)+
  have lists: "is_list s3 (brk s) ?xs" "is_list s4 (Suc (brk s)) ?ys"
      "frame (set (Suc (brk s) # ?ys) \<union> {brk s3..<brk s4}) s3 s4"
    using sortsD(2) [OF one] sortsD(2,4) [OF two] by auto
  have d: "distinct (h # brk s # Suc (brk s) # ?xs @ ?ys)"
    using halvesD(4) [OF half] lt [of "brk s"] lt [of "Suc (brk s)"] is_list_distinct [OF lists(1)]
      is_list_distinct [OF lists(2)] by auto
  have "\<forall>a \<in> set (brk s # ?xs). a < brk s3"
    using lt brks(1) len(1) by fastforce
  note join = quicksort_join [OF lists ne d this]
  define A where "A = set (h # zs) \<union> {brk s..<brk s4}"
  have "frame A s s2"
    by (rule frame_mono [of "set (h # zs) \<union> {brk s..<brk s + 2}"]) (use h brks len in \<open>auto simp: A_def\<close>)
  from this have "frame A s s3"
  proof (rule frame_trans)
    have "set (brk s # ls) \<union> {brk s2..<brk s3} \<subseteq> A"
      using h brks len by (auto simp: A_def)
    from frame_mono [OF sortsD(4) [OF one] this] show "frame A s2 s3" .
  qed
  from this have "frame A s s4"
  proof (rule frame_trans)
    have "set (Suc (brk s) # rs) \<union> {brk s3..<brk s4} \<subseteq> A"
      using h brks len by (auto simp: A_def)
    from frame_mono [OF sortsD(4) [OF two] this] show "frame A s3 s4" .
  qed
  from this have "frame A s t"
    unfolding t_def by (rule frame_trans) (rule frame_mono [OF join(2)], use h in \<open>auto simp: A_def\<close>)
  moreover have "sorted_by qtype val (?xs @ ?ys)"
    using sortsD(3) [OF one] sortsD(3) [OF two] h by (auto simp: sorted_wrt_append)
  ultimately show ?thesis
    using join(1,3) brks(2) unfolding sorted t_def [symmetric] A_def by simp
qed

lemma qsrt_quicksort_spec:
  assumes "is_list s h zs" and "\<forall>a \<in> set (h # zs). a < brk s" and mem: "\<forall>n. mem_ok n"
  shows "\<exists>t. sorts mem_ok val qtype h zs s t"
  using assms(1,2)
proof (induction "length zs" arbitrary: s h zs rule: less_induct)
  case less
  note l = less.prems(1) and below = less.prems(2)
  show ?case
  proof (cases "singleton s h")
    case True
    then have "length zs < 2"
      using singleton_iff [OF l] by simp
    then have "sorted_by qtype val zs" and "length zs - 1 = 0"
      by (cases zs; cases "tl zs"; simp)+
    moreover have "qsrt_list val qtype zs = zs"
      using \<open>length zs < 2\<close> by (simp add: qsrt_list.simps)
    ultimately have "sorts mem_ok val qtype h zs s s"
      using True l unfolding sorts_def by (subst qsrt_quicksort.simps) auto
    then show ?thesis ..
  next
    case False
    then have n2: "length zs \<ge> 2"
      using singleton_iff [OF l] by simp
    obtain q s1 ls rs where part: "qsrt_partition (s\<lparr>brk := brk s + 2\<rparr>) val h qtype = Some (s1, q)"
      and half: "halves val qtype h zs s ls rs (split_lists h q (brk s) (Suc (brk s)) s1)"
      by (rule quicksort_split [OF l below n2])
    let ?s = "split_lists h q (brk s) (Suc (brk s)) s1"
    note hv = halvesD [OF half] and lt = halvesD(8) [OF half below]
    have "\<forall>a \<in> set (brk s # ls). a < brk ?s"
      using lt hv(3) by fastforce
    with less.hyps [OF hv(5,1)] obtain s3 where one: "sorts mem_ok val qtype (brk s) ls ?s s3"
      by blast
    note fr = sortsD(4,6) [OF one]
    have "set (Suc (brk s) # rs) \<inter> (set (brk s # ls) \<union> {brk ?s..<brk s3}) = {}"
      using lt [of "brk s"] lt [of "Suc (brk s)"] lt hv(3,4) by fastforce
    then have "is_list s3 (Suc (brk s)) rs"
      using frame_is_list [OF fr(1), of "Suc (brk s)" rs] hv(2) by simp
    moreover have "\<forall>a \<in> set (Suc (brk s) # rs). a < brk s3"
      using lt hv(3) fr(2) by fastforce
    ultimately obtain s4 where two: "sorts mem_ok val qtype (Suc (brk s)) rs s3 s4"
      using less.hyps [OF hv(6)] by blast
    have "qsrt_quicksort mem_ok val h qtype s = Some (Inr (join_lists h (brk s) (Suc (brk s)) s4))"
      using False part one two mem
      by (subst qsrt_quicksort.simps) (simp add: list_malloc_def sorts_def)
    with quicksort_level [OF half below one two] show ?thesis
      unfolding sorts_def by blast
  qed
qed

section \<open>Properties\<close>

text \<open>C10: The sort is correct and returns. On a well formed list of allocated nodes (empty
  and one-element lists included), and if no allocation fails, \<open>qsrt_quicksort\<close> comes to an
  end; the list is well formed again, holds the nodes in the order the sequence-level
  algorithm \<open>qsrt_list\<close> gives, which is sorted as asked (descending or ascending by
  \<open>qsrt_get_val\<close>) and a permutation of what was there; no other node is touched. Every
  partition leaves two temporary list heads allocated: \<open>2 * (n - 1)\<close> of them are lost.\<close>

theorem qsrt_quicksort_sorts:
  assumes "is_list s list zs" and "\<forall>a \<in> set (list # zs). a < brk s" and "\<forall>n. mem_ok n"
  shows "\<exists>s'. qsrt_quicksort mem_ok val list qtype s = Some (Inr s')
    \<and> is_list s' list (qsrt_list val qtype zs)
    \<and> sorted_wrt (\<lambda>a b. if qtype = DESC then val a \<ge> val b else val a \<le> val b)
        (qsrt_list val qtype zs)
    \<and> mset (qsrt_list val qtype zs) = mset zs
    \<and> (\<forall>a < brk s. a \<notin> set (list # zs) \<longrightarrow> nxt s' a = nxt s a \<and> prv s' a = prv s a)
    \<and> brk s' = brk s + 2 * (length zs - 1)"
proof -
  obtain s' where s': "qsrt_quicksort mem_ok val list qtype s = Some (Inr s')"
      "is_list s' list (qsrt_list val qtype zs)" "sorted_by qtype val (qsrt_list val qtype zs)"
      "frame (set (list # zs) \<union> {brk s..<brk s'}) s s'" "brk s' = brk s + 2 * (length zs - 1)"
    using qsrt_quicksort_spec [OF assms] unfolding sorts_def by blast
  moreover from s'(3) have "sorted_wrt (\<lambda>a b. if qtype = DESC then val a \<ge> val b else val a \<le> val b)
      (qsrt_list val qtype zs)"
    by (rule sorted_wrt_mono_rel [rotated]) (cases qtype; auto simp: before_def)
  moreover have "\<forall>a < brk s. a \<notin> set (list # zs) \<longrightarrow> nxt s' a = nxt s a \<and> prv s' a = prv s a"
    using s'(4) by (auto simp: frame_def)
  ultimately show ?thesis by auto
qed

theorem qsrt_quicksort_sorts_witness:
  "\<exists>s'. qsrt_quicksort (\<lambda>_. True) (\<lambda>a. int a) 0 DESC example_store = Some (Inr s')
     \<and> is_list s' 0 [2, 1] \<and> brk s' = 8"
proof -
  have "\<forall>a \<in> set [0, 1, 2]. a < brk example_store"
    by (simp add: example_store_def)
  moreover have "qsrt_list int DESC [1, 2] = [2, 1]"
    by (simp add: qsrt_list.simps list_partition_loop.simps before_def)
  ultimately show ?thesis
    using qsrt_quicksort_sorts [OF example_store_lists(1), of "\<lambda>_. True" int DESC]
    by (auto simp: example_store_def)
qed

text \<open>When an allocation of a temporary list head fails, the sort ends the process: a list
  of two or more programs never comes back half sorted.\<close>

theorem qsrt_quicksort_no_memory:
  assumes "is_list s list zs" and "2 \<le> length zs" and "\<not> (mem_ok (brk s) \<and> mem_ok (Suc (brk s)))"
  shows "qsrt_quicksort mem_ok val list qtype s = Some (Inl (ExitWith 1))"
proof -
  have "\<not> singleton s list"
    using singleton_iff [OF assms(1)] assms(2) by simp
  then show ?thesis
    using assms(3) by (subst qsrt_quicksort.simps) (auto simp: list_malloc_def)
qed

theorem qsrt_quicksort_no_memory_witness:
  "qsrt_quicksort (\<lambda>n. n < 6) int 0 ASC example_store = Some (Inl (ExitWith 1))"
  using qsrt_quicksort_no_memory [OF example_store_lists(1), of "\<lambda>n. n < 6" int ASC]
  by (simp add: example_store_def)

end
