(* ===== verification/Cpuid.thy ===== *)
theory Cpuid
  imports Prelude
begin

text \<open>
  What the processor says of itself. \<open>print_cpu_characteristics\<close> of \<open>src/stats.c\<close> asks \<open>cpuid\<close> and
  sets the features that the executor uses; the stand-alone tool \<open>src/intel_technologies.c\<close> asks
  the same questions and a few more. The processor is a function from a leaf and a subleaf to the
  four registers; what the two programs print is the report they return.
\<close>

section \<open>The instruction\<close>

record cpuid_info =
  eax :: u32
  ebx :: u32
  ecx :: u32
  edx :: u32

type_synonym processor = "u32 \<Rightarrow> u32 \<Rightarrow> cpuid_info"

definition cpuid_leaf :: "processor \<Rightarrow> u32 \<Rightarrow> u32 \<Rightarrow> cpuid_info" where
  "cpuid_leaf Q leaf subleaf = Q leaf subleaf"

text \<open>\<open>cpuid\<close> leaves the register of the subleaf as it is; the leaves it is used for have none.\<close>

definition cpuid :: "processor \<Rightarrow> u32 \<Rightarrow> cpuid_info" where
  "cpuid Q leaf = Q leaf 0"

section \<open>Strings and fields\<close>

text \<open>The bytes of an \<open>int\<close> in memory, and the string that a \<open>char\<close> buffer holds.\<close>

definition int_bytes :: "u32 \<Rightarrow> u8 list" where
  "int_bytes w = map (\<lambda>i. ucast (drop_bit (8 * i) w)) [0, 1, 2, 3]"

definition reg_bytes :: "cpuid_info \<Rightarrow> u8 list" where
  "reg_bytes r = int_bytes (eax r) @ int_bytes (ebx r) @ int_bytes (ecx r) @ int_bytes (edx r)"

definition c_string :: "u8 list \<Rightarrow> string" where
  "c_string bs = map (\<lambda>b. char_of (unat b)) (takeWhile (\<lambda>b. b \<noteq> 0) bs)"

text \<open>\<open>(x << l) >> r\<close> on \<open>int\<close>s: the shift to the right copies the sign.\<close>

definition shl_sar :: "nat \<Rightarrow> nat \<Rightarrow> u32 \<Rightarrow> u32" where
  "shl_sar l r x = signed_drop_bit r (push_bit l x)"

definition vendor_of :: "cpuid_info \<Rightarrow> string" where
  "vendor_of r = c_string (int_bytes (ebx r) @ int_bytes (edx r) @ int_bytes (ecx r) @ replicate 4 0)"

definition name_of :: "processor \<Rightarrow> string" where
  "name_of Q = c_string (reg_bytes (cpuid Q 0x80000002) @ reg_bytes (cpuid Q 0x80000003)
     @ reg_bytes (cpuid Q 0x80000004) @ [0])"

definition model_of :: "cpuid_info \<Rightarrow> u32" where
  "model_of r = (drop_bit 4 (eax r) AND 0xf) OR (drop_bit 12 (eax r) AND 0xf0)"

text \<open>The model numbers, \<open>src/stats.h\<close>, and the additional ones of the tool.\<close>

definition model_names :: "(int \<times> string) list" where
  "model_names = [(26, ''Nehalem/Nehalem-EP''), (30, ''Nehalem/Nehalem-EP''), (28, ''Atom(tm)''),
     (37, ''Westmere/Clarkdale''), (44, ''Westmere-EP''), (46, ''Nehalem-EX''), (47, ''Westmere-EX''),
     (42, ''Sandy Bridge''), (45, ''Sandy Bridge-EP/Jaketown''), (62, ''Ivy Bridge-EP/EN/EX/Ivytown''),
     (63, ''Haswell-EP/EN/EX''), (86, ''Broadwell-DE''), (79, ''Broadwell-EP/EX''),
     (87, ''Knights Landing''), (58, ''Ivy Bridge''), (60, ''Haswell''), (61, ''Broadwell''),
     (94, ''Skylake'')]"

definition print_cpu_model :: "int \<Rightarrow> string" where
  "print_cpu_model m = (case map_of model_names m of Some nm \<Rightarrow> nm | None \<Rightarrow> ''unknown'')"

definition intel_print_cpu_model :: "int \<Rightarrow> string" where
  "intel_print_cpu_model m = (case map_of (model_names @ [(158, ''Kabylake''), (85, ''Skylake-SP'')]) m of
     Some nm \<Rightarrow> nm | None \<Rightarrow> ''unknown'')"

section \<open>The report\<close>

text \<open>What both programs print first.\<close>

record cpu_report =
  vendor :: string
  model_name :: string
  codename :: string
  has_msr :: bool
  has_hyper :: bool
  perf_version :: u32
  gen_counters :: u32
  gen_width :: u32
  fixed_counters :: u32
  fixed_width :: u32

definition cpu_basics :: "(int \<Rightarrow> string) \<Rightarrow> processor \<Rightarrow> cpu_report res" where
  "cpu_basics names Q =
     (let info = cpuid Q 0; vend = vendor_of info in
      if eax (cpuid Q 0x80000000) < 0x80000004 then Inl (ExitWith (-1))
      else
        let info = cpuid Q 1; pmu = eax (cpuid Q 0xa); ver = shl_sar 24 24 pmu in
        Inr \<lparr>vendor = vend, model_name = name_of Q, codename = names (uint (model_of info)),
             has_msr = bit (edx info) 5, has_hyper = bit (edx info) 28, perf_version = ver,
             gen_counters = shl_sar 16 24 pmu, gen_width = shl_sar 8 24 pmu,
             fixed_counters = (if ver > 1 then shl_sar 27 27 pmu else 0),
             fixed_width = (if ver > 1 then shl_sar 19 24 pmu else 0)\<rparr>)"

text \<open>The features that \<open>print_cpu_characteristics\<close> stores; the first three and the two of the
  temperature are only set, never reset.\<close>

record cpu_features =
  cmt :: bool
  mbmt :: bool
  mbml :: bool
  dts :: bool
  plt :: bool
  turbo :: bool

definition max_leaf :: "processor \<Rightarrow> int" where
  "max_leaf Q = s32_of_u32 (eax (cpuid Q 0))"

definition monitoring_features :: "processor \<Rightarrow> cpu_features \<Rightarrow> cpu_features" where
  "monitoring_features Q f =
     (if max_leaf Q > 7 \<and> bit (ebx (cpuid_leaf Q 0x07 0)) 12 \<and> bit (edx (cpuid_leaf Q 0x0f 0)) 1
      then let info = cpuid_leaf Q 0x0f 1 in
        f\<lparr>cmt := cmt f \<or> bit (edx info) 0, mbmt := mbmt f \<or> bit (edx info) 1, mbml := mbml f \<or> bit (edx info) 2\<rparr>
      else f)"

definition thermal_features :: "processor \<Rightarrow> cpu_features \<Rightarrow> cpu_features" where
  "thermal_features Q f = (let info = cpuid Q 6 in
     f\<lparr>dts := dts f \<or> bit (eax info) 0, plt := plt f \<or> bit (eax info) 6, turbo := bit (eax info) 1\<rparr>)"

definition cpu_characteristics :: "processor \<Rightarrow> cpu_features \<Rightarrow> (cpu_report \<times> cpu_features) res" where
  "cpu_characteristics Q f = bindR (cpu_basics print_cpu_model Q) (\<lambda>r.
     Inr (r, thermal_features Q (monitoring_features Q f)))"

text \<open>\<open>L3CMTGetCapabilities\<close>: the upscaling factor and the largest monitoring identifier.\<close>

definition L3CMTGetCapabilities :: "processor \<Rightarrow> u32 \<times> u32" where
  "L3CMTGetCapabilities Q = (let info = cpuid_leaf Q 0x0f 1 in (ebx info, ecx info))"

section \<open>The tool\<close>

record technologies =
  t_cmt :: bool
  t_mbmt :: bool
  t_mbml :: bool
  t_l3cat :: bool
  t_l2cat :: bool
  t_mba :: bool
  t_cdp :: bool
  t_turbo :: bool

definition no_technologies :: technologies where
  "no_technologies = \<lparr>t_cmt = False, t_mbmt = False, t_mbml = False, t_l3cat = False, t_l2cat = False,
     t_mba = False, t_cdp = False, t_turbo = False\<rparr>"

definition probe_monitoring :: "processor \<Rightarrow> technologies \<Rightarrow> technologies" where
  "probe_monitoring Q t =
     (if bit (ebx (cpuid_leaf Q 0x07 0)) 12 \<and> bit (edx (cpuid_leaf Q 0x0f 0)) 1
      then let info = cpuid_leaf Q 0x0f 1;
               t = (if bit (edx info) 0 then t\<lparr>t_cmt := True\<rparr> else t);
               t = (if bit (edx info) 1 then t\<lparr>t_mbmt := True\<rparr> else t)
           in if bit (edx info) 2 then t\<lparr>t_mbml := True\<rparr> else t
      else t)"

definition probe_allocation :: "processor \<Rightarrow> technologies \<Rightarrow> technologies" where
  "probe_allocation Q t =
     (if bit (ebx (cpuid_leaf Q 0x07 0)) 15
      then let info = cpuid_leaf Q 0x10 0;
               t = (if bit (ebx info) 1 then t\<lparr>t_l3cat := True\<rparr> else t);
               t = (if bit (ebx info) 2 then t\<lparr>t_l2cat := True\<rparr> else t);
               t = (if bit (ebx info) 3 then t\<lparr>t_mba := True\<rparr> else t)
           in if bit (ecx (cpuid_leaf Q 0x10 1)) 2 then t\<lparr>t_cdp := True\<rparr> else t
      else t)"

definition intel_technologies :: "processor \<Rightarrow> (cpu_report \<times> technologies) res" where
  "intel_technologies Q = bindR (cpu_basics intel_print_cpu_model Q) (\<lambda>r.
     let t = (if max_leaf Q > 7 then probe_allocation Q (probe_monitoring Q no_technologies) else no_technologies)
     in Inr (r, t\<lparr>t_turbo := bit (eax (cpuid Q 6)) 1\<rparr>))"

section \<open>Facts\<close>

text \<open>C16: The stand-alone tool and the executor agree on the processor. On every processor both end
  early or neither; when they go on they print the same report but for the names of the two
  models that only the tool knows, and the tool reports cache and bandwidth monitoring and turbo
  mode exactly when the executor turns the feature on.\<close>

theorem probe_agrees_with_executor:
  "rel_sum (=)
     (\<lambda>(r, t) (r', f). r' = r\<lparr>codename := codename r'\<rparr>
        \<and> (codename r' = codename r \<or> codename r \<in> {''Kabylake'', ''Skylake-SP''} \<and> codename r' = ''unknown'')
        \<and> t_cmt t = cmt f \<and> t_mbmt t = mbmt f \<and> t_mbml t = mbml f \<and> t_turbo t = turbo f)
     (intel_technologies Q)
     (cpu_characteristics Q \<lparr>cmt = False, mbmt = False, mbml = False, dts = False, plt = False, turbo = False\<rparr>)"
proof (cases "eax (cpuid Q 0x80000000) < 0x80000004")
  case True
  then show ?thesis
    by (simp add: intel_technologies_def cpu_characteristics_def cpu_basics_def Let_def)
next
  case False
  have names: "print_cpu_model m = intel_print_cpu_model m
      \<or> intel_print_cpu_model m \<in> {''Kabylake'', ''Skylake-SP''} \<and> print_cpu_model m = ''unknown''" for m
    by (auto simp: print_cpu_model_def intel_print_cpu_model_def map_add_def model_names_def split: option.splits)
  from False show ?thesis
    using names [of "uint (model_of (cpuid Q 1))"]
    by (auto simp: intel_technologies_def cpu_characteristics_def cpu_basics_def Let_def no_technologies_def
        probe_monitoring_def probe_allocation_def monitoring_features_def thermal_features_def)
qed

lemma small_bits: "x = take_bit n x \<Longrightarrow> bit x k \<Longrightarrow> k < n" for x :: u32
  by (metis bit_take_bit_iff)

lemma pmu_fields:
  fixes v n w :: u32
  assumes "v = take_bit 4 v" and "n = take_bit 7 n" and "w = take_bit 7 w"
  defines "pmu \<equiv> v OR push_bit 8 n OR push_bit 16 w"
  shows "shl_sar 24 24 pmu = v" and "shl_sar 16 24 pmu = n" and "shl_sar 8 24 pmu = w" and "shl_sar 27 27 pmu = v"
  unfolding shl_sar_def pmu_def
  by (rule bit_word_eqI; use assms(1-3) in \<open>auto simp: bit_simps bit_signed_drop_bit_iff dest: small_bits\<close>; fail)+

text \<open>The fields of the performance monitoring leaf. When the leaf holds a version below 16 and a
  number and a width of the general counters below 128, both programs print these three as they
  are. The number of fixed counters, which the processor reports in another register
  (\<open>edx\<close>), is printed as the version again.\<close>

theorem fixed_counters_are_the_version:
  assumes "cpu_basics names Q = Inr r" and "eax (cpuid Q 0xa) = v OR push_bit 8 n OR push_bit 16 w"
    and "v = take_bit 4 v" and "n = take_bit 7 n" and "w = take_bit 7 w"
  shows "perf_version r = v \<and> gen_counters r = n \<and> gen_width r = w
    \<and> fixed_counters r = (if v > 1 then v else 0)"
  using assms(1,2) pmu_fields [OF assms(3-5)] by (auto simp: cpu_basics_def Let_def split: if_splits)

definition sample_processor :: processor where
  "sample_processor leaf subleaf =
     (if leaf = 0xa then \<lparr>eax = 0x300804, ebx = 0, ecx = 0, edx = 0x603\<rparr>
      else if leaf = 0x80000000 then \<lparr>eax = 0x80000008, ebx = 0, ecx = 0, edx = 0\<rparr>
      else \<lparr>eax = 0, ebx = 0, ecx = 0, edx = 0\<rparr>)"

theorem fixed_counters_are_the_version_witness:
  "\<exists>r. cpu_basics print_cpu_model sample_processor = Inr r \<and> fixed_counters r = 4 \<and> gen_width r = 48
     \<and> take_bit 5 (edx (cpuid sample_processor 0xa)) = 3"
proof -
  have pmu: "eax (cpuid sample_processor 0xa) = 4 OR push_bit 8 8 OR push_bit 16 48"
    by (simp add: cpuid_def sample_processor_def)
  obtain r where r: "cpu_basics print_cpu_model sample_processor = Inr r"
    by (simp add: cpu_basics_def cpuid_def sample_processor_def Let_def)
  have "take_bit 5 (edx (cpuid sample_processor 0xa)) = 3"
    by (simp add: cpuid_def sample_processor_def)
  with r fixed_counters_are_the_version [OF r pmu] show ?thesis
    by simp
qed

end
