(* ===== verification/Parse.thy ===== *)
theory Parse
  imports Complex_Main Prelude
begin

text \<open>
  The parsers of \<open>src/aff-executor.c\<close> (lists of processors, lines of the workload file) and the
  scanner of the instruction targets in \<open>src/scheds/common.c\<close>, together with the functions of
  the C library they are built on: \<open>strtok\<close>, \<open>strtol\<close>, \<open>atol\<close>, \<open>fgets\<close> and the \<open>sscanf\<close> format
  that the code uses. Strings are lists of characters without the terminator.
\<close>

section \<open>The C library\<close>

definition is_space :: "char \<Rightarrow> bool" where
  "is_space c \<longleftrightarrow> c \<in> {CHR '' '', CHR 0x09, CHR 0x0A, CHR 0x0B, CHR 0x0C, CHR 0x0D}"

definition is_digit :: "char \<Rightarrow> bool" where
  "is_digit c \<longleftrightarrow> c \<in> set ''0123456789''"

definition digit_val :: "char \<Rightarrow> nat" where
  "digit_val c = of_char c - 48"

definition digits_val :: "string \<Rightarrow> nat" where
  "digits_val ds = foldl (\<lambda>n c. 10 * n + digit_val c) 0 ds"

definition LONG_MAX :: int where "LONG_MAX = 2 ^ 63 - 1"
definition LONG_MIN :: int where "LONG_MIN = - (2 ^ 63)"

definition clamp_long :: "int \<Rightarrow> int" where
  "clamp_long n = max LONG_MIN (min LONG_MAX n)"

text \<open>\<open>strtol\<close> in base 10: the value and the rest of the string. Without a digit nothing is
  consumed, not even space and sign.\<close>

definition strtol :: "string \<Rightarrow> int \<times> string" where
  "strtol s =
     (let t = dropWhile is_space s;
          neg = (t \<noteq> [] \<and> hd t = CHR ''-'');
          u = (if t \<noteq> [] \<and> (hd t = CHR ''-'' \<or> hd t = CHR ''+'') then tl t else t);
          ds = takeWhile is_digit u
      in if ds = [] then (0, s)
         else (clamp_long (if neg then - int (digits_val ds) else int (digits_val ds)),
               dropWhile is_digit u))"

definition atol :: "string \<Rightarrow> int" where
  "atol s = fst (strtol s)"

text \<open>Conversion of a \<open>long\<close> to an \<open>int\<close>, directly or through \<open>unsigned int\<close>.\<close>

definition int_of_long :: "int \<Rightarrow> int" where
  "int_of_long n = signed_take_bit 31 n"

text \<open>\<open>strtok\<close>: the next token and what follows its delimiter.\<close>

definition strtok :: "char \<Rightarrow> string \<Rightarrow> (string \<times> string) option" where
  "strtok d s = (case dropWhile (\<lambda>c. c = d) s of
      [] \<Rightarrow> None
    | t \<Rightarrow> Some (takeWhile (\<lambda>c. c \<noteq> d) t, tl (dropWhile (\<lambda>c. c \<noteq> d) t)))"

lemma strtok_shorter: "strtok d s = Some (t, r) \<Longrightarrow> length r < length s"
proof -
  assume a: "strtok d s = Some (t, r)"
  then have "dropWhile (\<lambda>c. c = d) s \<noteq> []"
    by (auto simp: strtok_def simp del: dropWhile_eq_Nil_conv)
  then obtain x xs where x: "dropWhile (\<lambda>c. c = d) s = x # xs"
    by (cases "dropWhile (\<lambda>c. c = d) s") auto
  with a have r: "r = tl (dropWhile (\<lambda>c. c \<noteq> d) (x # xs))"
    by (auto simp: strtok_def)
  have "length r \<le> length xs"
    using r length_dropWhile_le [of "\<lambda>c. c \<noteq> d" "x # xs"] by (cases "dropWhile (\<lambda>c. c \<noteq> d) (x # xs)") auto
  also have "length xs < length s"
    using x length_dropWhile_le [of "\<lambda>c. c = d" s] by simp
  finally show ?thesis .
qed

text \<open>All tokens of a string.\<close>

function tokens :: "char \<Rightarrow> string \<Rightarrow> string list" where
  "tokens d s = (case strtok d s of None \<Rightarrow> [] | Some (t, r) \<Rightarrow> t # tokens d r)"
  by pat_completeness auto
termination
  by (relation "measure (\<lambda>(d, s). length s)") (auto dest: strtok_shorter)

declare tokens.simps [simp del]

section \<open>Lists of processors\<close>

definition parse_int :: "string \<Rightarrow> int res" where
  "parse_int s = (case strtol s of (ret, endptr) \<Rightarrow> if endptr \<noteq> [] then Inl (ExitWith 1) else Inr ret)"

text \<open>Writing the next number of the result array, whose capacity is \<open>size\<close>.\<close>

definition put_int :: "nat \<Rightarrow> int \<Rightarrow> int list \<Rightarrow> int list res" where
  "put_int sz v ints = (if length ints < sz then Inr (ints @ [v]) else Inl BadAccess)"

text \<open>
  One item between commas. The code splits it at dashes into \<open>temp\<close>, an array of two, and then
  parses it as one number or runs from \<open>temp[0]\<close> to \<open>temp[1]\<close>. A third part is written behind
  the array; with no part at all the code runs between two values that were never set. For one
  part the text parsed again is the item up to the end of that part, since \<open>strtok_r\<close> has cut
  the rest off.
\<close>

fun parse_parts :: "string list \<Rightarrow> int list \<Rightarrow> int list res" where
  "parse_parts [] temp = Inr temp"
| "parse_parts (s # ss) temp = bindR (parse_int s) (\<lambda>n.
     if length temp \<ge> 2 then Inl BadAccess else parse_parts ss (temp @ [int_of_long n]))"

definition parse_item :: "nat \<Rightarrow> string \<Rightarrow> int list \<Rightarrow> int list res" where
  "parse_item sz token ints =
     (let parts = tokens (CHR ''-'') token in
      bindR (parse_parts parts []) (\<lambda>temp.
        case temp of
          [_] \<Rightarrow> bindR (parse_int (takeWhile (\<lambda>c. c = CHR ''-'') token @ hd parts))
                  (\<lambda>n. put_int sz (int_of_long n) ints)
        | [a, b] \<Rightarrow> foldR (put_int sz) [a..b] ints
        | _ \<Rightarrow> Inl BadAccess))"

definition intlist_from :: "string \<Rightarrow> nat \<Rightarrow> int list res" where
  "intlist_from str ints_size = foldR (parse_item ints_size) (tokens (CHR '','') str) []"

definition parse_intlist :: "(nat \<Rightarrow> bool) \<Rightarrow> string \<Rightarrow> nat \<Rightarrow> int list res" where
  "parse_intlist mem_ok str max_ints = bindR (intlist_from str max_ints) (\<lambda>ints.
     if mem_ok (4 * length ints) then Inr ints else Inl AssertFailed)"

section \<open>Lines of the workload file\<close>

text \<open>What a line sets: the fields of a program, and the executor's \<open>running_core\<close>.\<close>

record prog_line =
  pl_start_time :: int
  pl_mem_needed :: int
  pl_thr_needed :: int
  pl_thr_real :: int
  pl_cores_needed :: int
  pl_cmd :: string

text \<open>The six calls of \<open>strtok\<close>: once one of them answers null, so do the later ones. The
  answers in order are cores, memory, threads, real threads, time and command.\<close>

definition parse_line :: "string \<Rightarrow> prog_line res" where
  "parse_line buff = (case tokens (CHR 0x09) buff of
      cores_str # mem_str # thr_str # tre_str # tm_str # prg_str # _ \<Rightarrow>
        Inr \<lparr>pl_start_time = int_of_long (atol tm_str), pl_mem_needed = atol mem_str,
             pl_thr_needed = atol thr_str, pl_thr_real = atol tre_str,
             pl_cores_needed = int_of_long (atol cores_str), pl_cmd = prg_str\<rparr>
    | _ \<Rightarrow> Inl (ExitWith 1))"

text \<open>\<open>fgets\<close> with a buffer of \<open>n\<close> bytes: at most \<open>n - 1\<close> characters, up to and including a
  newline.\<close>

definition fgets :: "nat \<Rightarrow> string \<Rightarrow> (string \<times> string) option" where
  "fgets n s = (if s = [] \<or> n < 2 then None
     else let line = takeWhile (\<lambda>c. c \<noteq> CHR 0x0A) s;
              k = min (n - 1) (if length line < length s then Suc (length line) else length line)
          in Some (take k s, drop k s))"

lemma fgets_shorter: "fgets n s = Some (l, r) \<Longrightarrow> length r < length s"
  using length_takeWhile_le [of "\<lambda>c. c \<noteq> CHR 0x0A" s]
  by (cases s) (auto simp: fgets_def Let_def split: if_splits)

text \<open>The reading loop of \<open>parse_file\<close>: the lines that describe programs, in order. A chunk
  without a newline, which a last line that is not terminated gives too, ends the process.\<close>

function file_lines :: "string \<Rightarrow> string list res" where
  "file_lines s = (case fgets 1024 s of
      None \<Rightarrow> Inr []
    | Some (buff, r) \<Rightarrow>
        if last buff \<noteq> CHR 0x0A then Inl (ExitWith 1)
        else if butlast buff \<noteq> [] \<and> hd (butlast buff) = CHR ''#'' then file_lines r
        else bindR (file_lines r) (\<lambda>ls. Inr (butlast buff # ls)))"
  by pat_completeness auto
termination
  by (relation "measure length") (auto dest: fgets_shorter)

declare file_lines.simps [simp del]

section \<open>Instruction targets\<close>

text \<open>\<open>sscanf(buffer, "id: %d, instr: %lld", &id, &instr)\<close>: which of the two variables are
  assigned. A format space matches any white space; a conversion skips white space itself.\<close>

definition match_lit :: "string \<Rightarrow> string \<Rightarrow> string option" where
  "match_lit lit s = (if take (length lit) s = lit then Some (drop (length lit) s) else None)"

definition scan_num :: "string \<Rightarrow> (int \<times> string) option" where
  "scan_num s = (if snd (strtol s) = s then None else Some (strtol s))"

definition scan_target :: "string \<Rightarrow> int option \<times> int option" where
  "scan_target s = (case match_lit ''id:'' s of None \<Rightarrow> (None, None) | Some s \<Rightarrow>
     (case scan_num s of None \<Rightarrow> (None, None) | Some (n, s) \<Rightarrow>
       let n = int_of_long n in
       (case match_lit '','' s of None \<Rightarrow> (Some n, None) | Some s \<Rightarrow>
         (case match_lit ''instr:'' (dropWhile is_space s) of None \<Rightarrow> (Some n, None) | Some s \<Rightarrow>
           (case scan_num s of None \<Rightarrow> (Some n, None) | Some (k, _) \<Rightarrow> (Some n, Some k))))))"

text \<open>\<open>%lf\<close> on decimal notation: a sign, digits with at most one point among them, an exponent. (The
  hexadecimal notation and the names of infinity and of not-a-number are left out.) The value is
  the exact number, which the caller rounds.\<close>

definition scan_exponent :: "string \<Rightarrow> int \<times> string" where
  "scan_exponent s = (case s of [] \<Rightarrow> (0, s) | c # r \<Rightarrow>
     if c \<in> {CHR ''e'', CHR ''E''} then
       (let u = (if r \<noteq> [] \<and> hd r \<in> {CHR ''-'', CHR ''+''} then tl r else r);
            v = int (digits_val (takeWhile is_digit u))
        in if takeWhile is_digit u = [] then (0, s)
           else (if hd r = CHR ''-'' then - v else v, dropWhile is_digit u))
     else (0, s))"

definition ten_to :: "int \<Rightarrow> rat" where
  "ten_to k = (if k \<ge> 0 then 10 ^ nat k else 1 / 10 ^ nat (- k))"

definition scan_double :: "string \<Rightarrow> (rat \<times> string) option" where
  "scan_double s =
     (let t = dropWhile is_space s;
          neg = (t \<noteq> [] \<and> hd t = CHR ''-'');
          u = (if t \<noteq> [] \<and> hd t \<in> {CHR ''-'', CHR ''+''} then tl t else t);
          whole = takeWhile is_digit u;
          r = dropWhile is_digit u;
          frac = (if r \<noteq> [] \<and> hd r = CHR ''.'' then takeWhile is_digit (tl r) else []);
          r = (if r \<noteq> [] \<and> hd r = CHR ''.'' then dropWhile is_digit (tl r) else r)
      in if whole @ frac = [] then None
         else (case scan_exponent r of (e, r) \<Rightarrow>
           let v = of_nat (digits_val (whole @ frac)) * ten_to (e - int (length frac))
           in Some (if neg then - v else v, r)))"

text \<open>\<open>sscanf(buffer, "id: %d, times: %lf", &id, &instr)\<close>.\<close>

definition scan_times :: "string \<Rightarrow> int option \<times> rat option" where
  "scan_times s = (case match_lit ''id:'' s of None \<Rightarrow> (None, None) | Some s \<Rightarrow>
     (case scan_num s of None \<Rightarrow> (None, None) | Some (n, s) \<Rightarrow>
       let n = int_of_long n in
       (case match_lit '','' s of None \<Rightarrow> (Some n, None) | Some s \<Rightarrow>
         (case match_lit ''times:'' (dropWhile is_space s) of None \<Rightarrow> (Some n, None) | Some s \<Rightarrow>
           (case scan_double s of None \<Rightarrow> (Some n, None) | Some (k, _) \<Rightarrow> (Some n, Some k))))))"

section \<open>Facts\<close>

text \<open>Printing of numbers, as the inverse of the scanner.\<close>

fun show_nat :: "nat \<Rightarrow> string" where
  "show_nat n = (if n < 10 then [''0123456789'' ! n] else show_nat (n div 10) @ [''0123456789'' ! (n mod 10)])"

declare show_nat.simps [simp del]

lemma digit_char: "n < 10 \<Longrightarrow> is_digit (''0123456789'' ! n) \<and> digit_val (''0123456789'' ! n) = n"
proof -
  have "\<forall>n \<in> set [0..<10]. is_digit (''0123456789'' ! n) \<and> digit_val (''0123456789'' ! n) = n"
    by (simp add: is_digit_def digit_val_def upt_rec)
  then show "n < 10 \<Longrightarrow> is_digit (''0123456789'' ! n) \<and> digit_val (''0123456789'' ! n) = n"
    by simp
qed

lemma show_nat_digits: "list_all is_digit (show_nat n) \<and> show_nat n \<noteq> [] \<and> digits_val (show_nat n) = n"
proof (induction n rule: show_nat.induct)
  case (1 n)
  show ?case
  proof (cases "n < 10")
    case True
    then show ?thesis
      using digit_char [of n] by (simp add: show_nat.simps [of n] digits_val_def)
  next
    case False
    then show ?thesis
      using 1 digit_char [of "n mod 10"] by (simp add: show_nat.simps [of n] digits_val_def)
  qed
qed

lemma digit_not: "is_digit c \<Longrightarrow> \<not> is_space c \<and> c \<noteq> CHR ''-'' \<and> c \<noteq> CHR ''+'' \<and> c \<noteq> CHR '','' \<and> c \<noteq> CHR 0x09"
  by (auto simp: is_digit_def is_space_def)

lemma all_digits: "c \<in> set (show_nat n) \<Longrightarrow> is_digit c"
  using show_nat_digits [of n] by (simp add: list_all_iff)

lemma strtol_show_nat:
  assumes "r = [] \<or> \<not> is_digit (hd r)" and "n < 2 ^ 63"
  shows "strtol (show_nat n @ r) = (int n, r)"
proof -
  have nn: "show_nat n \<noteq> []" "digits_val (show_nat n) = n"
    using show_nat_digits by auto
  then obtain c cs where c: "show_nat n = c # cs"
    by (cases "show_nat n") auto
  have dc: "\<not> is_space c" "c \<noteq> CHR ''-''" "c \<noteq> CHR ''+''"
    using digit_not [OF all_digits [of c n]] c by auto
  have tw: "takeWhile is_digit (show_nat n @ r) = show_nat n" "dropWhile is_digit (show_nat n @ r) = r"
    using all_digits assms(1) by (cases r; auto)+
  have "int n \<le> LONG_MAX"
  proof -
    have "int n < int (2 ^ 63)"
      using assms(2) by (simp only: of_nat_less_iff)
    then show ?thesis
      by (simp add: LONG_MAX_def)
  qed
  then have "clamp_long (int n) = int n"
    by (simp add: clamp_long_def LONG_MIN_def)
  then show ?thesis
    using dc nn tw c by (simp add: strtol_def Let_def)
qed

lemma int_of_long_small: "- (2 ^ 31) \<le> n \<Longrightarrow> n < 2 ^ 31 \<Longrightarrow> int_of_long n = n"
  by (simp add: int_of_long_def signed_take_bit_int_eq_self)

text \<open>Tokens of strings that are built by joining.\<close>

lemma strtok_clean:
  assumes "t \<noteq> []" and "d \<notin> set t"
  shows "strtok d (t @ r) = Some (t @ takeWhile (\<lambda>c. c \<noteq> d) r, tl (dropWhile (\<lambda>c. c \<noteq> d) r))"
proof -
  obtain c cs where c: "t = c # cs" "c \<noteq> d"
    using assms by (cases t) auto
  have "takeWhile (\<lambda>c. c \<noteq> d) (t @ r) = t @ takeWhile (\<lambda>c. c \<noteq> d) r"
    "dropWhile (\<lambda>c. c \<noteq> d) (t @ r) = dropWhile (\<lambda>c. c \<noteq> d) r"
    using assms(2) by (induction t) auto
  with c show ?thesis
    by (simp add: strtok_def)
qed

lemma tokens_last: "t \<noteq> [] \<Longrightarrow> d \<notin> set t \<Longrightarrow> tokens d t = [t]"
  using strtok_clean [of t d "[]"] by (simp add: tokens.simps [of d t] tokens.simps [of d "[]"] strtok_def)

lemma tokens_cons: "t \<noteq> [] \<Longrightarrow> d \<notin> set t \<Longrightarrow> tokens d (t @ d # r) = t # tokens d r"
  using strtok_clean [of t d "d # r"] by (simp add: tokens.simps [of d "t @ d # r"])

fun join :: "char \<Rightarrow> string list \<Rightarrow> string" where
  "join d [] = []"
| "join d [t] = t"
| "join d (t # ts) = t @ d # join d ts"

lemma tokens_join:
  "\<forall>t \<in> set ts. t \<noteq> [] \<and> d \<notin> set t \<Longrightarrow> tokens d (join d ts) = ts"
  by (induction d ts rule: join.induct)
    (auto simp: tokens_last tokens_cons tokens.simps [of _ "[]"] strtok_def)

lemma foldR_concat: "foldR f (concat xss) = foldR (foldR f) xss"
proof (induction xss)
  case Nil
  then show ?case by (rule ext) simp
next
  case (Cons xs xss)
  show ?case by (rule ext) (simp add: foldR_append Cons)
qed

lemma foldR_map: "foldR f (map g xs) s = foldR (\<lambda>x. f (g x)) xs s"
  by (induction xs arbitrary: s) (auto simp: bindR_def split: sum.splits)

lemma foldR_cong: "(\<And>x t. x \<in> set xs \<Longrightarrow> f x t = g x t) \<Longrightarrow> foldR f xs s = foldR g xs s"
  by (induction xs arbitrary: s) (auto simp: bindR_def split: sum.splits)

lemma put_ints:
  "length ints \<le> sz \<Longrightarrow> foldR (put_int sz) vs ints =
     (if length ints + length vs \<le> sz then Inr (ints @ vs) else Inl BadAccess)"
  by (induction vs arbitrary: ints) (auto simp: put_int_def)

text \<open>Lists of processors as their users write them.\<close>

datatype cpu_item = Single nat | Range nat nat

fun show_item :: "cpu_item \<Rightarrow> string" where
  "show_item (Single n) = show_nat n"
| "show_item (Range a b) = show_nat a @ CHR ''-'' # show_nat b"

fun item_cpus :: "cpu_item \<Rightarrow> int list" where
  "item_cpus (Single n) = [int n]"
| "item_cpus (Range a b) = [int a..int b]"

fun item_ok :: "cpu_item \<Rightarrow> bool" where
  "item_ok (Single n) \<longleftrightarrow> n < 2 ^ 31 - 1"
| "item_ok (Range a b) \<longleftrightarrow> a < 2 ^ 31 - 1 \<and> b < 2 ^ 31 - 1"

lemma show_nat_clean: "d \<in> {CHR ''-'', CHR '','', CHR 0x09} \<Longrightarrow> d \<notin> set (show_nat n)"
  using all_digits [of d n] digit_not [of d] by auto

lemma parse_int_show: "n < 2 ^ 31 - 1 \<Longrightarrow> parse_int (show_nat n) = Inr (int n)"
  using strtol_show_nat [of "[]" n] by (simp add: parse_int_def)

lemma int_of_long_nat: "n < 2 ^ 31 - 1 \<Longrightarrow> int_of_long (int n) = int n"
  by (rule int_of_long_small) auto

lemma parse_item_show:
  assumes "item_ok it"
  shows "parse_item sz (show_item it) ints = foldR (put_int sz) (item_cpus it) ints"
proof (cases it)
  case (Single n)
  have ne: "show_nat n \<noteq> []" and dash: "CHR ''-'' \<notin> set (show_nat n)"
    using show_nat_digits show_nat_clean by auto
  then have "takeWhile (\<lambda>c. c = CHR ''-'') (show_nat n) = []"
    by (cases "show_nat n") auto
  with Single assms show ?thesis
    by (simp add: parse_item_def tokens_last [OF ne dash] Let_def parse_int_show int_of_long_nat)
      (simp add: bindR_def split: sum.splits)
next
  case (Range a b)
  have ne: "show_nat n \<noteq> []" and dash: "CHR ''-'' \<notin> set (show_nat n)" for n
    using show_nat_digits show_nat_clean by auto
  have "tokens (CHR ''-'') (show_nat a @ CHR ''-'' # show_nat b) = [show_nat a, show_nat b]"
    by (simp add: tokens_cons tokens_last ne dash)
  with Range assms show ?thesis
    by (simp add: parse_item_def Let_def parse_int_show int_of_long_nat)
qed

section \<open>Properties\<close>

text \<open>C27: Lists of processors are parsed as they are meant: the list of the numbers and ranges
  that are written, in order; if there are more of them than \<open>max_ints\<close> the code writes behind
  its array, since \<open>__parse_intlist\<close> does not look at the capacity it is given.\<close>

theorem parse_intlist_items:
  assumes "\<forall>it \<in> set items. item_ok it" and "\<forall>n. mem_ok n"
  shows "parse_intlist mem_ok (join (CHR '','') (map show_item items)) max_ints
    = (if length (concat (map item_cpus items)) \<le> max_ints then Inr (concat (map item_cpus items))
       else Inl BadAccess)"
proof -
  have clean: "show_item it \<noteq> [] \<and> CHR '','' \<notin> set (show_item it)" for it
    using show_nat_digits show_nat_clean by (cases it) auto
  have "intlist_from (join (CHR '','') (map show_item items)) max_ints
      = foldR (parse_item max_ints) (map show_item items) []"
    using clean by (simp add: intlist_from_def tokens_join)
  also have "\<dots> = foldR (\<lambda>it. foldR (put_int max_ints) (item_cpus it)) items []"
    unfolding foldR_map by (rule foldR_cong) (use assms(1) parse_item_show in auto)
  also have "\<dots> = foldR (put_int max_ints) (concat (map item_cpus items)) []"
    by (simp add: foldR_concat foldR_map)
  finally show ?thesis
    using assms(2) by (simp add: parse_intlist_def put_ints)
qed

theorem parse_intlist_items_witness:
  "parse_intlist (\<lambda>_. True) ''0-2,7'' 128 = Inr [0, 1, 2, 7]"
proof -
  have "join (CHR '','') (map show_item [Range 0 2, Single 7]) = ''0-2,7''"
    by (simp add: show_nat.simps)
  with parse_intlist_items [of "[Range 0 2, Single 7]" "\<lambda>_. True" 128] show ?thesis
    by (simp add: upto.simps)
qed

text \<open>C28: A line of the workload file with six fields between tabs gives the program its fields
  (numbers in range are read back as written); a line with fewer than six fields ends the
  process, and so no program is started with fields that were not given.\<close>

theorem parse_line_fields:
  assumes "cores < 2 ^ 31 - 1" and "mem < 2 ^ 63" and "thr < 2 ^ 63" and "tre < 2 ^ 63" and "tm < 2 ^ 31 - 1"
    and "cmd \<noteq> []" and "CHR 0x09 \<notin> set cmd"
  shows "parse_line (join (CHR 0x09) (map show_nat [cores, mem, thr, tre, tm] @ [cmd]))
      = Inr \<lparr>pl_start_time = int tm, pl_mem_needed = int mem, pl_thr_needed = int thr,
             pl_thr_real = int tre, pl_cores_needed = int cores, pl_cmd = cmd\<rparr>
    \<and> (\<forall>buff. length (tokens (CHR 0x09) buff) < 6 \<longrightarrow> parse_line buff = Inl (ExitWith 1))"
proof -
  have ne: "show_nat n \<noteq> []" and tab: "CHR 0x09 \<notin> set (show_nat n)" for n
    using show_nat_digits show_nat_clean by auto
  have "tokens (CHR 0x09) (join (CHR 0x09) (map show_nat [cores, mem, thr, tre, tm] @ [cmd]))
      = map show_nat [cores, mem, thr, tre, tm] @ [cmd]"
    by (rule tokens_join) (use ne tab assms(6,7) in auto)
  moreover have "atol (show_nat n) = int n" if "n < 2 ^ 63" for n
    using strtol_show_nat [of "[]" n] that by (simp add: atol_def)
  moreover have "parse_line buff = Inl (ExitWith 1)" if "length (tokens (CHR 0x09) buff) < 6" for buff
    using that by (auto simp: parse_line_def split: list.splits)
  ultimately show ?thesis
    using assms(1-5) by (simp add: parse_line_def int_of_long_nat)
qed

theorem parse_line_fields_witness:
  "map_sum (\<lambda>e. e) pl_cmd (parse_line (join (CHR 0x09) (map show_nat [1, 2, 3, 4, 5] @ [''run'']))) = Inr ''run''"
  using parse_line_fields [of 1 2 3 4 5 "''run''"] by simp

text \<open>C29: The workload file is read line by line: for lines of at most 1022 characters, each
  ended by a newline, the lines that do not begin with \<open>#\<close> are handed on in order; a last line
  that is not ended by a newline makes the program exit.\<close>

theorem file_lines_reads:
  assumes "\<forall>l \<in> set ls. CHR 0x0A \<notin> set l \<and> length l \<le> 1022" and "CHR 0x0A \<notin> set rest"
  shows "file_lines (concat (map (\<lambda>l. l @ [CHR 0x0A]) ls) @ rest)
    = (if rest = [] then Inr (filter (\<lambda>l. l = [] \<or> hd l \<noteq> CHR ''#'') ls) else Inl (ExitWith 1))"
  using assms(1)
proof (induction ls)
  case Nil
  show ?case
  proof (cases "rest = []")
    case True
    then show ?thesis by (simp add: file_lines.simps fgets_def)
  next
    case False
    have tw: "takeWhile (\<lambda>c. c \<noteq> CHR 0x0A) rest = rest"
      using assms(2) by (simp add: takeWhile_eq_all_conv) metis
    define k where "k = min 1023 (length rest)"
    have "take k rest \<noteq> []"
      using False by (simp add: k_def)
    then have "last (take k rest) \<in> set rest"
      using in_set_takeD last_in_set by metis
    then have "last (take k rest) \<noteq> CHR 0x0A"
      using assms(2) by auto
    moreover have "fgets 1024 rest = Some (take k rest, drop k rest)"
      unfolding fgets_def tw Let_def k_def using False by simp
    ultimately show ?thesis
      using False by (simp add: file_lines.simps [of rest])
  qed
next
  case (Cons l ls)
  let ?r = "concat (map (\<lambda>l. l @ [CHR 0x0A]) ls) @ rest"
  have "takeWhile (\<lambda>c. c \<noteq> CHR 0x0A) (l @ CHR 0x0A # ?r) = l"
    using Cons.prems by (induction l) auto
  then have "fgets 1024 (l @ CHR 0x0A # ?r) = Some (l @ [CHR 0x0A], ?r)"
    using Cons.prems by (simp add: fgets_def Let_def)
  with Cons show ?case
    by (simp add: file_lines.simps [of "l @ CHR 0x0A # ?r"]) (auto simp: bindR_def)
qed

theorem file_lines_reads_witness:
  "file_lines (concat (map (\<lambda>l. l @ [CHR 0x0A]) [''#x'', ''a''])) = Inr [''a'']"
  using file_lines_reads [of "[''#x'', ''a'']" "[]"] by simp

end
