(* ===== verification/Mhz.thy ===== *)
theory Mhz
  imports Parse Tsc
begin

text \<open>
  The conversion of ticks to seconds in \<open>src/prfcnt/tsc.h\<close>. The clock frequency comes from a
  script (\<open>CPU_MHZ_SH\<close>), whose output is read into a buffer of 512 bytes, without a terminator,
  and scanned by \<open>strtod\<close> (theory \<open>Parse\<close>, \<open>scan_double\<close>); where anything of this fails the process
  ends. The header is included by several source files, and each has its own \<open>static\<close> copy of
  the frequency. Numbers of type \<open>double\<close> are the rationals they stand for.
\<close>

text \<open>The copies of the frequency: of \<open>aff-executor.c\<close>, of \<open>scheds/common.c\<close> and of
  \<open>scheds/linux.c\<close>.\<close>

datatype tsc_unit = UNIT_EXECUTOR | UNIT_COMMON | UNIT_LINUX

text \<open>What the buffer holds after the output has been read over what it held before.\<close>

definition read_buffer :: "string \<Rightarrow> string \<Rightarrow> string" where
  "read_buffer junk out = take 512 (out @ drop (length out) junk)"

text \<open>\<open>__getMhz\<close>: the output of the script, or \<open>None\<close> where \<open>popen\<close> fails. A number that goes on
  to the end of the buffer is read beyond it.\<close>

definition getMhz_script :: "(rat \<Rightarrow> rat) \<Rightarrow> string \<Rightarrow> string option \<Rightarrow> rat res" where
  "getMhz_script rnd junk script = (case script of
      None \<Rightarrow> Inl (ExitWith 1)
    | Some out \<Rightarrow> if out = [] then Inl (ExitWith 1)
        else (case scan_double (read_buffer junk out) of
            None \<Rightarrow> Inl (ExitWith 1)
          | Some (v, rest) \<Rightarrow> if rest = [] then Inl BadAccess else Inr (rnd v)))"

text \<open>The script is run only while the static frequency is zero.\<close>

definition getMhz :: "(rat \<Rightarrow> rat) \<Rightarrow> string \<Rightarrow> string option \<Rightarrow> rat \<Rightarrow> rat res" where
  "getMhz rnd junk script mhz = (if mhz = 0 then getMhz_script rnd junk script else Inr mhz)"

text \<open>Seconds; \<open>None\<close> stands for infinity and for not-a-number, the results of a division by zero.\<close>

definition tsc_getsecs :: "(rat \<Rightarrow> rat) \<Rightarrow> rat \<Rightarrow> tsc \<Rightarrow> rat option" where
  "tsc_getsecs rnd mhz t = (let hz = rnd (1000000 * mhz)
     in if hz = 0 then None else Some (rnd (rnd (of_nat (unat (ticks t))) / hz)))"

section \<open>Facts\<close>

lemma digits_then:
  assumes "list_all is_digit ds" and "r \<noteq> []" and "\<not> is_digit (hd r)"
  shows "takeWhile is_digit (ds @ r) = ds" and "dropWhile is_digit (ds @ r) = r"
  using assms by (cases r; simp add: takeWhile_append dropWhile_append list_all_iff)+

text \<open>A decimal number in front of a newline.\<close>

lemma scan_double_decimal:
  assumes "list_all is_digit ds" and "ds \<noteq> []" and "list_all is_digit fs"
  shows "scan_double (ds @ CHR ''.'' # fs @ CHR 0x0A # r) =
    Some (of_nat (digits_val (ds @ fs)) / 10 ^ length fs, CHR 0x0A # r)"
proof -
  obtain d ds' where ds: "ds = d # ds'" "is_digit d"
    using assms(1,2) by (cases ds) auto
  have first: "\<not> is_space d" "d \<noteq> CHR ''-''" "d \<noteq> CHR ''+''"
    using digit_not [OF ds(2)] by auto
  have stop: "\<not> is_digit CHR ''.''" "\<not> is_digit CHR 0x0A"
    by (simp_all add: is_digit_def)
  define s where "s = ds @ CHR ''.'' # fs @ CHR 0x0A # r"
  have s: "dropWhile is_space s = s" "s \<noteq> []" "hd s = d"
    using first(1) by (simp_all add: s_def ds)
  have parts: "takeWhile is_digit s = ds" "dropWhile is_digit s = CHR ''.'' # fs @ CHR 0x0A # r"
      "takeWhile is_digit (fs @ CHR 0x0A # r) = fs" "dropWhile is_digit (fs @ CHR 0x0A # r) = CHR 0x0A # r"
    using digits_then [OF assms(1), of "CHR ''.'' # fs @ CHR 0x0A # r"]
      digits_then [OF assms(3), of "CHR 0x0A # r"] stop by (simp_all add: s_def)
  have ten: "ten_to (- int (length fs)) = 1 / 10 ^ length fs"
    by (auto simp: ten_to_def)
  have "scan_double s = Some (of_nat (digits_val (ds @ fs)) * (1 / 10 ^ length fs), CHR 0x0A # r)"
    using s first(2,3) parts assms(2) ten
    by (simp add: scan_double_def Let_def scan_exponent_def)
  then show ?thesis
    by (simp add: s_def)
qed

lemma read_buffer_short: "length out < 512 \<Longrightarrow> \<exists>r. read_buffer junk out = out @ r"
  by (simp add: read_buffer_def)

text \<open>What the script prints on a machine with a line \<open>cpu MHz\<close> is read exactly, up to the rounding
  to a \<open>double\<close>.\<close>

lemma getMhz_reads:
  assumes "list_all is_digit ds" and "ds \<noteq> []" and "list_all is_digit fs" and "length ds + length fs < 500"
  shows "getMhz_script rnd junk (Some (ds @ CHR ''.'' # fs @ [CHR 0x0A])) =
    Inr (rnd (of_nat (digits_val (ds @ fs)) / 10 ^ length fs))"
proof -
  obtain r where "read_buffer junk (ds @ CHR ''.'' # fs @ [CHR 0x0A]) = ds @ CHR ''.'' # fs @ CHR 0x0A # r"
    using read_buffer_short [of "ds @ CHR ''.'' # fs @ [CHR 0x0A]" junk] assms(4) by auto
  then show ?thesis
    using scan_double_decimal [OF assms(1-3)] by (simp add: getMhz_script_def)
qed

text \<open>Only an end of the process or a frequency comes back.\<close>

lemma getMhz_outcome: "getMhz rnd junk script mhz = Inr v \<Longrightarrow> mhz = 0 \<or> v = mhz"
  by (auto simp: getMhz_def split: if_splits)

end
