(* ===== verification/Freezer.thy ===== *)
theory Freezer
  imports Prelude
begin

text \<open>
  The control group freezer interface of \<open>src/freezer.c\<close>: a program is stopped and resumed by
  writing state names into files below \<open>/dev/freezer\<close>. The path is built in one static buffer
  that every operation reuses. The file system is the record \<open>freezer_fs\<close>: which groups exist
  and their state, the tasks put into them, which paths may be made, opened and removed, what a
  read of the state file gives (\<open>None\<close>: it fails), the outcome of the \<open>n\<close>-th write (the number of
  bytes the kernel says it took), and the kernel's reaction to a state that is written, which
  may answer \<open>FREEZING\<close> to a \<open>FROZEN\<close>. That the kernel permits everything and that the state file
  holds the name of the state and a newline is a hypothesis where it is needed (\<open>kernel_ok\<close>).
\<close>

section \<open>The code\<close>

datatype frzr_state = FRZR_THAWED | FRZR_FROZEN | FRZR_FREEZING | FRZR_UNINITIALIZED

definition FRZR_PATH_LEN :: nat where "FRZR_PATH_LEN = 128"
definition FRZR_PATH_PREFIX_LEN :: nat where "FRZR_PATH_PREFIX_LEN = 13"

definition frzr_path0 :: string where "frzr_path0 = ''/dev/freezer/''"

fun frzr_states :: "frzr_state \<Rightarrow> string" where
  "frzr_states FRZR_THAWED = ''THAWED''"
| "frzr_states FRZR_FROZEN = ''FROZEN''"
| "frzr_states FRZR_FREEZING = ''FREEZING''"
| "frzr_states FRZR_UNINITIALIZED = ''UNINITIALIZED''"

record freezer_fs =
  groups :: "string \<Rightarrow> frzr_state option"
  group_tasks :: "string \<Rightarrow> int list"
  permits :: "string \<Rightarrow> bool"
  read_state :: "frzr_state \<Rightarrow> string option"
  write_ret :: "nat \<Rightarrow> nat option"
  writes_nr :: nat
  reacts :: "frzr_state \<Rightarrow> frzr_state \<Rightarrow> frzr_state"

text \<open>\<open>snprintf\<close> into the static buffer after the first \<open>prfx_len\<close> characters.\<close>

definition frzr_setpath :: "string \<Rightarrow> string \<Rightarrow> nat \<Rightarrow> (string \<times> nat) res" where
  "frzr_setpath path ident prfx_len =
     (let sufx_len = FRZR_PATH_LEN - prfx_len; ret = length ident in
      if ret \<ge> sufx_len then Inl (ExitWith 1)
      else Inr (take prfx_len path @ ident, ret))"

text \<open>The directory of a control group is what is left of a path when the file is taken off.\<close>

definition group_of :: "string \<Rightarrow> string \<Rightarrow> string" where
  "group_of path file = take (length path - length file) path"

text \<open>The outcome of a \<open>write\<close> of \<open>len\<close> bytes: what it returns, -1 for an error.\<close>

definition fs_write :: "freezer_fs \<Rightarrow> nat \<Rightarrow> int \<times> freezer_fs" where
  "fs_write fs len = ((case write_ret fs (writes_nr fs) of None \<Rightarrow> -1 | Some n \<Rightarrow> int (min n len)),
                      fs\<lparr>writes_nr := Suc (writes_nr fs)\<rparr>)"

definition frzr_init :: "int \<Rightarrow> string \<Rightarrow> string \<Rightarrow> (int \<Rightarrow> string) \<Rightarrow> freezer_fs \<Rightarrow> (string \<times> freezer_fs) res" where
  "frzr_init pid ident path show_int fs =
     bindR (frzr_setpath path ident FRZR_PATH_PREFIX_LEN) (\<lambda>(path, n).
     let prfx_len = FRZR_PATH_PREFIX_LEN + n in
     if groups fs path \<noteq> None \<or> \<not> permits fs path then Inl (ExitWith 1)
     else
       let fs = fs\<lparr>groups := (groups fs)(path \<mapsto> FRZR_THAWED), group_tasks := (group_tasks fs)(path := [])\<rparr>;
           group = path
       in bindR (frzr_setpath path ''/tasks'' prfx_len) (\<lambda>(path, _).
          if \<not> permits fs path then Inl (ExitWith 1) else
          let len = length (show_int pid) in
          if len \<ge> 128 then Inl (ExitWith 1)
          else case fs_write fs len of (ret, fs) \<Rightarrow>
            if ret \<noteq> int len then Inl (ExitWith 1)
            else Inr (path, fs\<lparr>group_tasks := (group_tasks fs)(group := pid # group_tasks fs group)\<rparr>)))"

definition frzr_shut :: "string \<Rightarrow> string \<Rightarrow> freezer_fs \<Rightarrow> (string \<times> freezer_fs) res" where
  "frzr_shut ident path fs =
     bindR (frzr_setpath path ident FRZR_PATH_PREFIX_LEN) (\<lambda>(path, _).
     if groups fs path = None \<or> group_tasks fs path \<noteq> [] \<or> \<not> permits fs path then Inl (ExitWith 1)
     else Inr (path, fs\<lparr>groups := (groups fs)(path := None)\<rparr>))"

text \<open>The retry loop of the write: \<open>retry\<close> attempts are left.\<close>

fun write_state :: "nat \<Rightarrow> nat \<Rightarrow> freezer_fs \<Rightarrow> freezer_fs res" where
  "write_state 0 len fs = Inl (ExitWith 1)"
| "write_state (Suc retry) len fs = (case fs_write fs len of (ret, fs) \<Rightarrow>
     if ret \<noteq> int len then write_state retry len fs else Inr fs)"

definition frzr_setstate :: "string \<Rightarrow> frzr_state \<Rightarrow> string \<Rightarrow> freezer_fs \<Rightarrow> (string \<times> freezer_fs) res" where
  "frzr_setstate ident state path fs =
     (if state \<noteq> FRZR_THAWED \<and> state \<noteq> FRZR_FROZEN then Inl AssertFailed
      else bindR (frzr_setpath path ident FRZR_PATH_PREFIX_LEN) (\<lambda>(path, n).
           bindR (frzr_setpath path ''/freezer.state'' (FRZR_PATH_PREFIX_LEN + n)) (\<lambda>(path, _).
           let group = group_of path ''/freezer.state'' in
           case groups fs group of
             None \<Rightarrow> Inl (ExitWith 1)
           | Some old \<Rightarrow> if \<not> permits fs path then Inl (ExitWith 1) else bindR (write_state 2 (length (frzr_states state)) fs) (\<lambda>fs.
               Inr (path, fs\<lparr>groups := (groups fs)(group \<mapsto> reacts fs old state)\<rparr>)))))"

text \<open>
  The reading side, with a buffer of 128 bytes. The code overwrites a newline at the end with the
  terminator; content without one leaves the buffer without a terminator, and an empty read
  makes it look before the buffer. A file that is missing (\<open>ENOENT\<close>) is an answer, one that cannot
  be opened or read ends the process.
\<close>

definition strip_newline :: "string \<Rightarrow> string res" where
  "strip_newline buff = (if buff \<noteq> [] \<and> last buff = CHR 0x0A then Inr (butlast buff) else Inl BadAccess)"

definition lookup_state :: "string \<Rightarrow> frzr_state res" where
  "lookup_state buff =
     (case find (\<lambda>st. frzr_states st = buff) [FRZR_THAWED, FRZR_FROZEN, FRZR_FREEZING, FRZR_UNINITIALIZED] of
        Some st \<Rightarrow> Inr st
      | None \<Rightarrow> Inl AssertFailed)"

definition frzr_getstate :: "string \<Rightarrow> string \<Rightarrow> freezer_fs \<Rightarrow> (string \<times> frzr_state) res" where
  "frzr_getstate ident path fs =
     bindR (frzr_setpath path ident FRZR_PATH_PREFIX_LEN) (\<lambda>(path, n).
     bindR (frzr_setpath path ''/freezer.state'' (FRZR_PATH_PREFIX_LEN + n)) (\<lambda>(path, _).
     case groups fs (group_of path ''/freezer.state'') of
       None \<Rightarrow> Inr (path, FRZR_UNINITIALIZED)
     | Some st \<Rightarrow> if \<not> permits fs path then Inl (ExitWith 1) else
         (case read_state fs st of None \<Rightarrow> Inl (ExitWith 1)
          | Some text \<Rightarrow> bindR (strip_newline (take 128 text)) (\<lambda>buff.
              bindR (lookup_state buff) (\<lambda>st. Inr (path, st))))))"

text \<open>The executor's busy wait for a program to freeze itself: \<open>fs k\<close> is the file system at the
  \<open>k\<close>-th poll. \<open>None\<close>: it never comes back.\<close>

partial_function (option) wait_frozen ::
  "string \<Rightarrow> string \<Rightarrow> (nat \<Rightarrow> freezer_fs) \<Rightarrow> nat \<Rightarrow> (nat res) option" where
  "wait_frozen ident path fs k = (case frzr_getstate ident path (fs k) of
     Inl e \<Rightarrow> Some (Inl e)
   | Inr (path, st) \<Rightarrow> if st = FRZR_FROZEN then Some (Inr k) else wait_frozen ident path fs (Suc k))"

declare wait_frozen.simps [code]

section \<open>Facts\<close>

text \<open>Every value the buffer can have: it begins with the prefix.\<close>

definition path_ok :: "string \<Rightarrow> bool" where
  "path_ok path \<longleftrightarrow> take FRZR_PATH_PREFIX_LEN path = frzr_path0"

definition group_path :: "string \<Rightarrow> string" where
  "group_path ident = frzr_path0 @ ident"

lemma length_frzr_path0 [simp]: "length frzr_path0 = 13"
  by (simp add: frzr_path0_def)

lemma setpath_id:
  "path_ok path \<Longrightarrow> length ident < 115 \<Longrightarrow> frzr_setpath path ident FRZR_PATH_PREFIX_LEN = Inr (group_path ident, length ident)"
  by (simp add: frzr_setpath_def path_ok_def group_path_def FRZR_PATH_LEN_def FRZR_PATH_PREFIX_LEN_def Let_def)

lemma setpath_file:
  "13 + length ident + length file < 128 \<Longrightarrow>
     frzr_setpath (group_path ident) file (FRZR_PATH_PREFIX_LEN + length ident)
       = Inr (group_path ident @ file, length file)"
  by (auto simp: frzr_setpath_def group_path_def FRZR_PATH_LEN_def FRZR_PATH_PREFIX_LEN_def Let_def)

lemma path_ok_group_path: "path_ok (group_path ident @ file)"
  by (simp add: path_ok_def group_path_def FRZR_PATH_PREFIX_LEN_def)

lemma group_of_file [simp]: "group_of (path @ file) file = path"
  by (simp add: group_of_def)

text \<open>What the kernel documents.\<close>

definition state_file :: "frzr_state \<Rightarrow> string" where
  "state_file st = frzr_states st @ [CHR 0x0A]"

definition kernel_ok :: "freezer_fs \<Rightarrow> bool" where
  "kernel_ok fs \<longleftrightarrow> (\<forall>path. permits fs path) \<and> (\<forall>st. read_state fs st = Some (state_file st))"

lemma strip_state_file: "strip_newline (take 128 (state_file st)) = Inr (frzr_states st)"
  by (cases st) (simp_all add: strip_newline_def state_file_def)

lemma lookup_state_name: "lookup_state (frzr_states st) = Inr st"
  by (cases st) (simp_all add: lookup_state_def)

lemma frzr_getstate_reads:
  assumes "path_ok path" and "length ident < 101" and "kernel_ok fs"
  shows "frzr_getstate ident path fs = Inr (group_path ident @ ''/freezer.state'',
     case groups fs (group_path ident) of None \<Rightarrow> FRZR_UNINITIALIZED | Some st \<Rightarrow> st)"
  using assms setpath_file [of ident "''/freezer.state''"]
  by (simp add: frzr_getstate_def setpath_id strip_state_file lookup_state_name kernel_ok_def split: option.splits)

text \<open>What the buffer held before is never seen, and it stays fit for the next operation.\<close>

lemma frzr_getstate_path:
  assumes "path_ok path"
  shows "frzr_getstate ident path fs = frzr_getstate ident frzr_path0 fs"
proof -
  have "take FRZR_PATH_PREFIX_LEN path = take FRZR_PATH_PREFIX_LEN frzr_path0"
    using assms by (simp add: path_ok_def FRZR_PATH_PREFIX_LEN_def)
  then have "frzr_setpath path ident FRZR_PATH_PREFIX_LEN = frzr_setpath frzr_path0 ident FRZR_PATH_PREFIX_LEN"
    by (simp add: frzr_setpath_def Let_def)
  then show ?thesis
    by (simp only: frzr_getstate_def)
qed

lemma setpath_path_ok:
  assumes "path_ok path" and "frzr_setpath path file n = Inr (path', m)" and "FRZR_PATH_PREFIX_LEN \<le> n"
  shows "path_ok path'"
proof -
  have "length (take FRZR_PATH_PREFIX_LEN path) = 13"
    using assms(1) by (simp add: path_ok_def)
  then have "13 \<le> length path"
    by (simp add: FRZR_PATH_PREFIX_LEN_def)
  with assms show ?thesis
    by (auto simp: frzr_setpath_def path_ok_def FRZR_PATH_PREFIX_LEN_def Let_def min_def split: if_splits)
qed

lemma frzr_getstate_path_ok:
  assumes "path_ok path" and "frzr_getstate ident path fs = Inr (path', st)"
  shows "path_ok path'"
proof -
  obtain p n m where p: "frzr_setpath path ident FRZR_PATH_PREFIX_LEN = Inr (p, n)"
      "frzr_setpath p ''/freezer.state'' (FRZR_PATH_PREFIX_LEN + n) = Inr (path', m)"
    using assms(2) unfolding frzr_getstate_def
    by (elim bindR_pairE) (auto simp: res_simps split: option.splits if_splits)
  from setpath_path_ok [OF setpath_path_ok [OF assms(1) p(1)] p(2)] show ?thesis by simp
qed

lemma path0_ok [simp]: "path_ok frzr_path0"
  by (simp add: path_ok_def FRZR_PATH_PREFIX_LEN_def)

text \<open>The polls of the busy wait, one by one.\<close>

lemma wait_frozen_path:
  assumes "path_ok path"
  shows "wait_frozen ident path fs k = wait_frozen ident frzr_path0 fs k"
  using frzr_getstate_path [OF assms, of ident "fs k"]
  by (simp add: wait_frozen.simps [of ident path] wait_frozen.simps [of ident frzr_path0])

lemma wait_frozen_step:
  "wait_frozen ident frzr_path0 fs k = (case frzr_getstate ident frzr_path0 (fs k) of Inl e \<Rightarrow> Some (Inl e)
     | Inr (_, st) \<Rightarrow> if st = FRZR_FROZEN then Some (Inr k) else wait_frozen ident frzr_path0 fs (Suc k))"
proof (cases "frzr_getstate ident frzr_path0 (fs k)")
  case (Inr r)
  then obtain path st where r: "r = (path, st)" "path_ok path"
    using frzr_getstate_path_ok [OF path0_ok] by (cases r) auto
  with Inr wait_frozen_path [OF r(2), of ident fs "Suc k"] show ?thesis
    by (simp add: wait_frozen.simps [of ident frzr_path0 fs k])
qed (simp add: wait_frozen.simps [of ident frzr_path0 fs k])

text \<open>Whether a poll, with a static buffer that was never used, ends the wait.\<close>

definition poll_ends :: "string \<Rightarrow> freezer_fs \<Rightarrow> bool" where
  "poll_ends ident fs \<longleftrightarrow> (case frzr_getstate ident frzr_path0 fs of Inl e \<Rightarrow> True | Inr (_, st) \<Rightarrow> st = FRZR_FROZEN)"

lemma wait_frozen_Some:
  assumes "wait_frozen ident path fs m = Some r" and "path_ok path"
  shows "\<exists>k \<ge> m. poll_ends ident (fs k) \<and> (\<forall>j. m \<le> j \<and> j < k \<longrightarrow> \<not> poll_ends ident (fs j))
    \<and> r = (case frzr_getstate ident frzr_path0 (fs k) of Inl e \<Rightarrow> Inl e | Inr _ \<Rightarrow> Inr k)"
proof -
  let ?P = "\<lambda>ident path fs m r. path_ok path \<longrightarrow>
      (\<exists>k \<ge> m. poll_ends ident (fs k) \<and> (\<forall>j. m \<le> j \<and> j < k \<longrightarrow> \<not> poll_ends ident (fs j))
        \<and> r = (case frzr_getstate ident frzr_path0 (fs k) of Inl e \<Rightarrow> Inl e | Inr _ \<Rightarrow> Inr k))"
  have "?P ident path fs m r"
    using assms(1)
  proof (rule wait_frozen.raw_induct [rotated, where P = ?P])
    fix wait ident path fs m r
    assume IH: "\<And>ident path fs m r. wait ident path fs m = Some r \<Longrightarrow> ?P ident path fs m r"
      and body: "(case frzr_getstate ident path (fs m) of Inl e \<Rightarrow> Some (Inl e)
        | Inr (path, st) \<Rightarrow> if st = FRZR_FROZEN then Some (Inr m) else wait ident path fs (Suc m)) = Some r"
    show "?P ident path fs m r"
    proof
      assume ok: "path_ok path"
      note poll = frzr_getstate_path [OF ok, of ident "fs m"]
      show "\<exists>k \<ge> m. poll_ends ident (fs k) \<and> (\<forall>j. m \<le> j \<and> j < k \<longrightarrow> \<not> poll_ends ident (fs j))
        \<and> r = (case frzr_getstate ident frzr_path0 (fs k) of Inl e \<Rightarrow> Inl e | Inr _ \<Rightarrow> Inr k)"
      proof (cases "poll_ends ident (fs m)")
        case True
        with body poll show ?thesis
          by (intro exI [of _ m]) (auto simp: poll_ends_def split: sum.splits)
      next
        case False
        then obtain p st where p: "frzr_getstate ident path (fs m) = Inr (p, st)" "st \<noteq> FRZR_FROZEN"
          using poll by (auto simp: poll_ends_def split: sum.splits)
        with body IH [of ident p fs "Suc m" r] frzr_getstate_path_ok [OF ok p(1)]
        obtain k where k: "k \<ge> Suc m" "poll_ends ident (fs k)" "\<forall>j. Suc m \<le> j \<and> j < k \<longrightarrow> \<not> poll_ends ident (fs j)"
            "r = (case frzr_getstate ident frzr_path0 (fs k) of Inl e \<Rightarrow> Inl e | Inr _ \<Rightarrow> Inr k)"
          by auto
        have "\<not> poll_ends ident (fs j)" if "m \<le> j" "j < k" for j
          using that k(3) False by (cases "j = m") auto
        with k show ?thesis
          by (intro exI [of _ k]) auto
      qed
    qed
  qed
  with assms(2) show ?thesis by simp
qed

lemma wait_frozen_None: "wait_frozen ident frzr_path0 fs m = None \<longleftrightarrow> (\<forall>k \<ge> m. \<not> poll_ends ident (fs k))"
proof
  assume none: "wait_frozen ident frzr_path0 fs m = None"
  have never: "wait_frozen ident frzr_path0 fs (m + d) = None" for d
  proof (induction d)
    case (Suc d)
    then show ?case
      by (simp add: wait_frozen_step [of ident fs "m + d"] split: sum.splits prod.splits if_splits)
  qed (simp add: none)
  have "\<not> poll_ends ident (fs (m + d))" for d
    using never [of d] by (simp add: wait_frozen_step [of ident fs "m + d"] poll_ends_def
        split: sum.splits prod.splits if_splits)
  then show "\<forall>k \<ge> m. \<not> poll_ends ident (fs k)"
    by (metis le_add_diff_inverse)
next
  assume "\<forall>k \<ge> m. \<not> poll_ends ident (fs k)"
  then show "wait_frozen ident frzr_path0 fs m = None"
    using wait_frozen_Some [OF _ path0_ok, of ident fs m] by (cases "wait_frozen ident frzr_path0 fs m") auto
qed

text \<open>The write is tried twice: only two short or failed writes in a row end the process.\<close>

lemma write_state_twice:
  "write_state 2 len fs =
     (if (case write_ret fs (writes_nr fs) of None \<Rightarrow> False | Some m \<Rightarrow> len \<le> m)
      then Inr (fs\<lparr>writes_nr := Suc (writes_nr fs)\<rparr>)
      else if (case write_ret fs (Suc (writes_nr fs)) of None \<Rightarrow> False | Some m \<Rightarrow> len \<le> m)
      then Inr (fs\<lparr>writes_nr := Suc (Suc (writes_nr fs))\<rparr>)
      else Inl (ExitWith 1))"
  by (auto simp: numeral_2_eq_2 fs_write_def min_def split: option.splits)

section \<open>Properties\<close>

text \<open>C25: On a kernel that permits what is asked for and names the states in their files, the paths are right whatever the static buffer held before: for an identifier that
  fits, freezing and thawing write the state of exactly the group of the identifier, reading
  gives the state of that group (or "uninitialized" when the group does not exist), and the
  buffer is fit for the next operation; an identifier that does not fit ends the process
  instead of addressing another group.\<close>

theorem freezer_set_get:
  assumes "path_ok path" and "state \<in> {FRZR_THAWED, FRZR_FROZEN}"
    and "kernel_ok fs" and "groups fs (group_path ident) = Some old" and "write_ret fs (writes_nr fs) = Some (length (frzr_states state))"
  shows "(length ident < 101 \<longrightarrow> (\<exists>path' fs'. frzr_setstate ident state path fs = Inr (path', fs') \<and> path_ok path'
        \<and> groups fs' = (groups fs)(group_path ident \<mapsto> reacts fs old state)
        \<and> (\<forall>ident'. length ident' < 101 \<longrightarrow> map_sum (\<lambda>e. e) snd (frzr_getstate ident' path' fs')
             = Inr (if ident' = ident then reacts fs old state
                    else case groups fs (group_path ident') of None \<Rightarrow> FRZR_UNINITIALIZED | Some st \<Rightarrow> st))))
    \<and> (101 \<le> length ident \<longrightarrow> frzr_setstate ident state path fs = Inl (ExitWith 1))"
proof (intro conjI impI)
  assume len: "length ident < 101"
  let ?file = "''/freezer.state''" and ?fs = "fs\<lparr>writes_nr := Suc (writes_nr fs)\<rparr>"
  have ws: "write_state 2 (length (frzr_states state)) fs = Inr ?fs"
    using assms(5) by (simp add: write_state_twice)
  let ?fs' = "fs\<lparr>writes_nr := Suc (writes_nr fs), groups := (groups fs)(group_path ident \<mapsto> reacts fs old state)\<rparr>"
  have set: "frzr_setstate ident state path fs = Inr (group_path ident @ ?file, ?fs')"
    using assms(1-4) len ws setpath_file [of ident ?file]
    by (auto simp: frzr_setstate_def setpath_id kernel_ok_def Let_def)
  have ok': "kernel_ok ?fs'"
    using assms(3) by (simp add: kernel_ok_def)
  have inj: "group_path i = group_path j \<longleftrightarrow> i = j" for i j
    by (simp add: group_path_def)
  show "\<exists>path' fs'. frzr_setstate ident state path fs = Inr (path', fs') \<and> path_ok path'
        \<and> groups fs' = (groups fs)(group_path ident \<mapsto> reacts fs old state)
        \<and> (\<forall>ident'. length ident' < 101 \<longrightarrow> map_sum (\<lambda>e. e) snd (frzr_getstate ident' path' fs')
             = Inr (if ident' = ident then reacts fs old state
                    else case groups fs (group_path ident') of None \<Rightarrow> FRZR_UNINITIALIZED | Some st \<Rightarrow> st))"
    using set ok' by (intro exI [of _ "group_path ident @ ?file"] exI [of _ ?fs'])
      (auto simp: path_ok_group_path frzr_getstate_reads inj)
next
  assume len: "101 \<le> length ident"
  show "frzr_setstate ident state path fs = Inl (ExitWith 1)"
  proof (cases "length ident < 115")
    case True
    with len assms(1,2) show ?thesis
      by (auto simp: frzr_setstate_def setpath_id)
        (auto simp: frzr_setpath_def FRZR_PATH_LEN_def FRZR_PATH_PREFIX_LEN_def)
  next
    case False
    with assms(2) show ?thesis
      by (auto simp: frzr_setstate_def frzr_setpath_def FRZR_PATH_LEN_def FRZR_PATH_PREFIX_LEN_def)
  qed
qed

definition example_fs :: freezer_fs where
  "example_fs = \<lparr>groups = [''/dev/freezer//AFF_1000'' \<mapsto> FRZR_FROZEN], group_tasks = (\<lambda>_. []),
     permits = (\<lambda>_. True), read_state = (\<lambda>st. Some (state_file st)),
     write_ret = (\<lambda>_. Some 6), writes_nr = 0, reacts = (\<lambda>old new. new)\<rparr>"

lemma example_fs_ok: "kernel_ok example_fs"
  by (simp add: kernel_ok_def example_fs_def)

theorem freezer_set_get_witness:
  "\<exists>path' fs'. frzr_setstate ''/AFF_1000'' FRZR_THAWED frzr_path0 example_fs = Inr (path', fs')
     \<and> map_sum (\<lambda>e. e) snd (frzr_getstate ''/AFF_1000'' path' fs') = Inr FRZR_THAWED"
proof -
  have "groups example_fs (group_path ''/AFF_1000'') = Some FRZR_FROZEN"
    and "write_ret example_fs (writes_nr example_fs) = Some (length (frzr_states FRZR_THAWED))"
    by (simp_all add: frzr_path0_def example_fs_def group_path_def)
  from freezer_set_get [OF path0_ok _ example_fs_ok this] show ?thesis
    by (auto simp: example_fs_def)
qed

text \<open>C26: The wait for a program to freeze itself returns exactly when some poll finds the group frozen,
  and then at the first such poll: it returns at poll \<open>k\<close> if and only if the group is frozen at \<open>k\<close>
  and at no poll before, and it never returns if and only if the group is frozen at no poll. (On
  a kernel that lets the state file be read; the path has to fit into the buffer.)\<close>

theorem wait_frozen_returns:
  assumes "path_ok path" and "length ident < 101" and "\<forall>k. kernel_ok (fs k)"
  shows "(\<forall>k. wait_frozen ident path fs 0 = Some (Inr k) \<longleftrightarrow> groups (fs k) (group_path ident) = Some FRZR_FROZEN
            \<and> (\<forall>j<k. groups (fs j) (group_path ident) \<noteq> Some FRZR_FROZEN))
    \<and> (wait_frozen ident path fs 0 = None \<longleftrightarrow> (\<forall>k. groups (fs k) (group_path ident) \<noteq> Some FRZR_FROZEN))"
proof -
  let ?frozen = "\<lambda>k. groups (fs k) (group_path ident) = Some FRZR_FROZEN"
  let ?w = "wait_frozen ident frzr_path0 fs 0"
  have poll: "frzr_getstate ident frzr_path0 (fs k) = Inr (group_path ident @ ''/freezer.state'',
      case groups (fs k) (group_path ident) of None \<Rightarrow> FRZR_UNINITIALIZED | Some st \<Rightarrow> st)" for k
    using frzr_getstate_reads [OF path0_ok assms(2)] assms(3) by simp
  then have ends: "poll_ends ident (fs k) \<longleftrightarrow> ?frozen k" for k
    by (simp add: poll_ends_def split: option.splits)
  have path: "wait_frozen ident path fs 0 = ?w"
    by (rule wait_frozen_path [OF assms(1)])
  have some: "\<exists>k. r = Inr k \<and> ?frozen k \<and> (\<forall>j<k. \<not> ?frozen j)" if "?w = Some r" for r
    using wait_frozen_Some [OF that path0_ok] by (auto simp: ends poll)
  have none: "?w = None \<longleftrightarrow> (\<forall>k. \<not> ?frozen k)"
    by (simp add: wait_frozen_None ends)
  have "?w = Some (Inr k) \<longleftrightarrow> ?frozen k \<and> (\<forall>j<k. \<not> ?frozen j)" for k
  proof
    assume k: "?frozen k \<and> (\<forall>j<k. \<not> ?frozen j)"
    then obtain r where r: "?w = Some r"
      using none by (cases ?w) auto
    with some obtain k' where k': "r = Inr k'" "?frozen k'" "\<forall>j<k'. \<not> ?frozen j"
      by blast
    with k have "k' = k"
      by (meson linorder_neqE_nat)
    with r k' show "?w = Some (Inr k)" by simp
  qed (use some in auto)
  with none show ?thesis
    unfolding path by blast
qed

theorem wait_frozen_returns_witness:
  "wait_frozen ''/AFF_1000'' frzr_path0 (\<lambda>_. example_fs) 0 = Some (Inr 0)
   \<and> wait_frozen ''/AFF_1001'' frzr_path0 (\<lambda>_. example_fs) 0 = None"
proof -
  have "groups example_fs (group_path ''/AFF_1000'') = Some FRZR_FROZEN" "groups example_fs (group_path ''/AFF_1001'') = None"
    by (simp_all add: frzr_path0_def example_fs_def group_path_def)
  with wait_frozen_returns [of frzr_path0 "''/AFF_1000''" "\<lambda>_. example_fs"]
    wait_frozen_returns [of frzr_path0 "''/AFF_1001''" "\<lambda>_. example_fs"] example_fs_ok show ?thesis
    by simp
qed

end
