(* ===== verification/SysState.thy ===== *)
theory SysState
  imports BinHeap HashTable ShmMap Stats CQsort Cpuid Mhz Freezer
begin

text \<open>
  The state that the executor (\<open>src/aff-executor.c\<close>, \<open>src/aff-executor.h\<close>) and the schedulers
  (\<open>src/scheds/common.h\<close>) share: programs, events, the executor's global state and the
  scheduler's. Programs and events are reached by address; an address without a structure has
  been freed (or was never allocated), and an access to it is \<open>UseAfterFree\<close>. The intrusive
  lists are the sequences of the program addresses they link (theory \<open>CdsList\<close> says why that
  is right for the pointer structure). What the code asks the outside world for
  (\<open>gettimeofday\<close>, the time stamp counter, \<open>fork\<close>, the pid an application reports) comes from
  an environment, one answer per call; what it does to the outside world is a list of actions.
\<close>

section \<open>Time\<close>

record timeval =
  tv_sec :: int
  tv_usec :: int

definition timer_gt :: "timeval \<Rightarrow> timeval \<Rightarrow> bool" where
  "timer_gt a b \<longleftrightarrow> (if tv_sec a = tv_sec b then tv_usec a > tv_usec b else tv_sec a > tv_sec b)"

definition timersub :: "timeval \<Rightarrow> timeval \<Rightarrow> timeval" where
  "timersub a b =
     (let sec = tv_sec a - tv_sec b; usec = tv_usec a - tv_usec b in
      if usec < 0 then \<lparr>tv_sec = sec - 1, tv_usec = usec + 1000000\<rparr> else \<lparr>tv_sec = sec, tv_usec = usec\<rparr>)"

definition timeradd :: "timeval \<Rightarrow> timeval \<Rightarrow> timeval" where
  "timeradd a b =
     (let sec = tv_sec a + tv_sec b; usec = tv_usec a + tv_usec b in
      if usec \<ge> 1000000 then \<lparr>tv_sec = sec + 1, tv_usec = usec - 1000000\<rparr> else \<lparr>tv_sec = sec, tv_usec = usec\<rparr>)"

definition tv_norm :: "timeval \<Rightarrow> bool" where
  "tv_norm tv \<longleftrightarrow> 0 \<le> tv_usec tv \<and> tv_usec tv < 1000000"

definition tv_us :: "timeval \<Rightarrow> int" where
  "tv_us tv = tv_sec tv * 1000000 + tv_usec tv"

lemma timer_gt_us: "tv_norm a \<Longrightarrow> tv_norm b \<Longrightarrow> timer_gt a b \<longleftrightarrow> tv_us a > tv_us b"
  by (auto simp: timer_gt_def tv_norm_def tv_us_def)

lemma timersub_us: "tv_us (timersub a b) = tv_us a - tv_us b"
  by (simp add: timersub_def tv_us_def Let_def)

lemma timeradd_us: "tv_us (timeradd a b) = tv_us a + tv_us b"
  by (simp add: timeradd_def tv_us_def Let_def)

lemma timeradd_norm: "tv_norm a \<Longrightarrow> tv_norm b \<Longrightarrow> tv_norm (timeradd a b)"
  by (auto simp: timeradd_def tv_norm_def Let_def)

lemma timersub_norm: "tv_norm a \<Longrightarrow> tv_norm b \<Longrightarrow> tv_norm (timersub a b)"
  by (auto simp: timersub_def tv_norm_def Let_def)

text \<open>The quantum, 200 ms.\<close>

definition qt :: timeval where
  "qt = \<lparr>tv_sec = 0, tv_usec = 200000\<rparr>"

section \<open>Programs\<close>

datatype class_type = NONE | BW | CS | CNS | OtherClass int

definition class_of :: "int \<Rightarrow> class_type" where
  "class_of n = (if n = 0 then NONE else if n = 1 then BW else if n = 2 then CS else if n = 3 then CNS
                 else OtherClass n)"

datatype run_state = RS_STOPED | RS_RUNNING

record prog_data =
  gang_id :: int
  core_id :: int
  fresh :: bool
  killed :: bool
  ipc_alone :: int
  pd_llc_alone :: int
  pd_instr_retd_sum :: u64
  pd_ideal_instr :: u64
  pd_ratio :: u64
  category :: class_type
  waiting_time :: int
  pd_cpu :: int
  pd_times_cpu :: int
  pd_cores_needed :: int
  respawned :: bool
  init_id :: int
  prg :: string
  run_status :: run_state
  tm_wstart :: u32
  tm_wstop :: u32
  tm_rstart :: u32
  tm_rstop :: u32
  tm_running :: u32
  tm_waiting :: u32
  stats :: aff_stats
  instr_retd :: u64
  unh_cycles :: u64
  llc_misses :: u64
  l1_repl :: u64
  l2_in :: u64
  pd_mem_reads :: u64
  pd_sum_mem_reads :: u64
  avg_mem_reads :: u64
  fitness :: u64
  llc_occupancy :: u64
  dts_temperature :: u64
  plt_temperature :: u64

text \<open>What the policy \<open>linux\<close> keeps of a program (\<open>struct linux_data\<close>): the number of its entry, whether
  it was killed, its processor time as \<open>clock_gettime\<close> gave it (seconds and nanoseconds), and in
  milliseconds. A \<open>double\<close> is the rational number it stands for.\<close>

record linux_data =
  lx_init_id :: int
  lx_killed :: bool
  lx_ts :: "int \<times> int"
  lx_msecs :: rat

record aff_prog =
  start_time :: int
  prog_id :: int
  cmd :: string
  prog_pid :: int
  shell_pid :: int
  cpuset :: "nat list"
  cores_needed :: int
  timer :: tsc
  sched_data :: "prog_data option"
  lx_data :: "linux_data option"
  mem_needed :: int
  thr_needed :: int
  thr_real :: int
  ratio :: int
  instr_retd_sum :: u64
  ideal_instr :: u64
  sum_mem_reads :: u64
  mem_reads :: u64
  times_cpu :: int
  llc_alone :: int
  prog_shm :: shm

section \<open>Events\<close>

datatype event_kind = EVNT_NEWPROG | EVNT_QEXPIRED | EVNT_SAMPLING

record aff_event =
  kind :: event_kind
  tv :: timeval
  ev_prog :: u64

text \<open>The statically allocated quantum event has an address of its own.\<close>

definition qt_event :: u64 where "qt_event = 1"

section \<open>The scheduler's state\<close>

record sched =
  progs_all :: "u64 list"
  progs_sch :: "u64 list"
  total_tics :: int
  monitor_wnd :: int
  progs_nr :: int
  progs_init :: int
  progs_left :: int
  progs_fnsh :: int
  stop_execution :: bool
  do_respawn :: bool
  pkgEnergyCounter :: rat
  dramEnergyCounter :: rat
  UncMCReads :: u64
  UncMCWrites :: u64
  oc_dts_temperature :: u64
  oc_plt_temperature :: u64
  cntrs :: "aff_counters option"
  files_open :: bool
  total_progs :: "string option list"
  instr_progs :: "u64 list"
  total_instr :: "u64 list"
  total_cycles :: "u64 list"
  last_instr :: "u64 list"
  target_instr :: "int list"
  prog_times_finished :: "int list"
  quanta :: "int list"
  finish_time :: "u32 list"
  total_rtime :: "u32 list"
  total_wtime :: "u32 list"
  sched_start :: u32

text \<open>What \<open>struct linux_sched\<close> holds besides the fields that it has in common with the above (where its
  list \<open>progs\<close> is \<open>progs_all\<close> and \<open>files_open\<close> is about \<open>totalsF\<close>): the times of the programs in
  milliseconds, how often each has to run yet, and whether \<open>energyF\<close> is open. \<open>cpu_clock_n\<close> counts
  the readings of processor times.\<close>

record linux_sched =
  lx_sched_time :: int
  lx_total_rtime :: "rat list"
  lx_finish :: "rat list"
  lx_quanta :: "rat list"
  lx_average_rtime :: "rat list"
  lx_times_target :: "rat list"
  lx_cur_time :: "rat list"
  energy_open :: bool
  cpu_clock_n :: nat

section \<open>The global state\<close>

datatype action =
    Freeze int
  | Thaw int
  | SetCpus int "nat list"
  | Reattach int
  | MoveToCpuset int int
  | SendKill int
  | Forked int
  | CpusetCreated int
  | CpusetDeleted int
  | FreezerShut int
  | Notify u64
  | GetCpus int
  | MakePipe int
  | BitmaskAlloc
  | MakeExecutorPipe
  | SigProcMask bool
  | SigAction string
  | SetNonblock
  | ShmCreated int
  | ShmUnlinked int

record sys =
  events_heap :: "u64 heap"
  events :: "u64 \<Rightarrow> aff_event option"
  progs :: "u64 \<Rightarrow> aff_prog option"
  pnew_l :: "u64 list"
  pfinished_l :: "u64 list"
  waiting_nr :: int
  new_nr :: int
  running_nr :: int
  finished_nr :: int
  exec_cpus :: "int list"
  prog_pid_hash :: hash_t
  tv0 :: timeval
  massacre :: bool
  reset_qt :: bool
  running_core :: int
  CMTAvail :: bool
  DTSAvail :: bool
  PLTAvail :: bool
  TurboModeON :: bool
  MBMTAvail :: bool
  MBMLAvail :: bool
  total_quantums :: u32
  exec_timer :: tsc
  sch :: sched
  lx :: linux_sched
  mach :: machine
  mem_bm :: "nat list"
  sigchld_blocked :: bool
  mhz :: "tsc_unit \<Rightarrow> rat"
  mhz_runs :: nat
  tod_n :: nat
  tsc_n :: nat
  fork_n :: nat
  next_addr :: u64
  acts :: "action list"

text \<open>The environment: the answers to the \<open>n\<close>-th call of each kind, which allocations of the
  event heap succeed (and what a fresh block holds), which requests to the kernel succeed
  (\<open>sys_ok\<close>), the width of the processor bit masks (\<open>cpuset_cpus_nbits\<close>), the descriptors of
  the pipes, the files of the freezer at each poll that waits for the child of a \<open>fork\<close> to freeze,
  what the memory of a fresh program and of fresh scheduling data holds, what the
  processor answers to \<open>cpuid\<close> (theory \<open>Cpuid\<close>), the devices of the memory controllers, the text
  that the bitmask library displays a mask as (\<open>bitmask_displaylist\<close>), the output of the runs of the
  script that knows the clock frequency, and what its buffer held before (theory \<open>Mhz\<close>), the
  memory nodes that are allowed, if the system has several (\<open>numa_available\<close>), and the width of
  their masks, whether the log and the
  result files can be opened, the file of targets, the processor times of the programs (\<open>None\<close>
  where \<open>clock_gettime\<close> fails), and how the processor rounds the result of an operation on
  \<open>double\<close>s (\<open>fl\<close>).\<close>

record env =
  tod :: "nat \<Rightarrow> timeval"
  tsc_rd :: "nat \<Rightarrow> u64"
  fork_pid :: "nat \<Rightarrow> int"
  app_pid :: "nat \<Rightarrow> int"
  child_fs :: "nat \<Rightarrow> nat \<Rightarrow> freezer_fs"
  heap_mem_ok :: "nat \<Rightarrow> bool"
  heap_block :: "nat \<Rightarrow> u64"
  sys_ok :: "action \<Rightarrow> bool"
  cpus_nbits :: nat
  exec_fd :: u32
  prog_fd :: "nat \<Rightarrow> u32"
  prog_junk :: aff_prog
  data_junk :: prog_data
  procr :: processor
  cpu_clock :: "nat \<Rightarrow> (int \<times> int) option"
  linux_junk :: linux_data
  fl :: "rat \<Rightarrow> rat"
  pci_dev :: "nat \<times> nat \<Rightarrow> nat option"
  displaylist :: "nat list \<Rightarrow> string"
  mhz_script :: "nat \<Rightarrow> string option"
  mhz_junk :: string
  numa_mems :: "nat list option"
  mems_nbits :: nat
  fsched_ok :: bool
  results_ok :: bool
  target_file :: "string option"

section \<open>Access\<close>

text \<open>Reading the clocks.\<close>

definition gettimeofday :: "env \<Rightarrow> sys \<Rightarrow> timeval \<times> sys" where
  "gettimeofday E s = (tod E (tod_n s), s\<lparr>tod_n := Suc (tod_n s)\<rparr>)"

definition read_ticks :: "env \<Rightarrow> sys \<Rightarrow> u64 \<times> sys" where
  "read_ticks E s = (tsc_rd E (tsc_n s), s\<lparr>tsc_n := Suc (tsc_n s)\<rparr>)"

definition get_prog :: "sys \<Rightarrow> u64 \<Rightarrow> aff_prog res" where
  "get_prog s p = (case progs s p of Some prog \<Rightarrow> Inr prog | None \<Rightarrow> Inl UseAfterFree)"

definition get_pd :: "sys \<Rightarrow> u64 \<Rightarrow> prog_data res" where
  "get_pd s p = bindR (get_prog s p) (\<lambda>prog.
     case sched_data prog of Some pd \<Rightarrow> Inr pd | None \<Rightarrow> Inl UseAfterFree)"

definition upd_prog :: "u64 \<Rightarrow> (aff_prog \<Rightarrow> aff_prog) \<Rightarrow> sys \<Rightarrow> sys res" where
  "upd_prog p f s = bindR (get_prog s p) (\<lambda>prog. Inr (s\<lparr>progs := (progs s)(p \<mapsto> f prog)\<rparr>))"

definition upd_pd :: "u64 \<Rightarrow> (prog_data \<Rightarrow> prog_data) \<Rightarrow> sys \<Rightarrow> sys res" where
  "upd_pd p f s = bindR (get_pd s p) (\<lambda>pd. upd_prog p (\<lambda>prog. prog\<lparr>sched_data := Some (f pd)\<rparr>) s)"

definition get_event :: "sys \<Rightarrow> u64 \<Rightarrow> aff_event res" where
  "get_event s e = (case events s e of Some ev \<Rightarrow> Inr ev | None \<Rightarrow> Inl UseAfterFree)"

definition upd_sch :: "(sched \<Rightarrow> sched) \<Rightarrow> sys \<Rightarrow> sys" where
  "upd_sch f s = s\<lparr>sch := f (sch s)\<rparr>"

text \<open>The counters that \<open>sched->cntrs\<close> points to, freed by the finalisation.\<close>

definition get_cntrs :: "sys \<Rightarrow> aff_counters res" where
  "get_cntrs s = (case cntrs (sch s) of Some c \<Rightarrow> Inr c | None \<Rightarrow> Inl UseAfterFree)"

definition act :: "action \<Rightarrow> sys \<Rightarrow> sys" where
  "act a s = s\<lparr>acts := acts s @ [a]\<rparr>"

text \<open>A request to the kernel whose failure ends the process (\<open>perrdie\<close>, or \<open>perror\<close> and
  \<open>exit(1)\<close>).\<close>

definition request :: "env \<Rightarrow> action \<Rightarrow> sys \<Rightarrow> sys res" where
  "request E a s = (if sys_ok E a then Inr (act a s) else Inl (ExitWith 1))"

text \<open>A request that only asks for something, or whose effect nothing depends on.\<close>

definition ask :: "env \<Rightarrow> action \<Rightarrow> sys \<Rightarrow> sys res" where
  "ask E a s = guardR (sys_ok E a) (ExitWith 1) s"

text \<open>\<open>tsc_getsecs\<close> where its value is only printed: the frequency is asked for if this source file
  has none yet.\<close>

definition report_secs :: "env \<Rightarrow> tsc_unit \<Rightarrow> sys \<Rightarrow> sys res" where
  "report_secs E u s = bindR (getMhz (fl E) (mhz_junk E) (mhz_script E (mhz_runs s)) (mhz s u)) (\<lambda>v.
     Inr (s\<lparr>mhz := (mhz s)(u := v), mhz_runs := (if mhz s u = 0 then Suc (mhz_runs s) else mhz_runs s)\<rparr>))"

text \<open>\<open>malloc\<close> hands out an address that was never handed out before, or, when there is none
  left, fails, which ends the process.\<close>

definition malloc :: "sys \<Rightarrow> (u64 \<times> sys) res" where
  "malloc s = (if next_addr s = HASH_ENTRY_NOTFOUND then Inl (ExitWith 1)
               else Inr (next_addr s, s\<lparr>next_addr := next_addr s + 1\<rparr>))"

text \<open>An update of a program that asks the clocks or may fail.\<close>

definition with_tod :: "env \<Rightarrow> (timeval \<Rightarrow> sys \<Rightarrow> 'a) \<Rightarrow> sys \<Rightarrow> 'a" where
  "with_tod E f s = (case gettimeofday E s of (now, s) \<Rightarrow> f now s)"

definition with_ticks :: "env \<Rightarrow> (u64 \<Rightarrow> sys \<Rightarrow> 'a) \<Rightarrow> sys \<Rightarrow> 'a" where
  "with_ticks E f s = (case read_ticks E s of (now, s) \<Rightarrow> f now s)"

lemma with_tod_simp: "with_tod E f s = f (tod E (tod_n s)) (s\<lparr>tod_n := Suc (tod_n s)\<rparr>)"
  by (simp add: with_tod_def gettimeofday_def)

lemma with_ticks_simp: "with_ticks E f s = f (tsc_rd E (tsc_n s)) (s\<lparr>tsc_n := Suc (tsc_n s)\<rparr>)"
  by (simp add: with_ticks_def read_ticks_def)

named_theorems sys_simps \<open>unfolding of the accessors of the global state\<close>

lemmas [sys_simps] = with_tod_simp with_ticks_simp upd_sch_def act_def

lemma request_Inr [res_simps]: "request E a s = Inr s' \<longleftrightarrow> sys_ok E a \<and> s' = act a s"
  by (auto simp: request_def)

lemma ask_Inr [res_simps]: "ask E a s = Inr s' \<longleftrightarrow> sys_ok E a \<and> s' = s"
  by (auto simp: ask_def guardR_def)

lemma report_secs_fields:
  assumes "report_secs E u s = Inr t"
  obtains m n where "t = s\<lparr>mhz := m, mhz_runs := n\<rparr>"
  using assms that by (auto simp: report_secs_def bindR_eq_Inr)

lemma malloc_Inr [res_simps]:
  "malloc s = Inr r \<longleftrightarrow> next_addr s \<noteq> HASH_ENTRY_NOTFOUND
     \<and> r = (next_addr s, s\<lparr>next_addr := next_addr s + 1\<rparr>)"
  by (auto simp: malloc_def)

lemma get_prog_Some [simp]: "progs s p = Some prog \<Longrightarrow> get_prog s p = Inr prog"
  by (simp add: get_prog_def)

lemma get_pd_Some [simp]: "progs s p = Some prog \<Longrightarrow> sched_data prog = Some pd \<Longrightarrow> get_pd s p = Inr pd"
  by (simp add: get_pd_def)

lemma upd_prog_Some [simp]:
  "progs s p = Some prog \<Longrightarrow> upd_prog p f s = Inr (s\<lparr>progs := (progs s)(p \<mapsto> f prog)\<rparr>)"
  by (simp add: upd_prog_def)

lemma upd_pd_Some [simp]:
  "progs s p = Some prog \<Longrightarrow> sched_data prog = Some pd \<Longrightarrow>
     upd_pd p f s = Inr (s\<lparr>progs := (progs s)(p \<mapsto> prog\<lparr>sched_data := Some (f pd)\<rparr>)\<rparr>)"
  by (simp add: upd_pd_def)

lemma upd_prog_Inr [res_simps]:
  "upd_prog p f s = Inr s' \<longleftrightarrow> (\<exists>prog. progs s p = Some prog \<and> s' = s\<lparr>progs := (progs s)(p \<mapsto> f prog)\<rparr>)"
  by (auto simp: upd_prog_def get_prog_def bindR_def split: option.splits sum.splits)

lemma upd_pd_Inr [res_simps]:
  "upd_pd p f s = Inr s' \<longleftrightarrow> (\<exists>prog pd. progs s p = Some prog \<and> sched_data prog = Some pd
     \<and> s' = s\<lparr>progs := (progs s)(p \<mapsto> prog\<lparr>sched_data := Some (f pd)\<rparr>)\<rparr>)"
  by (auto simp: upd_pd_def upd_prog_def get_pd_def get_prog_def bindR_def split: option.splits sum.splits)

lemma get_prog_Inr [res_simps]: "get_prog s p = Inr prog \<longleftrightarrow> progs s p = Some prog"
  by (auto simp: get_prog_def split: option.splits)

lemma get_pd_Inr [res_simps]:
  "get_pd s p = Inr pd \<longleftrightarrow> (\<exists>prog. progs s p = Some prog \<and> sched_data prog = Some pd)"
  by (auto simp: get_pd_def get_prog_def bindR_def split: option.splits sum.splits)

lemma get_event_Inr [res_simps]: "get_event s e = Inr ev \<longleftrightarrow> events s e = Some ev"
  by (auto simp: get_event_def split: option.splits)

lemma get_cntrs_Inr [res_simps]: "get_cntrs s = Inr c \<longleftrightarrow> cntrs (sch s) = Some c"
  by (auto simp: get_cntrs_def split: option.splits)

end
