(* ===== verification/Executor.thy ===== *)
theory Executor
  imports SysState Parse
begin

text \<open>
  The executor, \<open>src/aff-executor.c\<close>: the life of a program (WAITING in the event heap, NEW,
  RUNNING, FINISHED), the events, the processor sets, the start of programs, the handlers of the
  signals, the main loop. A scheduling policy is a record of the functions that
  \<open>register_scheduler\<close> registers. Printing is left out; what the executor asks of the kernel
  (\<open>cpuset_*\<close>, \<open>fork\<close>, \<open>kill\<close>, the freezer) is a request whose failure ends the process
  where the code says so.
\<close>

section \<open>Printing a program\<close>

text \<open>The processors of a program are asked for and displayed in a buffer of 512 bytes; the library
  answers the length that the whole text has.\<close>

definition aff_prog_cpuset_str :: "env \<Rightarrow> u64 \<Rightarrow> sys \<Rightarrow> string res" where
  "aff_prog_cpuset_str E p s = bindR (get_prog s p) (\<lambda>prog. bindR (ask E (GetCpus (prog_id prog)) s) (\<lambda>_.
     guardR (length (displaylist E (cpuset prog)) \<le> 511) (ExitWith 1) (displaylist E (cpuset prog))))"

definition aff_prog_print :: "env \<Rightarrow> u64 \<Rightarrow> sys \<Rightarrow> sys res" where
  "aff_prog_print E p s = bindR (aff_prog_cpuset_str E p s) (\<lambda>_. Inr s)"

text \<open>The log is opened without a check; the first message to it faults where that failed.\<close>

definition with_log :: "env \<Rightarrow> sys \<Rightarrow> sys res" where
  "with_log E s = guardR (fsched_ok E) BadAccess s"

text \<open>How a program ended: with \<open>exit\<close> (\<open>WIFEXITED\<close>), which is printed with its seconds, or not.\<close>

definition aff_prog_check_status :: "env \<Rightarrow> u64 \<Rightarrow> bool \<Rightarrow> sys \<Rightarrow> sys res" where
  "aff_prog_check_status E p exited s = (if exited
     then bindR (get_prog s p) (\<lambda>_. bindR (report_secs E UNIT_EXECUTOR s) (aff_prog_print E p))
     else aff_prog_print E p s)"

text \<open>The types of events are closed in the model, so no event is of an unknown one. The heap prints
  its elements with the second function.\<close>

definition aff_event_print :: "env \<Rightarrow> aff_event \<Rightarrow> sys \<Rightarrow> sys res" where
  "aff_event_print E ev s = bindR (with_log E s) (\<lambda>s. case kind ev of
       EVNT_QEXPIRED \<Rightarrow> Inr s
     | EVNT_NEWPROG \<Rightarrow> aff_prog_print E (ev_prog ev) s
     | EVNT_SAMPLING \<Rightarrow> Inr s)"

definition aff_event_print_ul :: "env \<Rightarrow> u64 \<Rightarrow> sys \<Rightarrow> sys res" where
  "aff_event_print_ul E evnt_ul s = bindR (get_event s evnt_ul) (\<lambda>ev. aff_event_print E ev s)"

section \<open>Life cycle\<close>

text \<open>A program's list node is in one list at most; taking it out of its list takes its address
  out of the sequence that holds it.\<close>

definition unlink :: "u64 \<Rightarrow> sys \<Rightarrow> sys" where
  "unlink p s = s\<lparr>pnew_l := removeAll p (pnew_l s), pfinished_l := removeAll p (pfinished_l s),
     sch := (sch s)\<lparr>progs_all := removeAll p (progs_all (sch s)),
                   progs_sch := removeAll p (progs_sch (sch s))\<rparr>\<rparr>"

definition aff_prog_waiting_new :: "u64 \<Rightarrow> sys \<Rightarrow> sys res" where
  "aff_prog_waiting_new p s = bindR (get_prog s p) (\<lambda>_.
     Inr (s\<lparr>waiting_nr := waiting_nr s - 1, pnew_l := pnew_l s @ [p], new_nr := new_nr s + 1\<rparr>))"

definition aff_prog_new_running :: "env \<Rightarrow> u64 \<Rightarrow> sys \<Rightarrow> sys res" where
  "aff_prog_new_running E p s = bindR (get_prog s p) (\<lambda>prog.
     bindR (hash_insert (prog_pid_hash s) (u64_of_int (shell_pid prog)) p) (\<lambda>hash.
     bindR (aff_prog_print E p (s\<lparr>new_nr := new_nr s - 1, running_nr := running_nr s + 1, prog_pid_hash := hash\<rparr>))
       (with_ticks E (\<lambda>now. upd_prog p (\<lambda>prog. prog\<lparr>timer := tsc_start now (tsc_init (timer prog))\<rparr>)))))"

definition aff_prog_running_finished :: "env \<Rightarrow> int \<Rightarrow> bool \<Rightarrow> sys \<Rightarrow> sys res" where
  "aff_prog_running_finished E pid exited s =
     bindR (hash_delete (prog_pid_hash s) (u64_of_int pid)) (\<lambda>(hash, p).
     if p = HASH_ENTRY_NOTFOUND then Inl AssertFailed
     else bindR (with_ticks E (\<lambda>now. upd_prog p (\<lambda>prog. prog\<lparr>timer := tsc_pause now (timer prog)\<rparr>))
                  (s\<lparr>prog_pid_hash := hash\<rparr>)) (\<lambda>s.
       bindR (aff_prog_check_status E p exited s) (\<lambda>s.
       let s = unlink p (s\<lparr>running_nr := running_nr s - 1\<rparr>)
       in Inr (s\<lparr>pfinished_l := pfinished_l s @ [p], finished_nr := finished_nr s + 1\<rparr>))))"

section \<open>Events\<close>

definition event_time :: "(u64 \<Rightarrow> aff_event option) \<Rightarrow> u64 \<Rightarrow> timeval" where
  "event_time evs e = (case evs e of Some ev \<Rightarrow> tv ev | None \<Rightarrow> \<lparr>tv_sec = 0, tv_usec = 0\<rparr>)"

definition aff_event_leq_ul :: "(u64 \<Rightarrow> aff_event option) \<Rightarrow> u64 \<Rightarrow> u64 \<Rightarrow> bool" where
  "aff_event_leq_ul evs evnt1 evnt2 \<longleftrightarrow> \<not> timer_gt (event_time evs evnt1) (event_time evs evnt2)"

text \<open>The comparison reads the events through their addresses, so the heap compares with the
  times the events have at the moment of the operation. Events in the heap are not freed
  (theory \<open>Selection\<close>, \<open>queue_ok\<close>), so the default of \<open>event_time\<close> is not reached.\<close>

definition event_heap :: "sys \<Rightarrow> u64 heap" where
  "event_heap s = (events_heap s)\<lparr>leq_fn := aff_event_leq_ul (events s)\<rparr>"

definition push_event :: "env \<Rightarrow> u64 \<Rightarrow> sys \<Rightarrow> sys res" where
  "push_event E e s = bindR (heap_push (heap_mem_ok E) (event_heap s) e) (\<lambda>h.
     Inr (s\<lparr>events_heap := h\<rparr>))"

definition aff_evnt_alloc :: "event_kind \<Rightarrow> sys \<Rightarrow> (u64 \<times> sys) res" where
  "aff_evnt_alloc k s = bindR (malloc s) (\<lambda>(e, s).
     Inr (e, s\<lparr>events := (events s)(e \<mapsto> \<lparr>kind = k, tv = \<lparr>tv_sec = 0, tv_usec = 0\<rparr>, ev_prog = 0\<rparr>)\<rparr>))"

definition aff_evnt_dealloc :: "u64 \<Rightarrow> sys \<Rightarrow> sys" where
  "aff_evnt_dealloc e s = s\<lparr>events := (events s)(e := None)\<rparr>"

text \<open>The assignment to \<open>qt_event.tv\<close>.\<close>

definition set_qt_event :: "timeval \<Rightarrow> sys \<Rightarrow> sys" where
  "set_qt_event t s = s\<lparr>events := (events s)(qt_event \<mapsto> \<lparr>kind = EVNT_QEXPIRED, tv = t, ev_prog = 0\<rparr>)\<rparr>"

section \<open>Processors\<close>

text \<open>\<open>bitmask_setbit\<close> of the bitmask library ignores bits beyond the width; a mask is the list
  of its bits.\<close>

definition bitmask_setbit :: "env \<Rightarrow> nat list \<Rightarrow> int \<Rightarrow> nat list" where
  "bitmask_setbit E bm i =
     (if 0 \<le> i \<and> i < int (cpus_nbits E) \<and> nat i \<notin> set bm then bm @ [nat i] else bm)"

definition do_setcpumask :: "env \<Rightarrow> u64 \<Rightarrow> nat list \<Rightarrow> sys \<Rightarrow> sys res" where
  "do_setcpumask E p bm s = bindR (get_prog s p) (\<lambda>prog.
     bindR (upd_prog p (\<lambda>prog. prog\<lparr>cpuset := bm\<rparr>) s) (request E (SetCpus (prog_id prog) bm)))"

definition schedule_setcpus :: "env \<Rightarrow> u64 \<Rightarrow> nat list \<Rightarrow> sys \<Rightarrow> sys res" where
  "schedule_setcpus E p bm s = bindR (do_setcpumask E p bm s)
     (upd_prog p (\<lambda>prog. prog\<lparr>prog_shm := aff_shm_set_cpus_assigned (prog_shm prog) (of_nat (length bm))\<rparr>))"

definition range_mask :: "env \<Rightarrow> int list \<Rightarrow> int \<Rightarrow> int \<Rightarrow> nat list res" where
  "range_mask E cs rstart rend =
     foldR (\<lambda>i bm. bindR (arr_get cs i) (\<lambda>c. Inr (bitmask_setbit E bm c))) [rstart..rend - 1] []"

definition schedule_setcpurange :: "env \<Rightarrow> u64 \<Rightarrow> int \<Rightarrow> int \<Rightarrow> sys \<Rightarrow> sys res" where
  "schedule_setcpurange E p rstart rend s =
     bindR (range_mask E (exec_cpus s) rstart rend) (\<lambda>bm. schedule_setcpus E p bm s)"

text \<open>A failing \<open>cpuset_reattach\<close> is only reported.\<close>

definition schedule_reattach :: "u64 \<Rightarrow> sys \<Rightarrow> sys res" where
  "schedule_reattach p s = bindR (get_prog s p) (\<lambda>prog. Inr (act (Reattach (prog_id prog)) s))"

section \<open>Programs\<close>

text \<open>The shared page of a program is created empty (\<open>shm_open\<close>, \<open>ftruncate\<close>, \<open>mmap\<close>); when the program
  is gone its name is removed, whether or not that succeeds.\<close>

definition aff_shm_alloc :: "env \<Rightarrow> u64 \<Rightarrow> sys \<Rightarrow> sys res" where
  "aff_shm_alloc E p s = bindR (get_prog s p) (\<lambda>prog. bindR (ask E (ShmCreated (prog_id prog)) s)
     (upd_prog p (\<lambda>prog. prog\<lparr>prog_shm :=
       aff_shm_set_app_handler (aff_shm_set_cpus_assigned (aff_shm_set_cpus_arch
         (aff_shm_set_fd_executor (\<lambda>_. 0) (exec_fd E)) (of_nat (length (exec_cpus s)))) 0) p\<rparr>)))"

definition aff_shm_dealloc :: "u64 \<Rightarrow> sys \<Rightarrow> sys res" where
  "aff_shm_dealloc p s = bindR (get_prog s p) (\<lambda>prog. Inr (act (ShmUnlinked (prog_id prog)) s))"

text \<open>The other fields hold what \<open>malloc\<close> leaves in them; the list of bits of a fresh cpuset is
  empty.\<close>

definition fresh_prog :: "env \<Rightarrow> int \<Rightarrow> aff_prog" where
  "fresh_prog E ident = (prog_junk E)\<lparr>prog_id := ident, cpuset := [], sched_data := None, lx_data := None\<rparr>"

definition aff_prog_alloc :: "env \<Rightarrow> int \<Rightarrow> sys \<Rightarrow> (u64 \<times> sys) res" where
  "aff_prog_alloc E ident s = bindR (malloc s) (\<lambda>(p, s).
     bindR (request E (CpusetCreated ident) (s\<lparr>progs := (progs s)(p \<mapsto> fresh_prog E ident)\<rparr>)) (\<lambda>s.
     bindR (aff_shm_alloc E p s) (\<lambda>s. Inr (p, s))))"

definition aff_prog_dealloc :: "env \<Rightarrow> u64 \<Rightarrow> sys \<Rightarrow> sys res" where
  "aff_prog_dealloc E p s = bindR (get_prog s p) (\<lambda>prog.
     bindR (request E (CpusetDeleted (prog_id prog)) s) (\<lambda>s.
     bindR (if prog_pid prog \<noteq> 0 then request E (FreezerShut (prog_id prog)) s else Inr s) (\<lambda>s.
     bindR (aff_shm_dealloc p s) (\<lambda>s.
     Inr (s\<lparr>progs := (progs s)(p := None)\<rparr>)))))"

text \<open>The executor moving itself into the processors of a program; nothing calls it.\<close>

definition sched_self :: "env \<Rightarrow> u64 \<Rightarrow> sys \<Rightarrow> sys res" where
  "sched_self E p s = bindR (get_prog s p) (\<lambda>prog. request E (MoveToCpuset 0 (prog_id prog)) s)"

definition sched_prog :: "env \<Rightarrow> u64 \<Rightarrow> sys \<Rightarrow> sys res" where
  "sched_prog E p s = bindR (get_prog s p) (\<lambda>prog.
     request E (MoveToCpuset (prog_pid prog) (prog_id prog)) s)"

text \<open>The path of a program, in an array of 32 characters.\<close>

definition show_int :: "int \<Rightarrow> string" where
  "show_int n = (if n < 0 then CHR ''-'' # show_nat (nat (- n)) else show_nat (nat n))"

definition idpath :: "int \<Rightarrow> string" where
  "idpath ident = take 31 (''/AFF_'' @ show_int ident)"

text \<open>The busy wait for the \<open>n\<close>-th child to freeze itself: it ends at the first poll that finds the group
  frozen or that fails; where no poll does it never ends. What the static buffer of the freezer
  held before does not matter (\<open>wait_frozen_path\<close>).\<close>

definition await_frozen :: "env \<Rightarrow> nat \<Rightarrow> int \<Rightarrow> nat res" where
  "await_frozen E n ident = (case wait_frozen (idpath ident) frzr_path0 (child_fs E n) 0 of
     None \<Rightarrow> Inl (NeverReturns n ident) | Some r \<Rightarrow> r)"

text \<open>
  \<open>do_execute\<close>. The child writes the read end of its pipe into the page before it becomes the
  program, and the program (its preload object, theory \<open>ShmMap\<close>) writes its pid there and freezes
  itself; the parent polls until it reads FROZEN and goes on with the pid it then finds.
\<close>

definition do_execute :: "env \<Rightarrow> u64 \<Rightarrow> sys \<Rightarrow> sys res" where
  "do_execute E p s =
     bindR (get_prog s p) (\<lambda>prog. bindR (ask E (MakePipe (prog_id prog)) s) (\<lambda>s. bindR (aff_prog_print E p s) (\<lambda>s.
     let n = fork_n s; pid = fork_pid E n; s = s\<lparr>fork_n := Suc n\<rparr>
      in if pid < 0 then Inl (ExitWith 1)
         else bindR (upd_prog p (\<lambda>prog. prog\<lparr>shell_pid := pid,
                prog_shm := aff_shm_set_app_pid (aff_shm_set_fd_app (prog_shm prog) (prog_fd E n))
                              (u32_of_int (app_pid E n))\<rparr>) (act (Forked pid) s)) (\<lambda>s.
           bindR (await_frozen E n (prog_id prog)) (\<lambda>_.
           bindR (upd_prog p (\<lambda>prog. prog\<lparr>prog_pid := s32_of_u32 (aff_shm_get_app_pid (prog_shm prog))\<rparr>) s) (\<lambda>s.
           bindR (schedule_setcpurange E p 0 (int (length (exec_cpus s))) s) (sched_prog E p)))))))"

section \<open>Reading the workload\<close>

definition fill_fields :: "prog_line \<Rightarrow> aff_prog \<Rightarrow> aff_prog" where
  "fill_fields l prog = prog\<lparr>times_cpu := 0, llc_alone := 0, sum_mem_reads := 0, mem_reads := 0,
     ratio := 0, instr_retd_sum := 0, ideal_instr := 0, prog_pid := 0,
     start_time := pl_start_time l, mem_needed := pl_mem_needed l, thr_needed := pl_thr_needed l,
     thr_real := pl_thr_real l, cores_needed := pl_cores_needed l, cmd := pl_cmd l\<rparr>"

text \<open>One round of the loop of \<open>parse_file\<close>, for the program number \<open>cnt\<close>.\<close>

definition new_event_prog :: "u64 \<Rightarrow> u64 \<Rightarrow> sys \<Rightarrow> sys res" where
  "new_event_prog e p s = bindR (get_prog s p) (\<lambda>prog.
     Inr (s\<lparr>events := (events s)(e \<mapsto> \<lparr>kind = EVNT_NEWPROG,
       tv = \<lparr>tv_sec = start_time prog, tv_usec = 0\<rparr>, ev_prog = p\<rparr>)\<rparr>))"

definition parse_prog :: "env \<Rightarrow> string \<Rightarrow> int \<times> sys \<Rightarrow> (int \<times> sys) res" where
  "parse_prog E buff cs = (case cs of (cnt, s) \<Rightarrow>
     bindR (aff_evnt_alloc EVNT_NEWPROG s) (\<lambda>(e, s).
     bindR (aff_prog_alloc E cnt s) (\<lambda>(p, s).
     bindR (parse_line buff) (\<lambda>l.
     bindR (upd_prog p (fill_fields l) (s\<lparr>running_core := s32_of_u64 (u64_of_int (pl_thr_needed l))\<rparr>)) (\<lambda>s.
     bindR (do_execute E p s) (\<lambda>s.
     bindR (new_event_prog e p s) (\<lambda>s.
     bindR (push_event E e s) (\<lambda>s.
     Inr (cnt + 1, s\<lparr>waiting_nr := waiting_nr s + 1\<rparr>)))))))))"

text \<open>The file may be missing (\<open>None\<close>).\<close>

definition parse_file :: "env \<Rightarrow> string option \<Rightarrow> sys \<Rightarrow> sys res" where
  "parse_file E file s = (case file of None \<Rightarrow> Inl (ExitWith 1)
    | Some contents \<Rightarrow> bindR (file_lines contents) (\<lambda>ls.
        bindR (foldR (parse_prog E) ls (1000, s)) (\<lambda>(cnt, s). Inr s)))"

definition get_mems_all :: "env \<Rightarrow> sys \<Rightarrow> (nat list \<times> sys) res" where
  "get_mems_all E s = (case numa_mems E of
      Some m \<Rightarrow> bindR (with_log E s) (\<lambda>s. Inr (m, s))
    | None \<Rightarrow> bindR (ask E BitmaskAlloc s) (\<lambda>s. Inr (if 0 < mems_nbits E then [0] else [], s)))"

definition MAX_PROGS :: nat where "MAX_PROGS = 128"

text \<open>The memory nodes of the programs: node 1 is taken out of the allowed ones and node 0 put in.\<close>

definition set_memset :: "nat list \<Rightarrow> nat list" where
  "set_memset m = (let m = filter (\<lambda>i. i \<noteq> 1) m in if 0 \<in> set m then m else m @ [0])"

definition init_state :: "env \<Rightarrow> string option \<Rightarrow> string \<Rightarrow> sys \<Rightarrow> sys res" where
  "init_state E conf cpus_str s =
     bindR (hash_init (heap_mem_ok E) MAX_PROGS) (\<lambda>hash.
     bindR (parse_intlist (heap_mem_ok E) cpus_str MAX_PROGS) (\<lambda>cs.
     bindR (get_mems_all E s) (\<lambda>(m, s).
     bindR (ask E BitmaskAlloc s) (\<lambda>s. bindR (ask E MakeExecutorPipe s) (\<lambda>s. bindR (with_log E s) (\<lambda>s.
     bindR (heap_init (heap_mem_ok E) (heap_block E) (Some (aff_event_leq_ul (events s)))) (\<lambda>h.
     bindR (parse_file E conf (s\<lparr>pnew_l := [], pfinished_l := [], prog_pid_hash := hash,
       exec_cpus := cs, CMTAvail := False, DTSAvail := False, PLTAvail := False, TurboModeON := False,
       MBMTAvail := False, MBMLAvail := False,
       events_heap := h, mem_bm := set_memset m\<rparr>)) (\<lambda>s.
     Inr (s\<lparr>exec_timer := tsc_init (exec_timer s)\<rparr>)))))))))"

section \<open>Respawn\<close>

definition get_now :: "env \<Rightarrow> sys \<Rightarrow> timeval \<times> sys" where
  "get_now E s = (case gettimeofday E s of (now_abs, s) \<Rightarrow> (timersub now_abs (tv0 s), s))"

definition respawn_fields :: "aff_prog \<Rightarrow> timeval \<Rightarrow> aff_prog \<Rightarrow> aff_prog" where
  "respawn_fields old now new = new\<lparr>prog_pid := 0, start_time := s32_of_u64 (u64_of_int (tv_sec now)),
     cores_needed := cores_needed old, mem_needed := mem_needed old, thr_needed := thr_needed old,
     thr_real := thr_real old, ratio := ratio old, instr_retd_sum := instr_retd_sum old,
     ideal_instr := ideal_instr old, times_cpu := times_cpu old, sum_mem_reads := sum_mem_reads old,
     mem_reads := mem_reads old, llc_alone := llc_alone old, cmd := cmd old\<rparr>"

definition prog_respawn :: "env \<Rightarrow> u64 \<Rightarrow> int \<Rightarrow> sys \<Rightarrow> sys res" where
  "prog_respawn E p ident s = (case get_now E s of (now, s) \<Rightarrow>
     bindR (aff_evnt_alloc EVNT_NEWPROG s) (\<lambda>(e, s).
     bindR (aff_prog_alloc E ident s) (\<lambda>(new, s).
     bindR (get_prog s p) (\<lambda>old.
     bindR (upd_prog new (respawn_fields old now) s) (\<lambda>s.
     bindR (do_execute E new s) (\<lambda>s.
     bindR (new_event_prog e new s) (\<lambda>s.
     bindR (push_event E e s) (\<lambda>s.
     Inr (s\<lparr>waiting_nr := waiting_nr s + 1\<rparr>)))))))))"

section \<open>Policies\<close>

text \<open>What \<open>register_scheduler\<close> stores: a policy's name and functions; \<open>qexpired\<close> and
  \<open>prog_changed\<close> may be null.\<close>

record aff_scheduler =
  sched_name :: string
  sched_init :: "env \<Rightarrow> sys \<Rightarrow> sys res"
  rebalance :: "env \<Rightarrow> sys \<Rightarrow> sys res"
  qexpired :: "(env \<Rightarrow> timeval \<Rightarrow> sys \<Rightarrow> sys res) option"
  prog_changed :: "(u64 \<Rightarrow> int \<Rightarrow> sys \<Rightarrow> (bool \<times> sys) res) option"

definition register_scheduler :: "aff_scheduler \<Rightarrow> aff_scheduler list \<Rightarrow> aff_scheduler list" where
  "register_scheduler sched aff_schedulers = aff_schedulers @ [sched]"

fun get_scheduler :: "string \<Rightarrow> aff_scheduler list \<Rightarrow> aff_scheduler res" where
  "get_scheduler nm [] = Inl (ExitWith 1)"
| "get_scheduler nm (sched # scheds) =
     (if nm = sched_name sched then Inr sched else get_scheduler nm scheds)"

section \<open>Termination\<close>

definition shutdown :: "env \<Rightarrow> sys \<Rightarrow> sys res" where
  "shutdown E s = bindR (with_ticks E (\<lambda>now s. report_secs E UNIT_EXECUTOR
       (s\<lparr>exec_timer := tsc_pause now (exec_timer s)\<rparr>)) s) (\<lambda>s.
     Inl (ExitWith (if massacre s then 42 else 0)))"

definition check_shutdown :: "env \<Rightarrow> sys \<Rightarrow> sys res" where
  "check_shutdown E s =
     (if running_nr s = 0 \<and> waiting_nr s = 0 \<and> new_nr s = 0 then shutdown E s else Inr s)"

section \<open>Signals\<close>

definition sigterm_handler :: "sys \<Rightarrow> sys" where
  "sigterm_handler s = s\<lparr>massacre := True\<rparr>"

text \<open>The mask of the process; blocked while events are handled.\<close>

definition signals_disable :: "env \<Rightarrow> sys \<Rightarrow> sys res" where
  "signals_disable E s = bindR (ask E (SigProcMask True) s) (\<lambda>s. Inr (s\<lparr>sigchld_blocked := True\<rparr>))"

definition signals_enable :: "env \<Rightarrow> sys \<Rightarrow> sys res" where
  "signals_enable E s = bindR (ask E (SigProcMask False) s) (\<lambda>s. Inr (s\<lparr>sigchld_blocked := False\<rparr>))"

definition install_signal_handlers :: "env \<Rightarrow> sys \<Rightarrow> sys res" where
  "install_signal_handlers E s =
     bindR (ask E (SigAction ''SIGCHLD'') s) (ask E (SigAction ''SIGTERM''))"

text \<open>The answers of \<open>waitpid\<close>: a failure (with \<open>errno = ECHILD\<close> or not), nothing to report, a
  child that stopped, a child that ended (by \<open>exit\<close> or not).\<close>

datatype wait_result = WaitFailed bool | WaitNone | ChildStopped int | ChildEnded int bool

fun reap :: "env \<Rightarrow> wait_result list \<Rightarrow> sys \<times> nat \<Rightarrow> (sys \<times> nat) res" where
  "reap E [] sd = Inr sd"
| "reap E (WaitFailed echild # rs) sd = (if echild then Inr sd else Inl (ExitWith 1))"
| "reap E (WaitNone # rs) sd = Inr sd"
| "reap E (ChildStopped pid # rs) (s, deaths) =
     (if running_nr s = 0 then Inr (s, deaths) else reap E rs (s, deaths))"
| "reap E (ChildEnded pid exited # rs) (s, deaths) =
     (if running_nr s = 0 then Inr (s, deaths)
      else bindR (aff_prog_running_finished E pid exited s) (\<lambda>s. reap E rs (s, deaths + 1)))"

definition sigchld_handler :: "env \<Rightarrow> aff_scheduler \<Rightarrow> wait_result list \<Rightarrow> sys \<Rightarrow> sys res" where
  "sigchld_handler E S rs s = bindR (reap E rs (s, 0)) (\<lambda>(s, deaths).
     bindR (if deaths > 0 then rebalance S E s else Inr s) (check_shutdown E))"

section \<open>Handling events\<close>

text \<open>Sampling is not compiled in (\<open>AFF_PRFCNT\<close>).\<close>

definition handle_event :: "env \<Rightarrow> aff_scheduler \<Rightarrow> u64 \<Rightarrow> timeval \<Rightarrow> sys \<Rightarrow> sys res" where
  "handle_event E S e now s = bindR (get_event s e) (\<lambda>ev. case kind ev of
       EVNT_NEWPROG \<Rightarrow> bindR (aff_prog_waiting_new (ev_prog ev) s) (\<lambda>s. Inr (aff_evnt_dealloc e s))
     | EVNT_SAMPLING \<Rightarrow> Inr s
     | EVNT_QEXPIRED \<Rightarrow> (case qexpired S of Some f \<Rightarrow> f E now s | None \<Rightarrow> Inr s))"

text \<open>The loop over the events that are due; the answer also holds what \<open>next_wakeup\<close> is set to,
  if it is.\<close>

partial_function (option) select_ready_events ::
    "env \<Rightarrow> aff_scheduler \<Rightarrow> timeval \<Rightarrow> sys \<Rightarrow> (sys \<times> timeval option) res option" where
  "select_ready_events E S now s = (case heap_peek (event_heap s) of
       Inl f \<Rightarrow> Some (Inl f)
     | Inr None \<Rightarrow> Some (Inr (s, None))
     | Inr (Some e) \<Rightarrow> (case get_event s e of
           Inl f \<Rightarrow> Some (Inl f)
         | Inr ev \<Rightarrow>
             if timer_gt (tv ev) now then Some (Inr (s, Some (timersub (tv ev) now)))
             else (case heap_pop (event_heap s) of
                 Inl f \<Rightarrow> Some (Inl f)
               | Inr (h, r) \<Rightarrow> (case handle_event E S (case r of Some e' \<Rightarrow> e' | None \<Rightarrow> e) now (s\<lparr>events_heap := h\<rparr>) of
                     Inl f \<Rightarrow> Some (Inl f)
                   | Inr s' \<Rightarrow> select_ready_events E S now s'))))"

text \<open>The wake-up time starts as zero (\<open>timerclear\<close> in \<open>main\<close>).\<close>

definition handle_events :: "env \<Rightarrow> aff_scheduler \<Rightarrow> sys \<Rightarrow> (sys \<times> timeval) res option" where
  "handle_events E S s = (case get_now E s of (now, s) \<Rightarrow>
     map_option (\<lambda>r. bindR r (\<lambda>(s, w).
       bindR (if new_nr s > 0 then rebalance S E s else Inr s) (\<lambda>s.
       Inr (s, case w of Some t \<Rightarrow> t | None \<Rightarrow> \<lparr>tv_sec = 0, tv_usec = 0\<rparr>))))
     (select_ready_events E S now s))"

section \<open>Notifications of programs\<close>

text \<open>The loop is bounded by \<open>sizeof(prog_fds)\<close>, which is 64 bytes, but the array has 16 slots.
  A message is the address of the program that sends it.\<close>

fun read_notifications ::
    "aff_scheduler \<Rightarrow> nat \<Rightarrow> u64 list \<Rightarrow> bool \<times> u64 list \<times> sys \<Rightarrow> (bool \<times> u64 list \<times> sys) res" where
  "read_notifications S cnt [] r = Inr r"
| "read_notifications S cnt (p # ps) (rebal, fds, s) =
     (if cnt \<ge> 64 then Inr (rebal, fds, s)
      else bindR (get_prog s p) (\<lambda>prog.
        bindR (case prog_changed S of
            Some f \<Rightarrow> f p (s32_of_u32 (aff_shm_get_cpus_requested (prog_shm prog))) s
          | None \<Rightarrow> Inr (False, s)) (\<lambda>(b, s).
        if cnt \<ge> 16 then Inl BadAccess
        else read_notifications S (Suc cnt) ps (rebal \<or> b, fds @ [p], s))))"

definition handle_prog_notifications :: "env \<Rightarrow> aff_scheduler \<Rightarrow> u64 list \<Rightarrow> sys \<Rightarrow> sys res" where
  "handle_prog_notifications E S ps s =
     bindR (read_notifications S 0 ps (False, [], s)) (\<lambda>(rebal, fds, s).
     bindR (if rebal then rebalance S E s else Inr s) (\<lambda>s.
     foldR (\<lambda>p. request E (Notify p)) (rev fds) s))"

section \<open>The main loop\<close>

text \<open>The timer of the quantum is set back while the event is in the heap: its time changes in
  place, then it is taken out by search and put in again.\<close>

definition reset_quantum :: "env \<Rightarrow> sys \<Rightarrow> sys res" where
  "reset_quantum E s = (case get_now E s of (now, s) \<Rightarrow>
     let s = set_qt_event (timeradd qt now) s
     in bindR (heap_pop_elem (event_heap s) qt_event) (\<lambda>(h, _).
        push_event E qt_event (s\<lparr>events_heap := h\<rparr>)))"

text \<open>What ends a \<open>select\<close>: its time ran out, the pipe is readable and holds these messages, or a
  signal was handled.\<close>

datatype wake = Timeout | Readable "u64 list" | GotChild "wait_result list" | GotTerm

fun wake_up :: "env \<Rightarrow> aff_scheduler \<Rightarrow> wake \<Rightarrow> sys \<Rightarrow> sys res" where
  "wake_up E S Timeout s = Inr s"
| "wake_up E S (Readable ps) s = handle_prog_notifications E S ps s"
| "wake_up E S (GotChild rs) s = sigchld_handler E S rs s"
| "wake_up E S GotTerm s = Inr (sigterm_handler s)"

definition select_once :: "env \<Rightarrow> aff_scheduler \<Rightarrow> wake \<Rightarrow> sys \<Rightarrow> sys res" where
  "select_once E S w s = bindR (wake_up E S w s) (\<lambda>s. if reset_qt s then reset_quantum E s else Inr s)"

text \<open>One round of the main loop: events, then \<open>select\<close> until its time is up (the list says what
  woke it before).\<close>

definition main_round :: "env \<Rightarrow> aff_scheduler \<Rightarrow> wake list \<Rightarrow> sys \<Rightarrow> sys res option" where
  "main_round E S ws s = (case signals_disable E s of Inl f \<Rightarrow> Some (Inl f) | Inr s \<Rightarrow>
     map_option (\<lambda>r. bindR r (\<lambda>(s, next_wakeup). bindR (signals_enable E s) (\<lambda>s.
       bindR (foldR (select_once E S) (ws @ [Timeout]) s) (check_shutdown E)))) (handle_events E S s))"

text \<open>What comes before the loop: once the policy is known, and from the start.\<close>

definition main_begin :: "env \<Rightarrow> aff_scheduler \<Rightarrow> sys \<Rightarrow> sys res" where
  "main_begin E S s =
     bindR (sched_init S E s) (\<lambda>s.
     bindR (install_signal_handlers E s) (\<lambda>s.
     bindR (heap_peek (event_heap s)) (\<lambda>r. case r of None \<Rightarrow> Inl (ExitWith 1) | Some _ \<Rightarrow>
     bindR (with_ticks E (\<lambda>t s. with_tod E (\<lambda>now s. Inr (s\<lparr>tv0 := now\<rparr>))
       (s\<lparr>exec_timer := tsc_start t (exec_timer s)\<rparr>)) s) (ask E SetNonblock))))"

definition main_start :: "env \<Rightarrow> aff_scheduler \<Rightarrow> string option \<Rightarrow> string \<Rightarrow> sys \<Rightarrow> sys res" where
  "main_start E S conf cpus_str s = bindR (init_state E conf cpus_str s) (main_begin E S)"

text \<open>\<open>main\<close> up to its loop, on the arguments of the command line (the first is the name of the program):
  the workload, the processors, the policy. The path of the workload is copied into an array of
  500 bytes with no room checked, and is then printed up to the terminator behind it. A policy
  that is not there is noticed when the programs have been started.\<close>

definition exec_main ::
    "env \<Rightarrow> aff_scheduler list \<Rightarrow> (string \<Rightarrow> string option) \<Rightarrow> string list \<Rightarrow> sys \<Rightarrow> (aff_scheduler \<times> sys) res" where
  "exec_main E scheds files argv s =
     (if length argv < 3 then Inl (ExitWith 1)
      else if length (argv ! 1) \<ge> 500 then Inl BadAccess
      else bindR (init_state E (files (argv ! 1)) (argv ! 2) s) (\<lambda>s.
        bindR (get_scheduler (if length argv > 3 then argv ! 3 else ''linux'') scheds) (\<lambda>S.
        bindR (main_begin E S s) (\<lambda>s. Inr (S, s)))))"

end
