(* ===== verification/Selection.thy ===== *)
theory Selection
  imports Executor
begin

text \<open>
  The selection of ready events (\<open>select_ready_events\<close> of \<open>src/aff-executor.c\<close>) against the
  contract between the executor and a policy: the locale \<open>quantum_policy\<close> says what the executor
  relies on when a quantum expires. Under it the selection loop comes to an end, hands on the
  programs that are due in the order of their times, and leaves nothing due in the heap.
\<close>

section \<open>The event queue\<close>

abbreviation queue :: "sys \<Rightarrow> u64 multiset" where
  "queue s \<equiv> heap_bag (events_heap s)"

definition queue_ok :: "sys \<Rightarrow> bool" where
  "queue_ok s \<longleftrightarrow> heap_inv (event_heap s) \<and> set_mset (queue s) \<subseteq> dom (events s)"

lemma total_preorder_events: "total_preorder (aff_event_leq_ul evs)"
  by (auto simp: total_preorder_def aff_event_leq_ul_def timer_gt_def split: if_splits)

lemma leq_event_heap [simp]: "leq_fn (event_heap s) = aff_event_leq_ul (events s)"
  by (simp add: event_heap_def)

lemma da_event_heap [simp]: "heap_da (event_heap s) = heap_da (events_heap s)"
  by (simp add: event_heap_def)

lemma bag_event_heap [simp]: "heap_bag (event_heap s) = queue s"
  by (simp add: heap_bag_def)

lemma bag_heap_da: "heap_da h = heap_da g \<Longrightarrow> heap_bag h = heap_bag g"
  by (simp add: heap_bag_def)

text \<open>The invariant of a heap depends on the comparison of its own elements only.\<close>

lemma heap_inv_cong:
  assumes "heap_inv h" and "heap_da g = heap_da h" and "total_preorder (leq_fn g)"
    and "\<And>x y. x \<in># heap_bag h \<Longrightarrow> y \<in># heap_bag h \<Longrightarrow> leq_fn g x y = leq_fn h x y"
  shows "heap_inv g"
proof -
  have mem: "elems (heap_da h) i \<in># heap_bag h" if "i < heap_size h" for i
    using that by (auto simp: heap_bag_block set_block_list)
  have "heap_size g = heap_size h"
    using assms(2) by (simp add: heap_size_def)
  moreover have "heap_ordered (leq_fn h) (elems (heap_da h)) (heap_size h)"
    using assms(1) by (simp add: heap_inv_def)
  ultimately show ?thesis
    using assms mem by (auto simp: heap_inv_def heap_ordered_def)
qed

lemma heap_inv_events:
  assumes "heap_inv (event_heap s)" and "heap_da (events_heap t) = heap_da (events_heap s)"
    and "\<And>x. x \<in># queue s \<Longrightarrow> events t x = events s x"
  shows "heap_inv (event_heap t)"
  using assms(1)
proof (rule heap_inv_cong)
  show "heap_da (event_heap t) = heap_da (event_heap s)"
    using assms(2) by simp
  show "total_preorder (leq_fn (event_heap t))"
    by (simp add: total_preorder_events)
  show "leq_fn (event_heap t) x y = leq_fn (event_heap s) x y"
    if "x \<in># heap_bag (event_heap s)" "y \<in># heap_bag (event_heap s)" for x y
    using assms(3) that by (simp add: aff_event_leq_ul_def event_time_def)
qed

lemma push_event_spec:
  assumes "queue_ok s" and "e \<in> dom (events s)" and "push_event E e s = Inr s'"
  shows "queue_ok s' \<and> queue s' = add_mset e (queue s) \<and> s' = s\<lparr>events_heap := events_heap s'\<rparr>"
proof -
  obtain h where h: "heap_push (heap_mem_ok E) (event_heap s) e = Inr h"
      and s': "s' = s\<lparr>events_heap := h\<rparr>"
    using assms(3) by (auto simp: push_event_def res_simps)
  have inv: "heap_inv (event_heap s)"
    using assms(1) by (simp add: queue_ok_def)
  note spec = heap_push_spec [OF inv h]
  have "heap_inv (event_heap s')"
    by (rule heap_inv_cong [of h]) (use spec in \<open>simp_all add: s' total_preorder_events\<close>)
  then show ?thesis
    using spec assms(1,2) by (auto simp: s' queue_ok_def)
qed

lemma push_event_total:
  assumes "heap_inv (event_heap s)" and "\<forall>n. heap_mem_ok E n" and "size (queue s) < heap_limit"
  shows "\<exists>s'. push_event E e s = Inr s'"
  using heap_push_total [OF assms(1), of "heap_mem_ok E" e] assms(2,3)
  by (auto simp: push_event_def heap_bag_block heap_size_def event_heap_def)

lemma pop_event_spec:
  assumes "queue_ok s" and "heap_peek (event_heap s) = Inr (Some e)"
  shows "\<exists>h. heap_pop (event_heap s) = Inr (h, Some e) \<and> queue_ok (s\<lparr>events_heap := h\<rparr>)
    \<and> queue s = add_mset e (heap_bag h) \<and> (\<forall>y \<in># queue s. aff_event_leq_ul (events s) e y)"
proof -
  have inv: "heap_inv (event_heap s)"
    using assms(1) by (simp add: queue_ok_def)
  have "queue s \<noteq> {#}"
    using assms(2) evq.peek_empty [OF inv] by auto
  then obtain h where h: "heap_pop (event_heap s) = Inr (h, Some e)" "heap_inv h"
      "leq_fn h = leq_fn (event_heap s)" "queue s = add_mset e (heap_bag h)"
      "\<forall>y \<in># queue s. aff_event_leq_ul (events s) e y"
    using evq.pop_law [OF inv] assms(2) by auto
  have "heap_inv (event_heap (s\<lparr>events_heap := h\<rparr>))"
    by (rule heap_inv_cong [OF h(2)]) (use h(3) in \<open>simp_all add: total_preorder_events\<close>)
  then have "queue_ok (s\<lparr>events_heap := h\<rparr>)"
    using assms(1) h(4) by (auto simp: queue_ok_def)
  with h show ?thesis by blast
qed

lemma peek_event_cases:
  assumes "queue_ok s"
  obtains "heap_peek (event_heap s) = Inr None" "queue s = {#}"
  | e where "heap_peek (event_heap s) = Inr (Some e)"
proof -
  have inv: "heap_inv (event_heap s)"
    using assms by (simp add: queue_ok_def)
  show thesis
  proof (cases "queue s = {#}")
    case True
    with evq.peek_empty [OF inv] show thesis
      by (intro that(1)) auto
  next
    case False
    with evq.pop_law [OF inv] show thesis
      by (auto intro: that(2))
  qed
qed

section \<open>What a policy leaves alone\<close>

definition sched_lists :: "sys \<Rightarrow> u64 set" where
  "sched_lists s = set (progs_all (sch s)) \<union> set (progs_sch (sch s))"

text \<open>The programs a policy holds, with their number of occurrences.\<close>

definition pool :: "sys \<Rightarrow> u64 multiset" where
  "pool s = mset (progs_all (sch s)) + mset (progs_sch (sch s))"

lemma set_pool: "set_mset (pool s) = sched_lists s"
  by (simp add: pool_def sched_lists_def)

text \<open>A program is in one list at most.\<close>

definition lists_ok :: "sys \<Rightarrow> bool" where
  "lists_ok s \<longleftrightarrow> sched_lists s \<inter> (set (pnew_l s) \<union> set (pfinished_l s)) = {}
     \<and> distinct (progs_all (sch s) @ progs_sch (sch s))"

text \<open>Entries may be taken out of the table of running programs, and nothing else.\<close>

definition hash_shrinks :: "hash_t \<Rightarrow> hash_t \<Rightarrow> bool" where
  "hash_shrinks h h' \<longleftrightarrow> (hash_wf h \<longrightarrow> hash_wf h' \<and> hash_map h' \<subseteq>\<^sub>m hash_map h)"

lemma hash_shrinks_refl [simp]: "hash_shrinks h h"
  by (simp add: hash_shrinks_def)

lemma hash_shrinks_trans: "hash_shrinks h h' \<Longrightarrow> hash_shrinks h' h'' \<Longrightarrow> hash_shrinks h h''"
  by (auto simp: hash_shrinks_def intro: map_le_trans)

lemma hash_shrinks_delete:
  assumes "hash_delete h k = Inr (h', v)"
  shows "hash_shrinks h h'"
proof -
  have "m(k := None) \<subseteq>\<^sub>m m" for m :: "u64 \<rightharpoonup> u64"
    by (auto simp: map_le_def)
  then show ?thesis
    using hash_delete_map [of h k] assms by (auto simp: hash_shrinks_def)
qed

text \<open>Between two events of the executor a policy works on its own programs: events, the lists of
  the executor and the counters of waiting and new programs stay as they are.\<close>

definition quantum_frame :: "sys \<Rightarrow> sys \<Rightarrow> bool" where
  "quantum_frame s t \<longleftrightarrow> events t = events s \<and> events_heap t = events_heap s \<and> pnew_l t = pnew_l s
     \<and> pfinished_l t = pfinished_l s \<and> waiting_nr t = waiting_nr s \<and> new_nr t = new_nr s
     \<and> tv0 t = tv0 s \<and> dom (progs t) = dom (progs s) \<and> pool t \<subseteq># pool s
     \<and> next_addr t = next_addr s \<and> reset_qt t = reset_qt s
     \<and> hash_shrinks (prog_pid_hash s) (prog_pid_hash t)"

lemma quantum_frame_refl [simp]: "quantum_frame s s"
  by (simp add: quantum_frame_def)

lemma quantum_frame_trans [trans]: "quantum_frame s t \<Longrightarrow> quantum_frame t u \<Longrightarrow> quantum_frame s u"
  by (auto simp: quantum_frame_def intro: subset_mset.order_trans hash_shrinks_trans)

lemma quantum_frame_sched_lists: "quantum_frame s t \<Longrightarrow> sched_lists t \<subseteq> sched_lists s"
  by (auto simp: quantum_frame_def simp flip: set_pool dest: mset_subset_eqD)

lemma count_le_1_add: "\<forall>e. count (add_mset x m) e \<le> 1 \<Longrightarrow> x \<notin># m \<and> (\<forall>e. count m e \<le> 1)"
proof (intro conjI allI notI)
  assume *: "\<forall>e. count (add_mset x m) e \<le> 1"
  show False if "x \<in># m"
    using * [rule_format, of x] that by (simp add: not_in_iff [symmetric] count_eq_zero_iff)
  show "count m e \<le> 1" for e
    using * [rule_format, of e] by (auto split: if_splits)
qed

lemma distinct_count: "distinct xs \<longleftrightarrow> (\<forall>x. count (mset xs) x \<le> 1)"
proof (induction xs)
  case Nil
  then show ?case by simp
next
  case (Cons y ys)
  show ?case
  proof
    assume "distinct (y # ys)"
    then show "\<forall>x. count (mset (y # ys)) x \<le> 1"
      using Cons.IH by (auto simp: count_eq_zero_iff)
  next
    assume "\<forall>x. count (mset (y # ys)) x \<le> 1"
    then have "y \<notin># mset ys \<and> (\<forall>x. count (mset ys) x \<le> 1)"
      by (intro count_le_1_add) simp
    then show "distinct (y # ys)"
      using Cons.IH by simp
  qed
qed

lemma quantum_frame_lists: "quantum_frame s t \<Longrightarrow> lists_ok s \<Longrightarrow> lists_ok t"
proof -
  assume st: "quantum_frame s t" and ok: "lists_ok s"
  have "count (pool t) x \<le> 1" for x
  proof -
    have "count (pool t) x \<le> count (pool s) x"
      using st by (simp add: quantum_frame_def mset_subset_eq_count)
    also have "\<dots> \<le> 1"
      using ok distinct_count [of "progs_all (sch s) @ progs_sch (sch s)"] by (simp add: lists_ok_def pool_def)
    finally show ?thesis .
  qed
  then have "distinct (progs_all (sch t) @ progs_sch (sch t))"
    unfolding distinct_count by (simp add: pool_def)
  then show ?thesis
    using quantum_frame_sched_lists [OF st] st ok by (auto simp: quantum_frame_def lists_ok_def)
qed

section \<open>The contract of a quantum\<close>

text \<open>When a quantum expires the policy does its work and arms the next quantum.\<close>

locale quantum_policy =
  fixes S :: aff_scheduler
    and expire :: "env \<Rightarrow> timeval \<Rightarrow> sys \<Rightarrow> sys res"
  assumes registered: "qexpired S = Some expire"
    and expire_law: "lists_ok s \<Longrightarrow> expire E now s = Inr s' \<Longrightarrow>
      \<exists>t. quantum_frame s t \<and> push_event E qt_event (set_qt_event (timeradd qt now) t) = Inr s'"

text \<open>The state in which events are selected: every event in the heap is there once, it is the
  quantum or the arrival of a program that no list of the policy holds.\<close>

definition arrival :: "sys \<Rightarrow> u64 \<Rightarrow> bool" where
  "arrival s e \<longleftrightarrow> (\<exists>ev. events s e = Some ev \<and> kind ev = EVNT_NEWPROG
     \<and> ev_prog ev \<in> dom (progs s) - sched_lists s)"

definition event_ok :: "sys \<Rightarrow> u64 \<Rightarrow> bool" where
  "event_ok s e \<longleftrightarrow> (if e = qt_event then \<exists>ev. events s e = Some ev \<and> kind ev = EVNT_QEXPIRED else arrival s e)"

definition selection_ok :: "sys \<Rightarrow> bool" where
  "selection_ok s \<longleftrightarrow> queue_ok s \<and> lists_ok s \<and> (\<forall>e \<in># queue s. event_ok s e)
     \<and> (\<forall>e. count (queue s) e \<le> 1)"

definition due :: "timeval \<Rightarrow> sys \<Rightarrow> u64 \<Rightarrow> bool" where
  "due now s e \<longleftrightarrow> \<not> timer_gt (event_time (events s) e) now"

text \<open>The arrivals that are due.\<close>

definition due_arrivals :: "timeval \<Rightarrow> sys \<Rightarrow> u64 multiset" where
  "due_arrivals now s = filter_mset (\<lambda>e. due now s e \<and> e \<noteq> qt_event) (queue s)"

definition ev_prog_of :: "sys \<Rightarrow> u64 \<Rightarrow> u64" where
  "ev_prog_of s e = (case events s e of Some ev \<Rightarrow> ev_prog ev | None \<Rightarrow> 0)"

text \<open>Taking an arrival out.\<close>

lemma arrival_step:
  assumes ok: "selection_ok s" and peek: "heap_peek (event_heap s) = Inr (Some e)" and "e \<noteq> qt_event"
  shows "\<exists>h s'. heap_pop (event_heap s) = Inr (h, Some e)
    \<and> handle_event E S e now (s\<lparr>events_heap := h\<rparr>) = Inr s' \<and> selection_ok s'
    \<and> queue s = add_mset e (queue s') \<and> (\<forall>y. y \<noteq> e \<longrightarrow> events s' y = events s y)
    \<and> pnew_l s' = pnew_l s @ [ev_prog_of s e]
    \<and> waiting_nr s' = waiting_nr s - 1 \<and> new_nr s' = new_nr s + 1"
proof -
  have q: "queue_ok s"
    using ok by (simp add: selection_ok_def)
  obtain h where h: "heap_pop (event_heap s) = Inr (h, Some e)" "queue_ok (s\<lparr>events_heap := h\<rparr>)"
      "queue s = add_mset e (heap_bag h)"
    using pop_event_spec [OF q peek] by blast
  have "event_ok s e"
    using ok h(3) by (simp add: selection_ok_def)
  then obtain ev prog where ev: "events s e = Some ev" "kind ev = EVNT_NEWPROG"
      "progs s (ev_prog ev) = Some prog" "ev_prog ev \<notin> sched_lists s"
    using assms(3) by (auto simp: event_ok_def arrival_def)
  let ?s' = "s\<lparr>events_heap := h, waiting_nr := waiting_nr s - 1, pnew_l := pnew_l s @ [ev_prog ev],
      new_nr := new_nr s + 1, events := (events s)(e := None)\<rparr>"
  have eq: "handle_event E S e now (s\<lparr>events_heap := h\<rparr>) = Inr ?s'"
    using ev by (simp add: handle_event_def get_event_def aff_prog_waiting_new_def get_prog_def aff_evnt_dealloc_def)
  have c: "e \<notin># heap_bag h" "\<forall>x. count (heap_bag h) x \<le> 1"
    using count_le_1_add [of e "heap_bag h"] ok h(3) by (simp_all add: selection_ok_def)
  have "heap_inv (event_heap ?s')"
    by (rule heap_inv_events [of "s\<lparr>events_heap := h\<rparr>"]) (use h(2) c(1) in \<open>auto simp: queue_ok_def\<close>)
  then have "queue_ok ?s'"
    using h(2) c(1) by (auto simp: queue_ok_def)
  moreover have "lists_ok ?s'"
    using ok ev(4) by (auto simp: selection_ok_def lists_ok_def sched_lists_def)
  moreover have "event_ok ?s' x" if "x \<in># queue ?s'" for x
  proof -
    from that have x: "x \<in># queue s" "x \<noteq> e"
      using h(3) c(1) by auto
    then have "event_ok s x"
      using ok by (simp add: selection_ok_def)
    with x(2) show ?thesis
      by (auto simp: event_ok_def arrival_def sched_lists_def)
  qed
  ultimately have "selection_ok ?s'"
    using c(2) by (simp add: selection_ok_def)
  then show ?thesis
    using h(1,3) eq ev(1) by (intro exI [of _ h] exI [of _ ?s']) (simp add: ev_prog_of_def)
qed

lemma timer_gt_quantum: "tv_norm now \<Longrightarrow> timer_gt (timeradd qt now) now"
  using timer_gt_us [of "timeradd qt now" now] timeradd_norm [of qt now] timeradd_us [of qt now]
  by (simp add: qt_def tv_norm_def tv_us_def)

lemma arm_quantum:
  assumes "queue_ok s" and "qt_event \<notin># queue s" and "push_event E qt_event (set_qt_event t s) = Inr s'"
  shows "queue_ok s' \<and> queue s' = add_mset qt_event (queue s)
    \<and> s' = (set_qt_event t s)\<lparr>events_heap := events_heap s'\<rparr>"
proof -
  have "heap_inv (event_heap (set_qt_event t s))"
    by (rule heap_inv_events [of s]) (use assms(1,2) in \<open>auto simp: queue_ok_def set_qt_event_def\<close>)
  then have "queue_ok (set_qt_event t s)"
    using assms(1) by (auto simp: queue_ok_def set_qt_event_def)
  from push_event_spec [OF this _ assms(3)] show ?thesis
    by (simp add: set_qt_event_def)
qed

lemma due_cong: "events t y = events s y \<Longrightarrow> due now t y = due now s y"
  by (simp add: due_def event_time_def)

text \<open>Two states that agree on the events of a list order and name them alike.\<close>

lemma arrivals_cong:
  assumes "\<forall>y \<in> set es. events t y = events s y"
  shows "sorted_wrt (aff_event_leq_ul (events t)) es = sorted_wrt (aff_event_leq_ul (events s)) es"
    and "map (ev_prog_of t) es = map (ev_prog_of s) es"
proof -
  show "sorted_wrt (aff_event_leq_ul (events t)) es = sorted_wrt (aff_event_leq_ul (events s)) es"
    using assms by (induction es) (auto simp: aff_event_leq_ul_def event_time_def)
  show "map (ev_prog_of t) es = map (ev_prog_of s) es"
    using assms by (simp add: ev_prog_of_def)
qed

text \<open>What selection comes to: nothing due is left, the wake-up time is that of the first event,
  and the arrivals that were due are new programs, in the order of their times.\<close>

definition selected :: "timeval \<Rightarrow> sys \<Rightarrow> sys \<Rightarrow> timeval option \<Rightarrow> bool" where
  "selected now s s' w \<longleftrightarrow> selection_ok s'
      \<and> (\<forall>e \<in># queue s'. \<not> due now s' e)
      \<and> (case w of None \<Rightarrow> queue s' = {#}
         | Some t \<Rightarrow> \<exists>e \<in># queue s'. t = timersub (event_time (events s') e) now
             \<and> (\<forall>y \<in># queue s'. aff_event_leq_ul (events s') e y))
      \<and> (\<exists>es. mset es = due_arrivals now s \<and> sorted_wrt (aff_event_leq_ul (events s)) es
         \<and> pnew_l s' = pnew_l s @ map (ev_prog_of s) es
         \<and> waiting_nr s' = waiting_nr s - int (length es) \<and> new_nr s' = new_nr s + int (length es))"

lemma selected_quantum:
  assumes "selected now s1 s' w" and "due_arrivals now s1 = due_arrivals now s"
    and "\<forall>y. y \<noteq> qt_event \<longrightarrow> events s1 y = events s y"
    and "pnew_l s1 = pnew_l s" and "waiting_nr s1 = waiting_nr s" and "new_nr s1 = new_nr s"
  shows "selected now s s' w"
proof -
  have "\<forall>y \<in> set es. events s1 y = events s y" if "mset es = due_arrivals now s" for es
  proof -
    have "set_mset (mset es) \<subseteq> - {qt_event}"
      unfolding that by (auto simp: due_arrivals_def)
    then have "y \<noteq> qt_event" if "y \<in> set es" for y
      using that by auto
    with assms(3) show ?thesis by blast
  qed
  then have "\<And>es. mset es = due_arrivals now s \<Longrightarrow>
      sorted_wrt (aff_event_leq_ul (events s1)) es = sorted_wrt (aff_event_leq_ul (events s)) es
      \<and> map (ev_prog_of s1) es = map (ev_prog_of s) es"
    using arrivals_cong by blast
  with assms(1,2,4-6) show ?thesis
    unfolding selected_def by auto
qed

lemma selected_arrival:
  assumes "selected now s1 s' w" and arr: "due_arrivals now s = add_mset e (due_arrivals now s1)"
    and first: "\<forall>y \<in># queue s1. aff_event_leq_ul (events s) e y \<and> y \<noteq> e"
    and "\<forall>y. y \<noteq> e \<longrightarrow> events s1 y = events s y" and "pnew_l s1 = pnew_l s @ [ev_prog_of s e]"
    and "waiting_nr s1 = waiting_nr s - 1" and "new_nr s1 = new_nr s + 1"
  shows "selected now s s' w"
proof -
  obtain es where es: "mset es = due_arrivals now s1" "sorted_wrt (aff_event_leq_ul (events s1)) es"
      "pnew_l s' = pnew_l s1 @ map (ev_prog_of s1) es"
      "waiting_nr s' = waiting_nr s1 - int (length es)" "new_nr s' = new_nr s1 + int (length es)"
    using assms(1) by (auto simp: selected_def)
  have "set_mset (mset es) \<subseteq> set_mset (queue s1)"
    unfolding es(1) by (auto simp: due_arrivals_def)
  then have sub: "\<forall>y \<in> set es. aff_event_leq_ul (events s) e y \<and> y \<noteq> e"
    using first by auto
  then have same: "\<forall>y \<in> set es. events s1 y = events s y"
    using assms(4) by blast
  have "mset (e # es) = due_arrivals now s" "sorted_wrt (aff_event_leq_ul (events s)) (e # es)"
      "pnew_l s' = pnew_l s @ map (ev_prog_of s) (e # es)"
      "waiting_nr s' = waiting_nr s - int (length (e # es))" "new_nr s' = new_nr s + int (length (e # es))"
    using arrivals_cong [OF same] es sub arr assms(5-7) by simp_all
  with assms(1) show ?thesis
    unfolding selected_def by blast
qed

text \<open>The state after a quantum: the policy has worked, and the end of the next quantum, which had been
  taken out of the heap, is in it again.\<close>

lemma armed_state:
  assumes q: "queue_ok (s\<lparr>events_heap := h\<rparr>)" and c: "qt_event \<notin># heap_bag h"
    and t: "quantum_frame (s\<lparr>events_heap := h\<rparr>) t" "push_event E qt_event (set_qt_event time t) = Inr s'"
  shows "queue_ok s'" and "queue s' = add_mset qt_event (heap_bag h)"
    and "events s' = (events s)(qt_event \<mapsto> \<lparr>kind = EVNT_QEXPIRED, tv = time, ev_prog = 0\<rparr>)"
    and "dom (progs s') = dom (progs s)" and "sched_lists s' \<subseteq> sched_lists s" and "lists_ok s \<Longrightarrow> lists_ok s'"
    and "pnew_l s' = pnew_l s" and "waiting_nr s' = waiting_nr s" and "new_nr s' = new_nr s"
proof -
  have frame: "events_heap t = h" "events t = events s" "dom (progs t) = dom (progs s)" "pnew_l t = pnew_l s"
      "waiting_nr t = waiting_nr s" "new_nr t = new_nr s"
    using t(1) by (auto simp: quantum_frame_def)
  have "queue_ok t"
    using q frame(1,2) by (simp add: queue_ok_def event_heap_def)
  from arm_quantum [OF this _ t(2)] c frame(1) have armed: "queue_ok s'" "queue s' = add_mset qt_event (heap_bag h)"
      "s' = (set_qt_event time t)\<lparr>events_heap := events_heap s'\<rparr>"
    by auto
  then show "queue_ok s'" and "queue s' = add_mset qt_event (heap_bag h)"
    by simp_all
  from armed(3) obtain g where s': "s' = (set_qt_event time t)\<lparr>events_heap := g\<rparr>"
    by blast
  show "events s' = (events s)(qt_event \<mapsto> \<lparr>kind = EVNT_QEXPIRED, tv = time, ev_prog = 0\<rparr>)"
    by (simp add: s' set_qt_event_def frame(2))
  show "sched_lists s' \<subseteq> sched_lists s"
    using quantum_frame_sched_lists [OF t(1)] by (simp add: s' set_qt_event_def sched_lists_def)
  show "lists_ok s'" if "lists_ok s"
  proof -
    have "lists_ok t"
      by (rule quantum_frame_lists [OF t(1)]) (use that in \<open>simp add: lists_ok_def sched_lists_def\<close>)
    then show ?thesis
      by (simp add: s' lists_ok_def set_qt_event_def sched_lists_def)
  qed
  show "dom (progs s') = dom (progs s)" "pnew_l s' = pnew_l s" "waiting_nr s' = waiting_nr s" "new_nr s' = new_nr s"
    using frame by (simp_all add: s' set_qt_event_def)
qed

lemma armed_event_ok:
  assumes "event_ok s x" and "events s' = (events s)(qt_event \<mapsto> \<lparr>kind = EVNT_QEXPIRED, tv = time, ev_prog = 0\<rparr>)"
    and "dom (progs s') = dom (progs s)" and "sched_lists s' \<subseteq> sched_lists s"
  shows "event_ok s' x"
proof (cases "x = qt_event")
  case True
  then show ?thesis
    by (simp add: event_ok_def assms(2))
next
  case False
  with assms(1) obtain e where "events s x = Some e" "kind e = EVNT_NEWPROG"
      "ev_prog e \<in> dom (progs s) - sched_lists s"
    unfolding event_ok_def arrival_def by auto
  moreover from this assms(3,4) have "ev_prog e \<in> dom (progs s') - sched_lists s'"
    by blast
  ultimately show ?thesis
    using False unfolding event_ok_def arrival_def assms(2) by simp
qed

text \<open>Nothing is due when the first event is not.\<close>

lemma wait_selected:
  assumes ok: "selection_ok s" and peek: "heap_peek (event_heap s) = Inr (Some e)"
    and ev: "events s e = Some ev" "timer_gt (tv ev) now"
  shows "select_ready_events E S now s = Some (Inr (s, Some (timersub (tv ev) now)))"
    and "selected now s s (Some (timersub (tv ev) now))"
proof -
  obtain h where h: "queue s = add_mset e (heap_bag h)" "\<forall>y \<in># queue s. aff_event_leq_ul (events s) e y"
    using pop_event_spec [OF _ peek] ok by (auto simp: selection_ok_def)
  have later: "\<not> due now s y" if "y \<in># queue s" for y
  proof -
    have "aff_event_leq_ul (events s) e y"
      using h(2) that by blast
    with ev show ?thesis
      by (auto simp: due_def aff_event_leq_ul_def event_time_def timer_gt_def split: if_splits)
  qed
  then have "due_arrivals now s = {#}"
    by (simp add: due_arrivals_def filter_mset_eq_conv)
  moreover have "e \<in># queue s" "event_time (events s) e = tv ev"
    using h(1) ev(1) by (simp_all add: event_time_def)
  ultimately show "selected now s s (Some (timersub (tv ev) now))"
    using ok later h(2) unfolding selected_def by force
  show "select_ready_events E S now s = Some (Inr (s, Some (timersub (tv ev) now)))"
    using peek ev by (subst select_ready_events.simps) (simp add: get_event_def)
qed

text \<open>A step of the selection: one event less is due, and what the rest of the selection comes to is
  what the whole comes to.\<close>

definition selection_step :: "timeval \<Rightarrow> sys \<Rightarrow> sys \<Rightarrow> bool" where
  "selection_step now s t \<longleftrightarrow> selection_ok t
     \<and> size (filter_mset (due now t) (queue t)) < size (filter_mset (due now s) (queue s))
     \<and> (\<forall>s' w. selected now t s' w \<longrightarrow> selected now s s' w)"

lemma quantum_selection_step:
  assumes "selection_ok t" and q: "queue t = queue s" and "qt_event \<in># queue s"
    and due: "due now s qt_event" "\<not> due now t qt_event"
    and same: "\<forall>y. y \<noteq> qt_event \<longrightarrow> events t y = events s y"
    and counts: "pnew_l t = pnew_l s" "waiting_nr t = waiting_nr s" "new_nr t = new_nr s"
  shows "selection_step now s t"
proof -
  have due_y: "due now t y = due now s y" if "y \<noteq> qt_event" for y
    using same that by (intro due_cong) blast
  obtain Q where Q: "queue s = add_mset qt_event Q"
    using assms(3) by (meson mset_add)
  have "qt_event \<notin># Q"
    using count_le_1_add [of qt_event Q] assms(1) q Q by (simp add: selection_ok_def)
  then have "filter_mset (due now t) Q = filter_mset (due now s) Q"
    using due_y by (intro filter_mset_cong) (auto, metis+)
  then have "size (filter_mset (due now t) (queue t)) < size (filter_mset (due now s) (queue s))"
    using due by (simp add: q Q)
  moreover have "due_arrivals now t = due_arrivals now s"
    unfolding due_arrivals_def q using due_y by (intro filter_mset_cong) auto
  ultimately show ?thesis
    using assms(1) selected_quantum [OF _ _ same counts] by (simp add: selection_step_def)
qed

lemma arrival_selection_step:
  assumes "selection_ok t" and q: "queue s = add_mset e (queue t)" and "e \<notin># queue t" and "e \<noteq> qt_event"
    and due: "due now s e" and first: "\<forall>y \<in># queue s. aff_event_leq_ul (events s) e y"
    and same: "\<forall>y. y \<noteq> e \<longrightarrow> events t y = events s y"
    and counts: "pnew_l t = pnew_l s @ [ev_prog_of s e]" "waiting_nr t = waiting_nr s - 1" "new_nr t = new_nr s + 1"
  shows "selection_step now s t"
proof -
  have due_y: "due now t y = due now s y" if "y \<in># queue t" for y
    using same that assms(3) by (intro due_cong) metis
  then have "filter_mset (due now t) (queue t) = filter_mset (due now s) (queue t)"
    by (intro filter_mset_cong) auto
  then have "size (filter_mset (due now t) (queue t)) < size (filter_mset (due now s) (queue s))"
    using q due by simp
  moreover have "due_arrivals now t = filter_mset (\<lambda>e. due now s e \<and> e \<noteq> qt_event) (queue t)"
    unfolding due_arrivals_def using due_y by (intro filter_mset_cong) auto
  then have "due_arrivals now s = add_mset e (due_arrivals now t)"
    using due assms(4) by (simp add: due_arrivals_def q)
  moreover have "\<forall>y \<in># queue t. aff_event_leq_ul (events s) e y \<and> y \<noteq> e"
    using first q assms(3) by auto
  ultimately show ?thesis
    using assms(1) selected_arrival [OF _ _ _ same counts] by (simp add: selection_step_def)
qed

context quantum_policy
begin

lemma quantum_step:
  assumes ok: "selection_ok s" and peek: "heap_peek (event_heap s) = Inr (Some qt_event)"
    and norm: "tv_norm now" and due: "due now s qt_event" and pop: "heap_pop (event_heap s) = Inr (h, Some qt_event)"
    and run: "handle_event E S qt_event now (s\<lparr>events_heap := h\<rparr>) = Inr s'"
  shows "selection_step now s s'"
proof -
  have h: "queue_ok (s\<lparr>events_heap := h\<rparr>)" "queue s = add_mset qt_event (heap_bag h)"
    using pop_event_spec [OF _ peek] ok pop by (auto simp: selection_ok_def)
  have c: "qt_event \<notin># heap_bag h"
    using count_le_1_add [of qt_event "heap_bag h"] ok h(2) by (simp add: selection_ok_def)
  have "event_ok s qt_event"
    using ok h(2) by (simp add: selection_ok_def)
  then have "expire E now (s\<lparr>events_heap := h\<rparr>) = Inr s'"
    using run by (auto simp: handle_event_def get_event_def registered event_ok_def)
  moreover have "lists_ok (s\<lparr>events_heap := h\<rparr>)"
    using ok by (simp add: selection_ok_def lists_ok_def sched_lists_def)
  ultimately obtain t where t: "quantum_frame (s\<lparr>events_heap := h\<rparr>) t"
      "push_event E qt_event (set_qt_event (timeradd qt now) t) = Inr s'"
    using expire_law by blast
  note armed = armed_state [OF h(1) c t]
  have "event_ok s' x" if "x \<in># queue s'" for x
    by (rule armed_event_ok [OF _ armed(3-5)]) (use ok that h(2) armed(2) in \<open>auto simp: selection_ok_def\<close>)
  then have "selection_ok s'"
    using ok armed(1,2,6) h(2) by (simp add: selection_ok_def)
  moreover have "\<not> due now s' qt_event"
    using timer_gt_quantum [OF norm] by (simp add: due_def event_time_def armed(3))
  ultimately show ?thesis
    by (intro quantum_selection_step) (use due armed h(2) in simp_all)
qed

lemma selection_loop_step:
  assumes ok: "selection_ok s" and norm: "tv_norm now" and peek: "heap_peek (event_heap s) = Inr (Some e)"
    and due: "due now s e" and pop: "heap_pop (event_heap s) = Inr (h, Some e)"
    and run: "handle_event E S e now (s\<lparr>events_heap := h\<rparr>) = Inr t"
  shows "selection_step now s t"
proof (cases "e = qt_event")
  case True
  with quantum_step [OF ok _ norm] peek due pop run show ?thesis
    by simp
next
  case False
  have h: "queue s = add_mset e (heap_bag h)" "\<forall>y \<in># queue s. aff_event_leq_ul (events s) e y"
    using pop_event_spec [OF _ peek] ok pop by (auto simp: selection_ok_def)
  obtain h' u where "heap_pop (event_heap s) = Inr (h', Some e)"
      "handle_event E S e now (s\<lparr>events_heap := h'\<rparr>) = Inr u" "selection_ok u"
      "queue s = add_mset e (queue u)" "\<forall>y. y \<noteq> e \<longrightarrow> events u y = events s y"
      "pnew_l u = pnew_l s @ [ev_prog_of s e]" "waiting_nr u = waiting_nr s - 1"
      "new_nr u = new_nr s + 1"
    using arrival_step [OF ok peek False, of E S now] by blast
  then have t: "selection_ok t" "queue s = add_mset e (queue t)" "\<forall>y. y \<noteq> e \<longrightarrow> events t y = events s y"
      "pnew_l t = pnew_l s @ [ev_prog_of s e]" "waiting_nr t = waiting_nr s - 1" "new_nr t = new_nr s + 1"
    using pop run by auto
  have "e \<notin># queue t"
    using count_le_1_add [of e "queue t"] ok t(2) by (simp add: selection_ok_def)
  from arrival_selection_step [OF t(1,2) this False due h(2) t(3-6)] show ?thesis .
qed

lemma select_ready_events_spec:
  "selection_ok s \<Longrightarrow> tv_norm now \<Longrightarrow> n = size (filter_mset (due now s) (queue s)) \<Longrightarrow>
    \<exists>r. select_ready_events E S now s = Some r \<and> (\<forall>s' w. r = Inr (s', w) \<longrightarrow> selected now s s' w)"
proof (induction n arbitrary: s rule: less_induct)
  case (less n)
  have q: "queue_ok s"
    using less.prems(1) by (simp add: selection_ok_def)
  then show ?case
  proof (cases rule: peek_event_cases)
    case 1
    then show ?thesis
      using less.prems(1)
      by (subst select_ready_events.simps) (simp add: due_arrivals_def selected_def)
  next
    case (2 e)
    obtain h where h: "heap_pop (event_heap s) = Inr (h, Some e)" "e \<in># queue s"
      using pop_event_spec [OF q 2] by auto
    then have "event_ok s e"
      using less.prems(1) by (simp add: selection_ok_def)
    then obtain ev where ev: "events s e = Some ev"
      by (auto simp: event_ok_def arrival_def split: if_splits)
    show ?thesis
    proof (cases "timer_gt (tv ev) now")
      case True
      from wait_selected [OF less.prems(1) 2 ev True] show ?thesis
        by auto
    next
      case False
      then have due: "due now s e"
        using ev by (simp add: due_def event_time_def)
      have sel: "select_ready_events E S now s =
          (case handle_event E S e now (s\<lparr>events_heap := h\<rparr>) of
             Inl f \<Rightarrow> Some (Inl f) | Inr t \<Rightarrow> select_ready_events E S now t)"
        using 2 ev False h(1) by (subst select_ready_events.simps) (simp add: get_event_def)
      show ?thesis
      proof (cases "handle_event E S e now (s\<lparr>events_heap := h\<rparr>)")
        case (Inr t)
        from selection_loop_step [OF less.prems(1,2) 2 due h(1) Inr] less.IH less.prems(2,3) sel Inr
        show ?thesis
          unfolding selection_step_def by (metis (no_types, lifting) sum.case(2))
      qed (use sel in simp)
    qed
  qed
qed

end

end
