(* ===== verification/SchedCommon.thy ===== *)
theory SchedCommon
  imports Selection "HOL-Library.Signed_Division"
begin

text \<open>
  What the policies share, \<open>src/scheds/common.c\<close>: the metrics of a program, the totals of the
  workload, the clocks, the admission and removal of programs, the end of an experiment. The
  arrays of totals are lists whose accesses are checked; the counters are freed and the output
  files closed by \<open>sched_finalization\<close>, after which touching them is \<open>UseAfterFree\<close>.
\<close>

definition MAX_CORES :: int where "MAX_CORES = 6"
definition ID_USER_OFFSET :: int where "ID_USER_OFFSET = 1000"
definition WORK_DIR :: string where "WORK_DIR = ''../bin/''"

definition arr_upd :: "'a list \<Rightarrow> int \<Rightarrow> ('a \<Rightarrow> 'a) \<Rightarrow> 'a list res" where
  "arr_upd xs i f = bindR (arr_get xs i) (\<lambda>v. arr_set xs i (f v))"

text \<open>Assignment of a \<open>long\<close> to an \<open>int\<close>.\<close>

definition int32 :: "int \<Rightarrow> int" where
  "int32 n = s32_of_u32 (u32_of_int n)"

section \<open>Access to the counters and to the statistics of a program\<close>

definition with_files :: "sys \<Rightarrow> sys res" where
  "with_files s = guardR (files_open (sch s)) UseAfterFree s"

definition on_machine :: "(aff_counters \<Rightarrow> machine \<Rightarrow> machine res) \<Rightarrow> sys \<Rightarrow> sys res" where
  "on_machine f s = bindR (get_cntrs s) (\<lambda>c. bindR (f c (mach s)) (\<lambda>m. Inr (s\<lparr>mach := m\<rparr>)))"

definition on_cntrs :: "(aff_counters \<Rightarrow> machine \<Rightarrow> aff_counters res) \<Rightarrow> sys \<Rightarrow> sys res" where
  "on_cntrs f s = bindR (get_cntrs s) (\<lambda>c. bindR (f c (mach s)) (\<lambda>c.
     Inr (upd_sch (\<lambda>sc. sc\<lparr>cntrs := Some c\<rparr>) s)))"

definition on_both :: "(aff_counters \<Rightarrow> machine \<Rightarrow> aff_counters \<times> machine) \<Rightarrow> sys \<Rightarrow> sys res" where
  "on_both f s = bindR (get_cntrs s) (\<lambda>c. case f c (mach s) of (c, m) \<Rightarrow>
     Inr (upd_sch (\<lambda>sc. sc\<lparr>cntrs := Some c\<rparr>) (s\<lparr>mach := m\<rparr>)))"

text \<open>An operation on the statistics of a program that reads the time stamp counter; the readings
  it may take are numbered from the current one.\<close>

definition on_stats ::
    "env \<Rightarrow> (aff_counters \<Rightarrow> nat list option \<Rightarrow> (nat \<Rightarrow> u64) \<Rightarrow> aff_stats \<Rightarrow> aff_stats res) \<Rightarrow> u64 \<Rightarrow> sys \<Rightarrow> sys res" where
  "on_stats E f p s = bindR (get_prog s p) (\<lambda>prog. bindR (get_pd s p) (\<lambda>pd. bindR (get_cntrs s) (\<lambda>c.
     bindR (f c (Some (cpuset prog)) (\<lambda>k. tsc_rd E (tsc_n s + k)) (stats pd)) (\<lambda>st.
     upd_pd p (\<lambda>pd. pd\<lparr>stats := st\<rparr>) (s\<lparr>tsc_n := tsc_n s + 2 + length (cpus c)\<rparr>)))))"

text \<open>The result files; the file of targets is closed with them.\<close>

definition sched_open_results_files :: "env \<Rightarrow> sys \<Rightarrow> sys res" where
  "sched_open_results_files E s =
     (if results_ok E then Inr (upd_sch (\<lambda>sc. sc\<lparr>files_open := True\<rparr>) s) else Inl (ExitWith (-1)))"

definition sched_close_results_files :: "sys \<Rightarrow> sys res" where
  "sched_close_results_files s = bindR (with_files s) (\<lambda>s. Inr (upd_sch (\<lambda>sc. sc\<lparr>files_open := False\<rparr>) s))"

section \<open>Metrics\<close>

text \<open>The number that the displayed cpuset begins with (\<open>atoi\<close>).\<close>

definition get_cpus :: "env \<Rightarrow> u64 \<Rightarrow> sys \<Rightarrow> int res" where
  "get_cpus E p s = bindR (aff_prog_cpuset_str E p s) (\<lambda>bmr_str. Inr (int_of_long (atol bmr_str)))"

text \<open>Energies in joules, and the traffic of the memory controllers.\<close>

definition get_offcore_metrics :: "sys \<Rightarrow> sys res" where
  "get_offcore_metrics s = bindR (get_cntrs s) (\<lambda>c. bindR (with_files s) (\<lambda>s.
     Inr (upd_sch (\<lambda>sc. sc\<lparr>pkgEnergyCounter := getEnergyCounters c PKG_ENERGY_COUNTER,
                          dramEnergyCounter := getEnergyCounters c DRAM_ENERGY_COUNTER,
                          UncMCReads := UncMCNormalReads (MCinfo c),
                          UncMCWrites := UncMCFullWrites (MCinfo c)\<rparr>) s)))"

text \<open>The time on a clock of milliseconds that starts over every ten thousand seconds.\<close>

definition sched_ms :: "timeval \<Rightarrow> u32" where
  "sched_ms tms = u32_of_int (tv_sec tms smod 10000 * 1000 + tv_usec tms sdiv 1000)"

text \<open>The time since the start, and the temperatures as the distance of the readings from the
  activation temperature.\<close>

definition get_pro_execution_metrics :: "env \<Rightarrow> int \<Rightarrow> sys \<Rightarrow> (u32 \<times> sys) res" where
  "get_pro_execution_metrics E core s = with_tod E (\<lambda>tms s.
     let current = sched_ms tms - sched_start (sch s) in
     bindR (if DTSAvail s then bindR (get_cntrs s) (\<lambda>c. bindR (arr_get (prfcnt c) core) (\<lambda>h.
              Inr (upd_sch (\<lambda>sc. sc\<lparr>oc_dts_temperature := TCCActivation c - DTSValue h\<rparr>) s)))
            else Inr s) (\<lambda>s.
     bindR (if PLTAvail s then bindR (get_cntrs s) (\<lambda>c. bindR (arr_get (prfcnt c) core) (\<lambda>h.
              Inr (upd_sch (\<lambda>sc. sc\<lparr>oc_plt_temperature := TCCActivation c - PLTValue h\<rparr>) s)))
            else Inr s) (\<lambda>s.
     Inr (current, s)))) s"

text \<open>Besides the metrics it prints the processor at index \<open>running_core\<close>.\<close>

definition print_pro_execution_metrics :: "env \<Rightarrow> sys \<Rightarrow> sys res" where
  "print_pro_execution_metrics E s = bindR (get_pro_execution_metrics E (running_core s) s) (\<lambda>(_, s).
     bindR (get_cntrs s) (\<lambda>c. bindR (arr_get (cpus c) (running_core s)) (\<lambda>_. with_files s)))"

text \<open>The report of the first quantum.\<close>

definition sched_initial_metrics :: "env \<Rightarrow> sys \<Rightarrow> sys res" where
  "sched_initial_metrics E s =
     bindR (if progs_init (sch s) = 1 then print_pro_execution_metrics E s else Inr s) with_files"

text \<open>The report has a column for each of these; the temperatures and the occupancy only where the
  machine has them.\<close>

definition counters_header :: "sys \<Rightarrow> string list" where
  "counters_header s =
     [''PROG'', ''PID'', ''CPU'', ''TIME'', ''IRETD'', ''CYCLES'', ''LLC_MISSES'', ''MPKI'', ''MEM BW(C)'',
      ''L3->L2 BW'', ''L2->L1 BW'', ''IPC''] @
     (if CMTAvail s then [''L3_OCC''] else []) @ (if DTSAvail s then [''TEMP(C)''] else []) @
     (if PLTAvail s then [''TEMP(P)''] else []) @
     [''MEM RD BW(S)'', ''MEM WR BW(S)'', ''PKG ENERGY'', ''DRAM ENRGY'']"

text \<open>The printed values. The counts are multiplied at 64 bits and the time of the quantum at 32
  bits before both become \<open>double\<close>, which is here the rational number; a quotient by zero is no
  number (\<open>None\<close>).\<close>

datatype cell = Text string | Count int | Quot "rat option"

definition quot :: "nat \<Rightarrow> nat \<Rightarrow> cell" where
  "quot a b = Quot (if b = 0 then None else Some (of_nat a / of_nat b))"

definition rate :: "u64 \<Rightarrow> u32 \<Rightarrow> cell" where
  "rate n time_quantum = quot (unat (n * 64)) (unat (time_quantum * 1000))"

definition counters_row :: "sys \<Rightarrow> aff_prog \<Rightarrow> prog_data \<Rightarrow> cell list" where
  "counters_row s prog pd =
     (let time_quantum = tm_rstop pd - tm_rstart pd; oc = sch s in
      [Text (prg pd), Count (prog_pid prog), Count (int (st_cpu (stats pd))), Count (s32_of_u32 (tm_running pd)),
       Count (uint (instr_retd pd)), Count (uint (unh_cycles pd)),
       quot (unat (llc_misses pd)) 1000, quot (unat (llc_misses pd * 1000)) (unat (instr_retd pd)),
       rate (pd_mem_reads pd) time_quantum, rate (l2_in pd) time_quantum, rate (l1_repl pd) time_quantum,
       quot (unat (instr_retd pd)) (unat (unh_cycles pd))] @
      (if CMTAvail s then [quot (unat (llc_occupancy pd)) 1000] else []) @
      (if DTSAvail s then [Count (uint (dts_temperature pd))] else []) @
      (if PLTAvail s then [Count (uint (plt_temperature pd))] else []) @
      [rate (UncMCReads oc) time_quantum, rate (UncMCWrites oc) time_quantum,
       Quot (Some (pkgEnergyCounter oc)), Quot (Some (dramEnergyCounter oc))])"

definition sched_print_counters :: "u64 \<Rightarrow> sys \<Rightarrow> (cell list \<times> sys) res" where
  "sched_print_counters p s = bindR (get_prog s p) (\<lambda>prog. bindR (get_pd s p) (\<lambda>pd.
     bindR (with_files s) (\<lambda>s. Inr (counters_row s prog pd, s))))"

text \<open>Every row has the columns of the header, and a quantum whose milliseconds are 0 or a multiple
  of 536870912 has no rates.\<close>

lemma counters_row_fits: "length (counters_row s prog pd) = length (counters_header s)"
  by (simp add: counters_row_def counters_header_def Let_def)

lemma rate_undefined: "rate n time_quantum = Quot None \<longleftrightarrow> 536870912 dvd unat time_quantum"
proof -
  have "unat (time_quantum * 1000) = (unat time_quantum * 1000) mod 2 ^ 32"
    by (simp add: unat_word_ariths(2))
  moreover have "(m * 1000) mod 2 ^ 32 = 0 \<longleftrightarrow> 536870912 dvd m" for m :: nat
  proof -
    have "(m * 1000) mod 2 ^ 32 = 0 \<longleftrightarrow> 8 * 2 ^ 29 dvd 8 * (m * 125)"
      by (simp add: mod_eq_0_iff_dvd mult.commute)
    also have "\<dots> \<longleftrightarrow> 2 ^ 29 dvd m * 125"
      by (rule dvd_times_left_cancel_iff) simp
    also have "\<dots> \<longleftrightarrow> 2 ^ 29 dvd m"
      by (rule coprime_dvd_mult_left_iff) (simp only: coprime_power_left_iff coprime_left_2_iff_odd, simp)
    finally show ?thesis
      by simp
  qed
  ultimately show ?thesis
    by (simp add: rate_def quot_def)
qed

definition prfm_data :: "sys \<Rightarrow> prog_data \<Rightarrow> prog_data" where
  "prfm_data s pd =
     (let st = stats pd;
          pd = pd\<lparr>instr_retd := ss_get_counter st 0 PROG_EVENT, unh_cycles := ss_get_counter st 1 PROG_EVENT,
                  llc_misses := ss_get_counter st 3 PROG_EVENT, l1_repl := ss_get_counter st 4 PROG_EVENT,
                  l2_in := ss_get_counter st 5 PROG_EVENT, pd_mem_reads := ss_get_counter st 6 PROG_EVENT\<rparr>;
          pd = (if CMTAvail s then pd\<lparr>llc_occupancy := ss_get_counter st 0 RMID_EVENT\<rparr> else pd);
          pd = (if DTSAvail s then pd\<lparr>dts_temperature := ss_get_counter st 0 TEMP_EVENT\<rparr> else pd)
      in if PLTAvail s then pd\<lparr>plt_temperature := ss_get_counter st 1 TEMP_EVENT\<rparr> else pd)"

definition sched_update_prfm :: "u64 \<Rightarrow> sys \<Rightarrow> sys res" where
  "sched_update_prfm p s = bindR (get_cntrs s) (\<lambda>_. upd_pd p (prfm_data s) s)"

definition sched_print_prog_finish :: "env \<Rightarrow> u64 \<Rightarrow> sys \<Rightarrow> sys res" where
  "sched_print_prog_finish E p s = bindR (get_pd s p) (\<lambda>_. report_secs E UNIT_COMMON s)"

section \<open>Totals\<close>

definition update_totals :: "prog_data \<Rightarrow> u32 \<Rightarrow> sched \<Rightarrow> sched res" where
  "update_totals pd current sc =
     (let i = init_id pd; n = get_total_instr (stats pd) in
      bindR (arr_set (finish_time sc) i (current - sched_start sc)) (\<lambda>ft.
      bindR (arr_upd (total_instr sc) i (\<lambda>v. v + n)) (\<lambda>ti.
      bindR (arr_upd (total_cycles sc) i (\<lambda>v. v + get_total_cycles (stats pd))) (\<lambda>tc.
      bindR (arr_upd (instr_progs sc) i (\<lambda>v. if v = 0 then n else v)) (\<lambda>ip.
      bindR (arr_upd (last_instr sc) i (\<lambda>v. if killed pd then n else v)) (\<lambda>li.
      bindR (arr_upd (prog_times_finished sc) i (\<lambda>v. if killed pd then v else v + 1)) (\<lambda>tf.
      bindR (arr_upd (total_rtime sc) i (\<lambda>v. v + tm_running pd)) (\<lambda>tr.
      bindR (arr_upd (total_wtime sc) i (\<lambda>v. v + tm_waiting pd)) (\<lambda>tw.
      bindR (arr_set (quanta sc) i (total_tics sc)) (\<lambda>q.
      Inr (sc\<lparr>finish_time := ft, total_instr := ti, total_cycles := tc, instr_progs := ip,
              last_instr := li, prog_times_finished := tf, total_rtime := tr, total_wtime := tw,
              quanta := q\<rparr>)))))))))))"

definition sched_update_totals :: "env \<Rightarrow> u64 \<Rightarrow> sys \<Rightarrow> sys res" where
  "sched_update_totals E p s = bindR (get_pd s p) (\<lambda>pd. bindR (get_cntrs s) (\<lambda>_.
     bindR (with_files s) (with_tod E (\<lambda>now s.
       bindR (update_totals pd (sched_ms now) (sch s)) (\<lambda>sc.
       report_secs E UNIT_COMMON (s\<lparr>sch := sc\<rparr>))))))"

text \<open>Only the time is read; the rest is printing.\<close>

definition sched_print_totals :: "env \<Rightarrow> sys \<Rightarrow> sys res" where
  "sched_print_totals E s = with_tod E (\<lambda>_. with_files) s"

section \<open>Clocks\<close>

text \<open>Milliseconds in an \<open>unsigned int\<close>.\<close>

definition ms_of :: "timeval \<Rightarrow> u32" where
  "ms_of tms = u32_of_int (tv_sec tms * 1000 + tv_usec tms sdiv 1000)"

definition start_clock :: "timeval \<Rightarrow> prog_data \<Rightarrow> prog_data" where
  "start_clock now pd = pd\<lparr>tm_wstop := ms_of now, tm_rstart := ms_of now,
     tm_waiting := tm_waiting pd + (ms_of now - tm_wstart pd)\<rparr>"

definition stop_clock :: "timeval \<Rightarrow> prog_data \<Rightarrow> prog_data" where
  "stop_clock now pd = pd\<lparr>tm_rstop := ms_of now, tm_wstart := ms_of now,
     tm_running := tm_running pd + (ms_of now - tm_rstart pd)\<rparr>"

definition init_clock :: "timeval \<Rightarrow> prog_data \<Rightarrow> prog_data" where
  "init_clock now pd = pd\<lparr>tm_wstart := ms_of now, tm_wstop := ms_of now, tm_rstart := ms_of now,
     tm_rstop := ms_of now, run_status := RS_STOPED, tm_running := 0, tm_waiting := 0\<rparr>"

definition sched_start_clock :: "env \<Rightarrow> u64 \<Rightarrow> sys \<Rightarrow> sys res" where
  "sched_start_clock E p s = bindR (get_pd s p) (\<lambda>pd.
     if run_status pd = RS_RUNNING then Inr s else with_tod E (\<lambda>now. upd_pd p (start_clock now)) s)"

definition sched_stop_clock :: "env \<Rightarrow> u64 \<Rightarrow> sys \<Rightarrow> sys res" where
  "sched_stop_clock E p s = bindR (get_pd s p) (\<lambda>pd.
     if run_status pd = RS_STOPED then Inr s else with_tod E (\<lambda>now. upd_pd p (stop_clock now)) s)"

definition sched_update_waiting :: "env \<Rightarrow> u64 \<Rightarrow> sys \<Rightarrow> sys res" where
  "sched_update_waiting E p s = with_tod E (\<lambda>now.
     upd_pd p (\<lambda>pd. pd\<lparr>waiting_time := s32_of_u32 (ms_of now - tm_wstart pd)\<rparr>)) s"

definition sched_init_clock :: "env \<Rightarrow> u64 \<Rightarrow> sys \<Rightarrow> sys res" where
  "sched_init_clock E p s = with_tod E (\<lambda>now. upd_pd p (init_clock now)) s"

definition sched_update_clock :: "env \<Rightarrow> u64 \<Rightarrow> sys \<Rightarrow> sys res" where
  "sched_update_clock E p s = bindR (sched_start_clock E p s) (sched_stop_clock E p)"

section \<open>Programs\<close>

definition fresh_data :: "env \<Rightarrow> aff_prog \<Rightarrow> aff_stats \<Rightarrow> prog_data" where
  "fresh_data E prog st = (data_junk E)\<lparr>stats := st, pd_cores_needed := cores_needed prog,
     gang_id := int32 (mem_needed prog), category := class_of (uint (u32_of_int (mem_needed prog))),
     core_id := int32 (thr_needed prog), fresh := True, pd_llc_alone := llc_alone prog,
     ipc_alone := int32 (thr_real prog), pd_ideal_instr := ideal_instr prog,
     pd_instr_retd_sum := instr_retd_sum prog, pd_ratio := u64_of_int (ratio prog), killed := False,
     pd_times_cpu := times_cpu prog, pd_sum_mem_reads := sum_mem_reads prog,
     pd_mem_reads := mem_reads prog,
     avg_mem_reads := (if times_cpu prog \<noteq> 0 then sum_mem_reads prog div u64_of_int (times_cpu prog) else 0),
     fitness := 0\<rparr>"

definition sched_prog_alloc :: "env \<Rightarrow> u64 \<Rightarrow> sys \<Rightarrow> sys res" where
  "sched_prog_alloc E p s = bindR (get_prog s p) (\<lambda>prog. bindR (get_cntrs s) (\<lambda>c.
     with_ticks E (\<lambda>now s. bindR (ss_aff_stats_init c (stats (data_junk E)) now) (\<lambda>st.
       bindR (upd_prog p (\<lambda>prog. prog\<lparr>sched_data := Some (fresh_data E prog st)\<rparr>) s)
         (sched_init_clock E p))) s))"

text \<open>The release of the statistics reads the number of processors from the counters.\<close>

definition sched_prog_data_free :: "u64 \<Rightarrow> sys \<Rightarrow> sys res" where
  "sched_prog_data_free p s = bindR (get_pd s p) (\<lambda>_.
     bindR (upd_prog p (\<lambda>prog. prog\<lparr>sched_data := None\<rparr>) s) (\<lambda>s. bindR (get_cntrs s) (\<lambda>_. Inr s)))"

text \<open>The name of a program: \<open>size\<close> bytes are allocated for it, and \<open>size - 1\<close> are copied from the
  command behind the directory. The assignment in \<open>if ((i=size-18)) size -= i\<close> makes \<open>size\<close> 18
  for every command.\<close>

definition prog_name_size :: "string \<Rightarrow> int" where
  "prog_name_size c = (let size = int (length c) - int (length WORK_DIR) + 1; i = size - 18
     in if i \<noteq> 0 then size - i else size)"

definition prog_name :: "string \<Rightarrow> string res" where
  "prog_name c = (let n = nat (prog_name_size c - 1); bytes = drop (length WORK_DIR) (c @ [CHR 0x00])
     in if length bytes < n then Inl BadAccess else Inr (takeWhile (\<lambda>x. x \<noteq> CHR 0x00) (take n bytes)))"

definition sched_add_prog :: "env \<Rightarrow> u64 \<Rightarrow> sys \<Rightarrow> sys res" where
  "sched_add_prog E p s = bindR (sched_prog_alloc E p s) (\<lambda>s. bindR (get_prog s p) (\<lambda>prog.
     if progs_init (sch s) = 0 then Inl DivideError
     else let i = (prog_id prog - ID_USER_OFFSET) smod progs_init (sch s) in
       bindR (arr_get (total_progs (sch s)) i) (\<lambda>nm.
       bindR (case nm of Some n \<Rightarrow> Inr n | None \<Rightarrow> prog_name (cmd prog)) (\<lambda>n.
       bindR (arr_set (total_progs (sch s)) i (Some n)) (\<lambda>tp.
       upd_pd p (\<lambda>pd. pd\<lparr>init_id := i, prg := n,
           respawned := (if do_respawn (sch s) then ID_USER_OFFSET + progs_init (sch s) \<le> prog_id prog
                         else respawned pd)\<rparr>)
         (upd_sch (\<lambda>sc. sc\<lparr>total_progs := tp\<rparr>) s))))))"

definition sched_del_prog :: "env \<Rightarrow> u64 \<Rightarrow> sys \<Rightarrow> sys res" where
  "sched_del_prog E p s = bindR (on_stats E ss_aff_stats_shutdown p s) (\<lambda>s.
     bindR (sched_prog_data_free p s) (aff_prog_dealloc E p))"

section \<open>Termination\<close>

definition sched_finalization :: "sys \<Rightarrow> sys res" where
  "sched_finalization s = bindR (on_machine ss_aff_stop_counters s) (\<lambda>s.
     sched_close_results_files (upd_sch (\<lambda>sc. sc\<lparr>cntrs := None\<rparr>) s))"

text \<open>The key is the program's own pid; \<open>aff_prog_new_running\<close> entered it under its shell's.\<close>

definition sched_clear_prog :: "env \<Rightarrow> u64 \<Rightarrow> sys \<Rightarrow> sys res" where
  "sched_clear_prog E p s = bindR (get_prog s p) (\<lambda>prog.
     bindR (hash_delete (prog_pid_hash s) (u64_of_int (prog_pid prog))) (\<lambda>(hash, _).
     with_ticks E (\<lambda>now. upd_prog p (\<lambda>prog. prog\<lparr>timer := tsc_pause now (timer prog)\<rparr>))
       (s\<lparr>prog_pid_hash := hash, running_nr := running_nr s - 1, finished_nr := finished_nr s + 1\<rparr>)))"

text \<open>\<open>read_instr_from_file\<close>: the two variables that \<open>sscanf\<close> sets keep their values from line to
  line, and have none before the first match.\<close>

function read_instr_from_file :: "string \<Rightarrow> int option \<times> int option \<Rightarrow> int list \<Rightarrow> int list res" where
  "read_instr_from_file f vars targets = (case fgets 1024 f of
      None \<Rightarrow> Inr targets
    | Some (buffer, r) \<Rightarrow>
        (let (i, n) = scan_target buffer;
             i = (if i = None then fst vars else i); n = (if n = None then snd vars else n)
         in case (i, n) of
              (Some k, Some v) \<Rightarrow> bindR (arr_set targets k v) (read_instr_from_file r (i, n))
            | _ \<Rightarrow> Inl BadAccess))"
  by pat_completeness auto
termination
  by (relation "measure (\<lambda>(f, vars, targets). length f)") (auto dest: fgets_shorter)

declare read_instr_from_file.simps [simp del]

end
