(* ===== verification/Policy.thy ===== *)
theory Policy
  imports SchedCommon
begin

text \<open>
  The code that \<open>fair.c\<close>, \<open>perf.c\<close>, \<open>perf_fair.c\<close> and \<open>fair_bw_cache.c\<close> (\<open>src/scheds\<close>) hold in a
  copy each, written once, with a record for what differs: how a program's standalone behaviour is
  collected, how its progress is updated, when monitoring ends, what a respawned program
  inherits, and how the programs of the next quantum are picked. The theories of the four
  policies fill the record in. The sequences of the lists are taken before a loop that moves the
  programs it visits, as \<open>cds_list_for_each_entry_safe\<close> does.
\<close>

section \<open>Phases, lists\<close>

definition monitoring_phase :: "sys \<Rightarrow> bool" where
  "monitoring_phase s \<longleftrightarrow> \<not> monitor_wnd (sch s) > progs_nr (sch s)"

definition move2all :: "u64 \<Rightarrow> sys \<Rightarrow> sys" where
  "move2all p s = upd_sch (\<lambda>sc. sc\<lparr>progs_all := progs_all sc @ [p]\<rparr>) (unlink p s)"

definition add_sch :: "u64 \<Rightarrow> sys \<Rightarrow> sys" where
  "add_sch p = upd_sch (\<lambda>sc. sc\<lparr>progs_sch := progs_sch sc @ [p]\<rparr>)"

definition move2sch :: "u64 \<Rightarrow> sys \<Rightarrow> sys" where
  "move2sch p s = add_sch p (unlink p s)"

definition move_progs_to_all :: "sys \<Rightarrow> sys" where
  "move_progs_to_all s = fold move2all (progs_sch (sch s)) s"

text \<open>The value that the programs are sorted by is returned as an \<open>int\<close>.\<close>

definition get_value :: "sys \<Rightarrow> u64 \<Rightarrow> int" where
  "get_value s p = (case get_pd s p of Inr pd \<Rightarrow> s32_of_u64 (pd_ratio pd) | Inl _ \<Rightarrow> 0)"

definition check_data :: "u64 \<Rightarrow> sys \<Rightarrow> sys res" where
  "check_data p s = bindR (get_pd s p) (\<lambda>_. Inr s)"

definition sort_all :: "sys \<Rightarrow> sys res" where
  "sort_all s =
     (if length (progs_all (sch s)) < 2 then Inr s
      else bindR (foldR check_data (progs_all (sch s)) s)
        (\<lambda>s. Inr (upd_sch (\<lambda>sc. sc\<lparr>progs_all := qsrt_list (get_value s) ASC (progs_all sc)\<rparr>) s)))"

section \<open>What the policies differ in\<close>

record policy =
  pol_collect :: "u64 \<Rightarrow> prog_data \<Rightarrow> prog_data res"
  pol_progress :: "bool \<Rightarrow> u64 \<Rightarrow> prog_data \<Rightarrow> prog_data res"
  pol_finish :: "prog_data \<Rightarrow> prog_data res"
  pol_window :: "int \<Rightarrow> int"
  pol_inherit :: "prog_data \<Rightarrow> aff_prog \<Rightarrow> aff_prog"
  pol_pick :: "env \<Rightarrow> sys \<Rightarrow> sys res"
  pol_timed :: bool

text \<open>An update of a program's data that may fail.\<close>

definition upd_pd_res :: "u64 \<Rightarrow> (prog_data \<Rightarrow> prog_data res) \<Rightarrow> sys \<Rightarrow> sys res" where
  "upd_pd_res p f s = bindR (get_pd s p) (\<lambda>pd. bindR (f pd) (\<lambda>pd'. upd_pd p (\<lambda>_. pd') s))"

text \<open>Progress of a program relative to running alone: retired instructions over ideal ones.\<close>

definition update_progress :: "u64 \<Rightarrow> prog_data \<Rightarrow> prog_data res" where
  "update_progress unh pd =
     (if unh = 0 then Inr pd
      else let ideal = pd_ideal_instr pd + (u64_of_int (ipc_alone pd) * unh) div 1000
           in if ideal = 0 then Inl DivideError
              else Inr (pd\<lparr>pd_ideal_instr := ideal, pd_ratio := (pd_instr_retd_sum pd * 1000) div ideal\<rparr>))"

definition collect_ipc :: "prog_data \<Rightarrow> prog_data res" where
  "collect_ipc pd = (if unh_cycles pd = 0 then Inl DivideError
     else Inr (pd\<lparr>ipc_alone := s32_of_u64 ((instr_retd pd * 1000) div unh_cycles pd)\<rparr>))"

section \<open>Termination\<close>

definition kill_app :: "env \<Rightarrow> u64 \<Rightarrow> sys \<Rightarrow> sys res" where
  "kill_app E p s = with_tod E (\<lambda>_ s.
     bindR (get_pd s p) (\<lambda>_.
     bindR (upd_pd p (\<lambda>pd. pd\<lparr>killed := True\<rparr>) (unlink p s)) (\<lambda>s.
     bindR (sched_update_totals E p s) (\<lambda>s.
     bindR (get_prog s p) (\<lambda>prog.
     bindR (sched_clear_prog E p s) (\<lambda>s.
     let s = upd_sch (\<lambda>sc. sc\<lparr>progs_left := progs_left sc - 1, progs_fnsh := progs_fnsh sc + 1,
                             progs_nr := progs_nr sc - 1\<rparr>) (act (SendKill (prog_pid prog)) s)
     in if progs_left (sch s) \<le> 0
        then bindR (sched_print_totals E s) sched_finalization
        else Inr s)))))) s"

text \<open>The totals that \<open>kill_all\<close> keeps, before and after the clock is updated.\<close>

definition kill_instr :: "prog_data \<Rightarrow> sched \<Rightarrow> sched res" where
  "kill_instr pd sc = (let i = init_id pd; n = get_total_instr (stats pd) in
     bindR (arr_set (last_instr sc) i n) (\<lambda>li.
     bindR (arr_upd (total_instr sc) i (\<lambda>v. v + n)) (\<lambda>ti.
     bindR (arr_upd (total_cycles sc) i (\<lambda>v. v + get_total_cycles (stats pd))) (\<lambda>tc.
     Inr (sc\<lparr>last_instr := li, total_instr := ti, total_cycles := tc\<rparr>)))))"

definition kill_times :: "prog_data \<Rightarrow> sched \<Rightarrow> sched res" where
  "kill_times pd sc = (let i = init_id pd in
     bindR (arr_upd (total_rtime sc) i (\<lambda>v. v + tm_running pd)) (\<lambda>tr.
     bindR (arr_upd (total_wtime sc) i (\<lambda>v. v + tm_waiting pd)) (\<lambda>tw.
     Inr (sc\<lparr>total_rtime := tr, total_wtime := tw\<rparr>))))"

definition on_sched :: "(prog_data \<Rightarrow> sched \<Rightarrow> sched res) \<Rightarrow> u64 \<Rightarrow> sys \<Rightarrow> sys res" where
  "on_sched f p s = bindR (get_pd s p) (\<lambda>pd. bindR (f pd (sch s)) (\<lambda>sc. Inr (s\<lparr>sch := sc\<rparr>)))"

definition kill_one :: "env \<Rightarrow> u64 \<Rightarrow> sys \<Rightarrow> sys res" where
  "kill_one E p s =
     bindR (get_pd s p) (\<lambda>_.
     bindR (get_cntrs s) (\<lambda>_.
     bindR (on_sched kill_instr p (unlink p s)) (\<lambda>s.
     bindR (sched_update_clock E p s) (\<lambda>s.
     bindR (on_sched kill_times p s) (\<lambda>s.
     bindR (get_prog s p) (\<lambda>prog.
     bindR (sched_clear_prog E p (upd_sch (\<lambda>sc. sc\<lparr>progs_fnsh := progs_fnsh sc + 1,
                                       progs_nr := progs_nr sc - 1\<rparr>) s)) (\<lambda>s.
     Inr (act (SendKill (prog_pid prog)) s))))))))"

definition kill_all :: "env \<Rightarrow> sys \<Rightarrow> sys res" where
  "kill_all E s = (let s = move_progs_to_all s in foldR (kill_one E) (progs_all (sch s)) s)"

section \<open>Initialisation\<close>

text \<open>\<open>print_cpu_characteristics\<close> sets the features that the processor reports.\<close>

definition print_cpu_characteristics :: "env \<Rightarrow> sys \<Rightarrow> sys res" where
  "print_cpu_characteristics E s =
     bindR (cpu_characteristics (procr E) \<lparr>cmt = CMTAvail s, mbmt = MBMTAvail s, mbml = MBMLAvail s,
              dts = DTSAvail s, plt = PLTAvail s, turbo = TurboModeON s\<rparr>) (\<lambda>(_, f).
     Inr (s\<lparr>CMTAvail := cmt f, MBMTAvail := mbmt f, MBMLAvail := mbml f, DTSAvail := dts f,
            PLTAvail := plt f, TurboModeON := turbo f\<rparr>))"

text \<open>The counters of the cores, up to and including the start of the memory controllers. The
  device of a processor is opened by its number; there is none for a negative one.\<close>

definition init_counters :: "env \<Rightarrow> sys \<Rightarrow> (aff_counters \<times> machine) res" where
  "init_counters E s =
     (if \<exists>c \<in> set (exec_cpus s). c < 0 then Inl (ExitWith 1)
      else bindR (ss_aff_counters_init (pci_dev E) (CMTAvail s) (DTSAvail s) (PLTAvail s)
                   (map nat (exec_cpus s)) (mach s)) (\<lambda>(c, m).
           bindR (if CMTAvail s then InitRMID (L3CMTGetCapabilities (procr E)) c m else Inr (c, m)) (\<lambda>(c, m).
           bindR (InitPower (TurboModeON s) c m) (\<lambda>(c, m).
           bindR (startPower c m) (\<lambda>c.
           case startMCCounters c m of (c, m) \<Rightarrow>
           bindR (ss_aff_stop_counters c m) (\<lambda>m.
           bindR (ss_aff_zero_cntrs c m) (\<lambda>m.
           Inr (c, m))))))))"

definition init_sched :: "aff_counters \<Rightarrow> int \<Rightarrow> sched \<Rightarrow> sched" where
  "init_sched c n sc = sc\<lparr>progs_all := [], progs_sch := [], total_tics := -1, monitor_wnd := 0,
     progs_nr := 0, progs_init := n, progs_left := n, progs_fnsh := 0, stop_execution := False,
     do_respawn := True, pkgEnergyCounter := 0, dramEnergyCounter := 0, UncMCReads := 0, UncMCWrites := 0,
     cntrs := Some c,
     total_progs := replicate (nat n) None, instr_progs := replicate (nat n) 0,
     total_instr := replicate (nat n) 0, total_cycles := replicate (nat n) 0,
     last_instr := replicate (nat n) 0, target_instr := replicate (nat n) 0,
     prog_times_finished := replicate (nat n) 0, quanta := replicate (nat n) 0,
     finish_time := replicate (nat n) 0, total_rtime := replicate (nat n) 0,
     total_wtime := replicate (nat n) 0\<rparr>"

definition policy_init :: "env \<Rightarrow> sys \<Rightarrow> sys res" where
  "policy_init E s =
     bindR (print_cpu_characteristics E s) (\<lambda>s.
     bindR (init_counters E s) (\<lambda>(c, m).
     bindR (sched_open_results_files E (s\<lparr>mach := m\<rparr>)) (\<lambda>s.
     let s = upd_sch (init_sched c (waiting_nr s)) s in
       (case target_file E of None \<Rightarrow> Inl (ExitWith (-1)) | Some f \<Rightarrow>
        bindR (read_instr_from_file f (None, None) (target_instr (sch s))) (\<lambda>ti.
        bindR (push_event E qt_event (set_qt_event qt (upd_sch (\<lambda>sc. sc\<lparr>target_instr := ti\<rparr>) s)))
          (with_tod E (\<lambda>now s. Inr (upd_sch (\<lambda>sc. sc\<lparr>sched_start := sched_ms now\<rparr>) s))))))))"

section \<open>Running and stopping the programs of a quantum\<close>

definition thaw_prog :: "env \<Rightarrow> u64 \<Rightarrow> sys \<Rightarrow> sys res" where
  "thaw_prog E p s =
     bindR (get_cntrs s) (\<lambda>_.
     bindR (upd_pd p (\<lambda>pd. pd\<lparr>stats := ss_aff_zero_stats (stats pd)\<rparr>) s) (\<lambda>s.
     bindR (on_stats E ss_aff_stats_start p s) (\<lambda>s.
     bindR (sched_update_clock E p s) (\<lambda>s.
     bindR (upd_pd p (\<lambda>pd. pd\<lparr>run_status := RS_RUNNING\<rparr>) s) (\<lambda>s.
     bindR (get_prog s p) (\<lambda>prog.
     request E (Thaw (prog_id prog)) s))))))"

definition thaw_sched :: "env \<Rightarrow> sys \<Rightarrow> sys res" where
  "thaw_sched E s =
     bindR (foldR (thaw_prog E) (progs_sch (sch s)) s) (\<lambda>s.
     bindR (on_machine ss_aff_zero_cntrs s) (\<lambda>s.
     bindR (on_machine ss_aff_counters_start s) (\<lambda>s.
     bindR (on_both startMCCounters s) (on_cntrs startPower))))"

definition freeze_prog :: "env \<Rightarrow> u64 \<Rightarrow> sys \<Rightarrow> sys res" where
  "freeze_prog E p s =
     bindR (get_prog s p) (\<lambda>prog.
     bindR (request E (Freeze (prog_id prog)) s) (\<lambda>s.
     bindR (sched_update_clock E p s) (upd_pd p (\<lambda>pd. pd\<lparr>run_status := RS_STOPED\<rparr>))))"

text \<open>The measurements of a program after a quantum: its counters are paused and read, its metrics
  updated. (\<open>avg_mem_reads\<close> holds the instructions per cycle here.)\<close>

definition co_running :: "prog_data \<Rightarrow> prog_data res" where
  "co_running pd = (if unh_cycles pd = 0 then Inl DivideError
     else Inr (pd\<lparr>pd_times_cpu := pd_times_cpu pd + 1,
                 avg_mem_reads := (instr_retd pd * 1000) div unh_cycles pd\<rparr>))"

definition read_stats :: "aff_counters \<Rightarrow> nat list option \<Rightarrow> (nat \<Rightarrow> u64) \<Rightarrow> aff_stats \<Rightarrow> aff_stats res" where
  "read_stats c cp rd st = ss_aff_stats_read c cp st"

definition measure_prog :: "env \<Rightarrow> u64 \<Rightarrow> sys \<Rightarrow> sys res" where
  "measure_prog E p s =
     bindR (on_stats E ss_aff_stats_pause p s) (\<lambda>s.
     bindR (on_stats E read_stats p s) (\<lambda>s.
     sched_update_prfm p s))"

text \<open>The instructions that a program has left are a \<open>long long\<close>.\<close>

definition charge_target :: "prog_data \<Rightarrow> sched \<Rightarrow> sched res" where
  "charge_target pd sc = bindR (arr_upd (target_instr sc) (init_id pd)
     (\<lambda>v. s64_of_u64 (u64_of_int v - instr_retd pd))) (\<lambda>ti. Inr (sc\<lparr>target_instr := ti\<rparr>))"

definition account_measures :: "env \<Rightarrow> u64 \<Rightarrow> sys \<Rightarrow> sys res" where
  "account_measures E p s =
     bindR (measure_prog E p s) (\<lambda>s. bindR (upd_pd_res p co_running s) (\<lambda>s.
     bindR (sched_print_counters p s) (\<lambda>(_, s). Inr s)))"

text \<open>While programs are monitored the program is alone on its core; afterwards its instructions
  count, and it is killed when it has retired all it has to.\<close>

definition settle_prog :: "policy \<Rightarrow> env \<Rightarrow> u64 \<Rightarrow> sys \<Rightarrow> sys res" where
  "settle_prog P E p s =
     (if monitoring_phase s
      then upd_pd_res p (pol_collect P (UncMCReads (sch s))) s
      else
        bindR (upd_pd p (\<lambda>pd. pd\<lparr>pd_instr_retd_sum := pd_instr_retd_sum pd + instr_retd pd\<rparr>) s) (\<lambda>s.
        bindR (on_sched charge_target p s) (\<lambda>s.
        bindR (get_pd s p) (\<lambda>pd.
        bindR (arr_get (target_instr (sch s)) (init_id pd)) (\<lambda>left.
        if left \<le> 0 then kill_app E p s else Inr s)))))"

definition account_prog :: "policy \<Rightarrow> env \<Rightarrow> u64 \<Rightarrow> u64 \<times> sys \<Rightarrow> (u64 \<times> sys) res" where
  "account_prog P E p us =
     bindR (account_measures E p (snd us)) (\<lambda>s.
     bindR (get_pd s p) (\<lambda>pd.
     bindR (settle_prog P E p s) (\<lambda>s.
     Inr (if fst us = 0 then unh_cycles pd else fst us, s))))"

definition wait_prog :: "policy \<Rightarrow> env \<Rightarrow> u64 \<Rightarrow> u64 \<Rightarrow> sys \<Rightarrow> sys res" where
  "wait_prog P E unh p s = bindR (sched_update_waiting E p s) (\<lambda>s.
     upd_pd_res p (pol_progress P (monitoring_phase s) unh) s)"

text \<open>The counters are stopped and read, and all programs of the quantum are frozen.\<close>

definition stop_quantum :: "env \<Rightarrow> sys \<Rightarrow> sys res" where
  "stop_quantum E s =
     bindR (on_machine ss_aff_stop_counters s) (\<lambda>s.
     bindR (on_cntrs ss_aff_read_counters s) (\<lambda>s.
     bindR (on_both stopMCCounters s) (\<lambda>s.
     bindR (on_cntrs stopPower s) (\<lambda>s.
     bindR (get_offcore_metrics s) (\<lambda>s.
     bindR (if total_tics (sch s) = 0 then sched_initial_metrics E s else Inr s) (\<lambda>s.
     foldR (freeze_prog E) (progs_sch (sch s)) s))))))"

definition close_window :: "policy \<Rightarrow> sys \<Rightarrow> sys" where
  "close_window P s = (if monitor_wnd (sch s) = pol_window P (progs_nr (sch s))
     then upd_sch (\<lambda>sc. sc\<lparr>monitor_wnd := monitor_wnd sc + 1\<rparr>) s else s)"

definition freeze_sched :: "policy \<Rightarrow> env \<Rightarrow> sys \<Rightarrow> sys res" where
  "freeze_sched P E s =
     bindR (stop_quantum E s) (\<lambda>s.
     bindR (foldR (account_prog P E) (progs_sch (sch s)) (0, s)) (\<lambda>(unh, s).
     bindR (with_files (move_progs_to_all s)) (\<lambda>s.
     bindR (foldR (wait_prog P E unh) (progs_all (sch s)) s) (\<lambda>s.
     Inr (close_window P s)))))"

section \<open>Scheduling\<close>

text \<open>Giving a program the cores from \<open>core\<close> on.\<close>

definition assign_cores :: "env \<Rightarrow> int \<Rightarrow> u64 \<Rightarrow> sys \<Rightarrow> sys res" where
  "assign_cores E core p s =
     bindR (get_prog s p) (\<lambda>prog.
     bindR (schedule_setcpurange E p core (core + cores_needed prog) s) (\<lambda>s.
     bindR (schedule_reattach p s) (\<lambda>s.
     bindR (get_cpus E p s) (\<lambda>c.
     upd_pd p (\<lambda>pd. pd\<lparr>pd_cpu := c\<rparr>) s))))"

definition take_cores :: "env \<Rightarrow> u64 \<Rightarrow> int \<times> sys \<Rightarrow> (int \<times> sys) res" where
  "take_cores E p cs = (case cs of (cores, s) \<Rightarrow>
     bindR (assign_cores E cores p s) (\<lambda>s.
     bindR (get_prog s p) (\<lambda>prog.
     Inr (cores + cores_needed prog, s))))"

text \<open>Taking a program from the list of all programs into the next quantum.\<close>

definition place :: "env \<Rightarrow> u64 \<Rightarrow> int \<times> sys \<Rightarrow> (int \<times> sys) res" where
  "place E p cs = (case cs of (cores, s) \<Rightarrow>
     bindR (get_pd s p) (\<lambda>_. take_cores E p (cores, move2sch p s)))"

text \<open>With no program, the code takes the list head for one.\<close>

definition monitor :: "env \<Rightarrow> sys \<Rightarrow> sys res" where
  "monitor E s = (case progs_all (sch s) of
      [] \<Rightarrow> Inl BadAccess
    | p # _ \<Rightarrow> bindR (place E p (monitor_wnd (sch s) smod MAX_CORES, s)) (\<lambda>(_, s).
        Inr (upd_sch (\<lambda>sc. sc\<lparr>monitor_wnd := monitor_wnd sc + 1\<rparr>) s)))"

text \<open>The rest of the cores, in the order of the list.\<close>

definition fill_step :: "env \<Rightarrow> u64 \<Rightarrow> int \<times> sys \<Rightarrow> (int \<times> sys) res" where
  "fill_step E p cs = (if fst cs = MAX_CORES then Inr cs else place E p cs)"

definition fill_rest_cores :: "env \<Rightarrow> int \<times> sys \<Rightarrow> (int \<times> sys) res" where
  "fill_rest_cores E cs = foldR (fill_step E) (progs_all (sch (snd cs))) cs"

text \<open>When cores are left after a first pass: with few programs in the system the rest is filled in
  the order of the list, otherwise with chosen ones (\<open>perf_fair\<close> and \<open>fair_bw_cache\<close>).\<close>

definition fill_left :: "env \<Rightarrow> (int \<Rightarrow> sys \<Rightarrow> sys res) \<Rightarrow> int \<Rightarrow> sys \<Rightarrow> sys res" where
  "fill_left E chosen cores s =
     (if cores \<noteq> MAX_CORES \<and> progs_all (sch s) \<noteq> []
      then if progs_nr (sch s) \<le> MAX_CORES
           then bindR (fill_rest_cores E (cores, s)) (\<lambda>(_, s). Inr s)
           else chosen cores s
      else Inr s)"

definition schedule :: "policy \<Rightarrow> env \<Rightarrow> sys \<Rightarrow> sys res" where
  "schedule P E s =
     (if monitoring_phase s then monitor E s else bindR (with_files s) (pol_pick P E))"

section \<open>Memory bandwidth\<close>

text \<open>The memory reads that the programs of a quantum may make together, what is left of them
  after a program has been picked, and how far a program is from what is left. The reads of a
  program are unsigned, the rest is a \<open>long long\<close>: C computes and compares both as unsigned.\<close>

definition BW_LIMIT :: int where "BW_LIMIT = 547208745"

definition bw_minus :: "int \<Rightarrow> u64 \<Rightarrow> int" where
  "bw_minus bw_rem reads = s64_of_u64 (u64_of_int bw_rem - reads)"

definition bw_spend :: "int \<Rightarrow> u64 \<Rightarrow> int" where
  "bw_spend bw_rem reads = (let bw_rem = bw_minus bw_rem reads in if bw_rem < 0 then 0 else bw_rem)"

definition bw_distance :: "int \<Rightarrow> u64 \<Rightarrow> u64" where
  "bw_distance bw_rem reads =
     (if u64_of_int bw_rem \<ge> reads then u64_of_int bw_rem - reads else reads - u64_of_int bw_rem)"

section \<open>Respawn, rebalance, quantum\<close>

definition stop_all :: "policy \<Rightarrow> env \<Rightarrow> sys \<Rightarrow> sys res" where
  "stop_all P E s =
     bindR (freeze_sched P E (upd_sch (\<lambda>sc. sc\<lparr>stop_execution := True\<rparr>) (s\<lparr>massacre := True\<rparr>))) (\<lambda>s.
     bindR (kill_all E s) (\<lambda>s.
     bindR (sched_print_totals E s) sched_finalization))"

definition respawn :: "policy \<Rightarrow> env \<Rightarrow> u64 \<Rightarrow> sys \<Rightarrow> sys res" where
  "respawn P E p s =
     bindR (get_pd s p) (\<lambda>pd.
     bindR (upd_prog p (pol_inherit P pd) s) (\<lambda>s.
     bindR (arr_get (target_instr (sch s)) (init_id pd)) (\<lambda>left.
     let again = left > 1000000000;
         s = (if again then s else upd_sch (\<lambda>sc. sc\<lparr>progs_left := progs_left sc - 1\<rparr>) s)
     in bindR (if progs_left (sch s) \<le> 0 then stop_all P E s else Inr s) (\<lambda>s.
        if stop_execution (sch s) then Inr s
        else if again then bindR (get_prog s p) (\<lambda>prog.
               prog_respawn E p (int32 (progs_init (sch s) + prog_id prog)) s)
        else Inr s))))"

text \<open>The last measurements of a program that ended by itself.\<close>

definition last_measures :: "policy \<Rightarrow> env \<Rightarrow> u64 \<Rightarrow> sys \<Rightarrow> sys res" where
  "last_measures P E p s =
     bindR (get_pd s p) (\<lambda>pd.
     bindR (on_machine (\<lambda>c. ss_aff_stop_counter c (pd_cpu pd)) s) (\<lambda>s.
     bindR (on_cntrs (\<lambda>c. ss_aff_read_counter c (pd_cpu pd)) s) (\<lambda>s.
     bindR (on_both stopMCCounters s) (\<lambda>s.
     bindR (on_cntrs stopPower s) (\<lambda>s.
     bindR (get_offcore_metrics s) (\<lambda>s.
     bindR (on_machine (\<lambda>c. ss_aff_counter_start c (pd_cpu pd)) s) (\<lambda>s.
     bindR (on_stats E ss_aff_stats_pause p s) (\<lambda>s.
     bindR (on_stats E read_stats p s) (\<lambda>s.
     bindR (sched_update_clock E p s) (\<lambda>s.
     bindR (sched_update_prfm p s) (\<lambda>s.
     bindR (upd_pd p (\<lambda>pd. pd\<lparr>pd_times_cpu := pd_times_cpu pd + 1,
              pd_instr_retd_sum := pd_instr_retd_sum pd + instr_retd pd\<rparr>) s) (\<lambda>s.
     bindR (sched_print_counters p s) (\<lambda>(_, s).
     bindR (sched_print_prog_finish E p s) (\<lambda>s.
     bindR (upd_pd_res p (pol_finish P) s) (\<lambda>s.
     bindR (on_sched charge_target p s) (\<lambda>s.
     bindR (sched_update_totals E p s) (respawn P E p)))))))))))))))))"

definition finished_prog :: "policy \<Rightarrow> env \<Rightarrow> u64 \<Rightarrow> sys \<Rightarrow> sys res" where
  "finished_prog P E p s =
     bindR (get_pd s p) (\<lambda>pd.
     bindR (if \<not> killed pd \<and> \<not> stop_execution (sch s) then last_measures P E p (unlink p s)
            else Inr (unlink p s)) (\<lambda>s.
     sched_del_prog E p (upd_sch (\<lambda>sc. sc\<lparr>progs_fnsh := progs_fnsh sc + 1,
                                        progs_nr := progs_nr sc - 1\<rparr>) s)))"

definition new_prog :: "env \<Rightarrow> u64 \<Rightarrow> sys \<Rightarrow> sys res" where
  "new_prog E p s =
     (if stop_execution (sch s)
      then bindR (get_prog s p) (\<lambda>prog.
             Inr (act (SendKill (prog_pid prog)) s\<lparr>new_nr := new_nr s - 1\<rparr>))
      else bindR (sched_add_prog E p s) (\<lambda>s.
             aff_prog_new_running E p (move2all p (upd_sch (\<lambda>sc. sc\<lparr>progs_nr := progs_nr sc + 1\<rparr>) s))))"

definition policy_rebalance :: "policy \<Rightarrow> env \<Rightarrow> sys \<Rightarrow> sys res" where
  "policy_rebalance P E s =
     bindR (foldR (finished_prog P E) (pfinished_l s) s) (\<lambda>s.
     foldR (new_prog E) (pnew_l s) s)"

text \<open>\<open>fair_bw_cache\<close> also reads the time before and after scheduling, without using it.\<close>

definition read_time :: "policy \<Rightarrow> env \<Rightarrow> sys \<Rightarrow> sys" where
  "read_time P E s = (if pol_timed P then snd (gettimeofday E s) else s)"

definition quantum_work :: "policy \<Rightarrow> env \<Rightarrow> sys \<Rightarrow> sys res" where
  "quantum_work P E s =
     bindR (freeze_sched P E (upd_sch (\<lambda>sc. sc\<lparr>total_tics := total_tics sc + 1\<rparr>)
              (s\<lparr>total_quantums := total_quantums s + 1\<rparr>))) (\<lambda>s.
     bindR (schedule P E (read_time P E s)) (\<lambda>s. thaw_sched E (read_time P E s)))"

definition policy_qexpired :: "policy \<Rightarrow> env \<Rightarrow> timeval \<Rightarrow> sys \<Rightarrow> sys res" where
  "policy_qexpired P E now s = bindR (quantum_work P E s) (\<lambda>s.
     push_event E qt_event (set_qt_event (timeradd qt now) s))"

end
