(* ===== verification/Frame.thy ===== *)
theory Frame
  imports Policy
begin

text \<open>
  What the steps of a policy leave alone: the relation \<open>framed\<close> between a state and the result
  of a computation, proved for every operation once, for any relation that the changes a policy
  makes to its own data respect (\<open>frame_relation\<close>); and what moving programs between the lists
  of a policy keeps.
\<close>

section \<open>Computations that keep a relation\<close>

definition framed :: "(sys \<Rightarrow> sys \<Rightarrow> bool) \<Rightarrow> sys \<Rightarrow> sys res \<Rightarrow> bool" where
  "framed R s r \<longleftrightarrow> (\<forall>t. r = Inr t \<longrightarrow> R s t)"

text \<open>The relation of steps that leave the lists of the policy alone too.\<close>

definition still :: "sys \<Rightarrow> sys \<Rightarrow> bool" where
  "still s t \<longleftrightarrow> quantum_frame s t \<and> progs_all (sch t) = progs_all (sch s) \<and> progs_sch (sch t) = progs_sch (sch s)"

named_theorems frame_rules \<open>computations that keep a relation\<close>

text \<open>Steps that change other parts of the state.\<close>

lemma still_sch: "progs_all (f (sch s)) = progs_all (sch s) \<Longrightarrow> progs_sch (f (sch s)) = progs_sch (sch s) \<Longrightarrow>
    still s (upd_sch f s)"
  by (simp add: still_def quantum_frame_def upd_sch_def pool_def)

lemma still_sch_upd:
  "progs_all sc = progs_all (sch s) \<Longrightarrow> progs_sch sc = progs_sch (sch s) \<Longrightarrow> still s (s\<lparr>sch := sc\<rparr>)"
  by (simp add: still_def quantum_frame_def pool_def)

lemma still_progs: "progs s p = Some x \<Longrightarrow> still s (s\<lparr>progs := (progs s)(p \<mapsto> y)\<rparr>)"
  by (simp add: still_def quantum_frame_def pool_def insert_absorb domI)

lemma still_fields:
  "still s s" "still s (s\<lparr>mach := m\<rparr>)" "still s (s\<lparr>tsc_n := n\<rparr>)" "still s (s\<lparr>tod_n := n\<rparr>)" "still s (act a s)"
  "still s (s\<lparr>total_quantums := q\<rparr>)" "still s (s\<lparr>massacre := b\<rparr>)"
  by (simp_all add: still_def quantum_frame_def pool_def act_def)

lemma still_report: "report_secs E u s = Inr t \<Longrightarrow> still s t"
  by (erule report_secs_fields) (simp add: still_def quantum_frame_def pool_def)

lemma still_hash:
  "hash_shrinks (prog_pid_hash s) h \<Longrightarrow> still s (s\<lparr>prog_pid_hash := h, running_nr := i, finished_nr := j\<rparr>)"
  by (simp add: still_def quantum_frame_def pool_def)

lemma still_cntrs: "still s (upd_sch (\<lambda>sc. sc\<lparr>cntrs := c\<rparr>) s)"
  by (rule still_sch) simp_all

lemma still_trans: "still s t \<Longrightarrow> still t u \<Longrightarrow> still s u"
  by (auto simp: still_def intro: quantum_frame_trans)

locale frame_relation =
  fixes R :: "sys \<Rightarrow> sys \<Rightarrow> bool"
  assumes R_trans: "R s t \<Longrightarrow> R t u \<Longrightarrow> R s u"
    and R_still: "still s t \<Longrightarrow> R s t"
begin

lemma framed_Inr: "R s t \<Longrightarrow> framed R s (Inr t)"
  by (simp add: framed_def)

lemma framed_still: "still s t \<Longrightarrow> framed R s (Inr t)"
  by (simp add: framed_def R_still)

lemma framed_Inl [frame_rules]: "framed R s (Inl e)"
  by (simp add: framed_def)

lemma framed_refl [frame_rules]: "framed R s (Inr s)"
  by (rule framed_still [OF still_fields(1)])

lemma framed_bind [frame_rules]:
  "framed R s m \<Longrightarrow> (\<And>t. R s t \<Longrightarrow> framed R t (f t)) \<Longrightarrow> framed R s (bindR m f)"
  by (auto simp: framed_def res_simps intro: R_trans)

lemma framed_value: "(\<And>x. framed R s (f x)) \<Longrightarrow> framed R s (bindR m f)"
  by (auto simp: framed_def res_simps)

lemma framed_from: "still s t \<Longrightarrow> framed R t r \<Longrightarrow> framed R s r"
  by (auto simp: framed_def intro: R_trans R_still)

lemma framed_if [frame_rules]: "(c \<Longrightarrow> framed R s a) \<Longrightarrow> (\<not> c \<Longrightarrow> framed R s b) \<Longrightarrow> framed R s (if c then a else b)"
  by simp

lemma framed_get_prog [frame_rules]: "(\<And>x. framed R s (f x)) \<Longrightarrow> framed R s (bindR (get_prog t p) f)"
  by (rule framed_value)

lemma framed_get_pd [frame_rules]: "(\<And>x. framed R s (f x)) \<Longrightarrow> framed R s (bindR (get_pd t p) f)"
  by (rule framed_value)

lemma framed_get_cntrs [frame_rules]: "(\<And>x. framed R s (f x)) \<Longrightarrow> framed R s (bindR (get_cntrs t) f)"
  by (rule framed_value)

lemma framed_arr_get [frame_rules]: "(\<And>x. framed R s (f x)) \<Longrightarrow> framed R s (bindR (arr_get xs i) f)"
  by (rule framed_value)

lemma framed_with_tod [frame_rules]: "(\<And>now t. framed R t (f now t)) \<Longrightarrow> framed R s (with_tod E f s)"
  unfolding with_tod_simp by (rule framed_from [OF still_fields(4)])

lemma framed_with_ticks [frame_rules]: "(\<And>now t. framed R t (f now t)) \<Longrightarrow> framed R s (with_ticks E f s)"
  unfolding with_ticks_simp by (rule framed_from [OF still_fields(3)])

lemma framed_foldR:
  assumes "\<And>x t. x \<in> set xs \<Longrightarrow> R s t \<Longrightarrow> framed R t (f x t)"
  shows "framed R s (foldR f xs s)"
  unfolding framed_def
proof (intro allI impI)
  fix t assume "foldR f xs s = Inr t"
  then show "R s t"
    by (rule foldR_invariant [where P = "R s"])
      (use assms in \<open>auto simp: framed_def intro: R_trans R_still still_fields\<close>)
qed

text \<open>A loop that carries a value beside the state.\<close>

lemma framed_foldR_pair:
  assumes "foldR f xs (a, s) = Inr (b, u)"
    and "\<And>x a t b u. x \<in> set xs \<Longrightarrow> R s t \<Longrightarrow> f x (a, t) = Inr (b, u) \<Longrightarrow> R t u"
  shows "R s u"
proof -
  have "case (b, u) of (a, t) \<Rightarrow> R s t"
  proof (rule foldR_invariant [OF assms(1), where P = "\<lambda>(a, t). R s t"])
    show "case (a, s) of (a, t) \<Rightarrow> R s t"
      by (simp add: R_still still_fields)
    show "case w of (a, t) \<Rightarrow> R s t"
      if "x \<in> set xs" "case v of (a, t) \<Rightarrow> R s t" "f x v = Inr w" for x v w
    proof -
      obtain a t b u where v: "v = (a, t)" "w = (b, u)"
        by (cases v; cases w) auto
      with that have "R s t" "R t u"
        using assms(2) [of x t a b u] by simp_all
      then show ?thesis
        using R_trans v by simp
    qed
  qed
  then show ?thesis by simp
qed

lemma framed_upd_prog [frame_rules]: "framed R s (upd_prog p f s)"
  by (auto simp: framed_def upd_prog_Inr intro!: R_still still_progs)

lemma framed_upd_pd [frame_rules]: "framed R s (upd_pd p f s)"
  by (auto simp: framed_def upd_pd_Inr intro!: R_still still_progs)

lemma framed_upd_pd_res [frame_rules]: "framed R s (upd_pd_res p f s)"
  unfolding upd_pd_res_def by (intro framed_value framed_upd_pd)

lemma framed_with_files [frame_rules]: "framed R s (with_files s)"
  by (simp add: framed_def with_files_def res_simps R_still still_fields)

lemma framed_print_counters [frame_rules]:
  assumes "framed R s (f s)"
  shows "framed R s (bindR (sched_print_counters p s) (\<lambda>(_, s). f s))"
  using assms by (auto simp: framed_def sched_print_counters_def with_files_def res_simps)

lemma framed_request [frame_rules]: "framed R s (request E a s)"
  by (auto simp: framed_def request_Inr intro: R_still still_fields)

lemma framed_ask [frame_rules]: "framed R s (ask E a s)"
  by (simp add: framed_def ask_Inr R_still still_fields)

lemma framed_report_secs [frame_rules]: "framed R s (report_secs E u s)"
  by (simp add: framed_def R_still still_report)

lemma framed_print [frame_rules]: "framed R s (aff_prog_print E p s)"
  unfolding aff_prog_print_def by (intro framed_value framed_refl)

lemma framed_check_status [frame_rules]: "framed R s (aff_prog_check_status E p exited s)"
  unfolding aff_prog_check_status_def by (intro frame_rules)

lemma framed_print_prog_finish [frame_rules]: "framed R s (sched_print_prog_finish E p s)"
  unfolding sched_print_prog_finish_def by (intro frame_rules)

lemma framed_close_files: "framed R s (sched_close_results_files s)"
  unfolding sched_close_results_files_def by (intro frame_rules framed_still still_sch) simp_all

lemma framed_on_machine [frame_rules]: "framed R s (on_machine f s)"
  unfolding on_machine_def by (intro framed_value framed_still still_fields)

lemma framed_on_cntrs [frame_rules]: "framed R s (on_cntrs f s)"
  unfolding on_cntrs_def by (intro framed_value framed_still still_cntrs)

lemma framed_on_both [frame_rules]: "framed R s (on_both f s)"
  unfolding on_both_def
proof (intro framed_value)
  fix c
  show "framed R s (case f c (mach s) of (c, m) \<Rightarrow> Inr (upd_sch (\<lambda>sc. sc\<lparr>cntrs := Some c\<rparr>) (s\<lparr>mach := m\<rparr>)))"
    by (cases "f c (mach s)") (auto intro: framed_still still_trans [OF still_fields(2) still_cntrs])
qed

lemma framed_on_stats [frame_rules]: "framed R s (on_stats E f p s)"
  unfolding on_stats_def
proof (intro framed_value)
  fix prog pd c st
  show "framed R s (upd_pd p (\<lambda>pd. pd\<lparr>stats := st\<rparr>) (s\<lparr>tsc_n := tsc_n s + 2 + length (cpus c)\<rparr>))"
    by (rule framed_from [OF still_fields(3) framed_upd_pd])
qed

lemma framed_offcore [frame_rules]: "framed R s (get_offcore_metrics s)"
  unfolding get_offcore_metrics_def
  by (intro frame_rules framed_still still_sch) simp_all

lemma framed_temperature:
  "framed R s (if b then bindR (get_cntrs s) (\<lambda>c. bindR (arr_get (prfcnt c) core) (\<lambda>h.
      Inr (upd_sch (\<lambda>sc. sc\<lparr>oc_dts_temperature := f c h\<rparr>) s))) else Inr s)"
  "framed R s (if b then bindR (get_cntrs s) (\<lambda>c. bindR (arr_get (prfcnt c) core) (\<lambda>h.
      Inr (upd_sch (\<lambda>sc. sc\<lparr>oc_plt_temperature := f c h\<rparr>) s))) else Inr s)"
  by (auto simp: framed_def bindR_eq_Inr intro!: R_still still_fields still_sch)

lemma pro_metrics_frame: "get_pro_execution_metrics E core s = Inr (v, t) \<Longrightarrow> R s t"
proof -
  assume run: "get_pro_execution_metrics E core s = Inr (v, t)"
  let ?s = "s\<lparr>tod_n := Suc (tod_n s)\<rparr>"
  obtain u where u: "(if DTSAvail ?s then bindR (get_cntrs ?s) (\<lambda>c. bindR (arr_get (prfcnt c) core) (\<lambda>h.
        Inr (upd_sch (\<lambda>sc. sc\<lparr>oc_dts_temperature := TCCActivation c - DTSValue h\<rparr>) ?s))) else Inr ?s) = Inr u"
    and t: "(if PLTAvail u then bindR (get_cntrs u) (\<lambda>c. bindR (arr_get (prfcnt c) core) (\<lambda>h.
        Inr (upd_sch (\<lambda>sc. sc\<lparr>oc_plt_temperature := TCCActivation c - PLTValue h\<rparr>) u))) else Inr u) = Inr t"
    using run unfolding get_pro_execution_metrics_def with_tod_simp Let_def by (elim bindR_E) blast
  have "R ?s u" "R u t"
    by (rule framed_temperature(1) [unfolded framed_def, rule_format, OF u],
        rule framed_temperature(2) [unfolded framed_def, rule_format, OF t])
  then show "R s t"
    using R_trans R_still [OF still_fields(4)] by blast
qed

lemma framed_initial_metrics [frame_rules]: "framed R s (sched_initial_metrics E s)"
proof -
  have "framed R s (print_pro_execution_metrics E s)"
    using pro_metrics_frame framed_with_files R_trans unfolding print_pro_execution_metrics_def framed_def
    by (blast elim: bindR_E bindR_pairE)
  then show ?thesis
    unfolding sched_initial_metrics_def by (intro frame_rules)
qed

lemma framed_update_prfm [frame_rules]: "framed R s (sched_update_prfm p s)"
  unfolding sched_update_prfm_def by (intro frame_rules)

lemma framed_print_totals [frame_rules]: "framed R s (sched_print_totals E s)"
  unfolding sched_print_totals_def by (intro frame_rules)

lemma framed_start_clock [frame_rules]: "framed R s (sched_start_clock E p s)"
  unfolding sched_start_clock_def by (intro frame_rules)

lemma framed_stop_clock [frame_rules]: "framed R s (sched_stop_clock E p s)"
  unfolding sched_stop_clock_def by (intro frame_rules)

lemma framed_update_clock [frame_rules]: "framed R s (sched_update_clock E p s)"
  unfolding sched_update_clock_def by (intro frame_rules)

lemma framed_update_waiting [frame_rules]: "framed R s (sched_update_waiting E p s)"
  unfolding sched_update_waiting_def by (intro frame_rules)

lemma framed_on_sched:
  assumes "\<And>pd sc sc'. f pd sc = Inr sc' \<Longrightarrow> progs_all sc' = progs_all sc \<and> progs_sch sc' = progs_sch sc"
  shows "framed R s (on_sched f p s)"
  using assms unfolding framed_def on_sched_def by (auto simp: res_simps intro!: R_still still_sch_upd)

lemma framed_charge [frame_rules]: "framed R s (on_sched charge_target p s)"
  by (rule framed_on_sched) (auto simp: charge_target_def res_simps)

lemma update_totals_lists:
  "update_totals pd cur sc = Inr sc' \<Longrightarrow> progs_all sc' = progs_all sc \<and> progs_sch sc' = progs_sch sc"
  by (auto simp: update_totals_def Let_def res_simps)

lemma framed_update_totals [frame_rules]: "framed R s (sched_update_totals E p s)"
proof -
  have "framed R t (bindR (update_totals pd cur (sch t)) (\<lambda>sc. report_secs E UNIT_COMMON (t\<lparr>sch := sc\<rparr>)))" for pd cur t
    using update_totals_lists still_trans [OF still_sch_upd still_report] unfolding framed_def
    by (fastforce simp: bindR_eq_Inr intro!: R_still)
  then show ?thesis
    unfolding sched_update_totals_def by (intro frame_rules)
qed

lemma framed_clear_prog [frame_rules]: "framed R s (sched_clear_prog E p s)"
  unfolding framed_def
proof (intro allI impI)
  fix t assume "sched_clear_prog E p s = Inr t"
  then obtain k h v where h: "hash_delete (prog_pid_hash s) k = Inr (h, v)"
    and t: "with_ticks E (\<lambda>now. upd_prog p (\<lambda>prog. prog\<lparr>timer := tsc_pause now (timer prog)\<rparr>))
        (s\<lparr>prog_pid_hash := h, running_nr := running_nr s - 1, finished_nr := finished_nr s + 1\<rparr>) = Inr t"
    by (auto simp: sched_clear_prog_def bindR_eq_Inr)
  have "framed R (s\<lparr>prog_pid_hash := h, running_nr := running_nr s - 1, finished_nr := finished_nr s + 1\<rparr>)
      (with_ticks E (\<lambda>now. upd_prog p (\<lambda>prog. prog\<lparr>timer := tsc_pause now (timer prog)\<rparr>))
        (s\<lparr>prog_pid_hash := h, running_nr := running_nr s - 1, finished_nr := finished_nr s + 1\<rparr>))"
    by (rule framed_with_ticks, rule framed_upd_prog)
  with t show "R s t"
    using R_trans [OF R_still [OF still_hash [OF hash_shrinks_delete [OF h]]]] by (simp add: framed_def)
qed

lemma framed_finalization [frame_rules]: "framed R s (sched_finalization s)"
proof -
  have "framed R t (sched_close_results_files (upd_sch (\<lambda>sc. sc\<lparr>cntrs := None\<rparr>) t))" for t
    by (rule framed_from [OF still_cntrs framed_close_files])
  then show ?thesis
    unfolding sched_finalization_def by (intro frame_rules)
qed

end

section \<open>Moving programs\<close>

lemma unlink_frame:
  assumes "p \<notin> set (pnew_l s) \<union> set (pfinished_l s)"
  shows "quantum_frame s (unlink p s)"
proof -
  have "removeAll p (pnew_l s) = pnew_l s" "removeAll p (pfinished_l s) = pfinished_l s"
    using assms by (auto intro: removeAll_id)
  then show ?thesis
    by (auto simp: quantum_frame_def pool_def unlink_def mset_filter removeAll_filter_not_eq
        intro: subset_mset.add_mono)
qed


section \<open>Steps that keep the programs of the policy\<close>

text \<open>Steps that keep the programs of the policy, each in one of its two lists.\<close>

definition keeps_pool :: "sys \<Rightarrow> sys \<Rightarrow> bool" where
  "keeps_pool s t \<longleftrightarrow> quantum_frame s t \<and> pool t = pool s"

interpretation shrink: frame_relation quantum_frame
  by unfold_locales (auto simp: still_def intro: quantum_frame_trans)

interpretation stay: frame_relation still
  by unfold_locales (auto intro: still_trans)

interpretation keep: frame_relation keeps_pool
  by unfold_locales (auto simp: keeps_pool_def still_def pool_def intro: quantum_frame_trans)

lemma keeps_frame: "keeps_pool s t \<Longrightarrow> quantum_frame s t"
  by (simp add: keeps_pool_def)

lemma keeps_lists_ok: "keeps_pool s t \<Longrightarrow> lists_ok s \<Longrightarrow> lists_ok t"
  using quantum_frame_lists keeps_frame by blast

lemma keeps_sched_lists: "keeps_pool s t \<Longrightarrow> sched_lists t = sched_lists s"
  by (simp add: keeps_pool_def flip: set_pool)

text \<open>Moving a program of the policy to the end of one of the two lists.\<close>

lemma mset_removeAll_distinct: "distinct xs \<Longrightarrow> x \<in> set xs \<Longrightarrow> add_mset x (mset (removeAll x xs)) = mset xs"
  by (simp add: distinct_remove1_removeAll [symmetric])

lemma move_keeps:
  assumes "lists_ok s" and "p \<in> sched_lists s"
  shows "keeps_pool s (move2all p s)" and "keeps_pool s (move2sch p s)"
proof -
  let ?a = "progs_all (sch s)" and ?b = "progs_sch (sch s)"
  have un: "quantum_frame s (unlink p s)"
    using assms by (intro unlink_frame) (auto simp: lists_ok_def)
  have "add_mset p (mset (removeAll p (?a @ ?b))) = mset (?a @ ?b)"
    using assms by (intro mset_removeAll_distinct) (auto simp: lists_ok_def sched_lists_def)
  then have m: "add_mset p (mset (removeAll p ?a) + mset (removeAll p ?b)) = mset ?a + mset ?b"
    by (simp add: mset_filter removeAll_filter_not_eq)
  have eq: "pool (move2all p s) = pool s" "pool (move2sch p s) = pool s"
    using m by (simp_all add: pool_def move2all_def move2sch_def add_sch_def upd_sch_def unlink_def)
  have f: "quantum_frame s (move2all p s)" "quantum_frame s (move2sch p s)"
    using un unfolding quantum_frame_def eq
    by (simp_all add: move2all_def move2sch_def add_sch_def upd_sch_def unlink_def)
  from f eq show "keeps_pool s (move2all p s)" and "keeps_pool s (move2sch p s)"
    by (simp_all add: keeps_pool_def)
qed

text \<open>The code that gives a program its cores, and the loops over the lists.\<close>

context frame_relation
begin

lemma framed_setcpurange [frame_rules]: "framed R s (schedule_setcpurange E p i j s)"
  unfolding schedule_setcpurange_def schedule_setcpus_def do_setcpumask_def
  by (intro framed_value frame_rules)

lemma framed_assign_cores [frame_rules]: "framed R s (assign_cores E core p s)"
proof -
  have "framed R t (schedule_reattach p t)" for t
    unfolding schedule_reattach_def by (intro framed_value framed_still still_fields)
  then show ?thesis
    unfolding assign_cores_def get_cpus_def by (intro frame_rules framed_value)
qed

end

lemma framedD: "framed R s r \<Longrightarrow> r = Inr t \<Longrightarrow> R s t"
  by (simp add: framed_def)

lemma take_cores_still: "take_cores E p (cores, s) = Inr (cores', t) \<Longrightarrow> still s t"
proof -
  assume "take_cores E p (cores, s) = Inr (cores', t)"
  then have "assign_cores E cores p s = Inr t"
    by (auto simp: take_cores_def res_simps)
  then show ?thesis
    by (rule framedD [OF stay.framed_assign_cores])
qed

lemma take_keeps:
  assumes "lists_ok s" and "p \<in> sched_lists s" and "take_cores E p (cores, move2sch p s) = Inr (cores', t)"
  shows "keeps_pool s t"
  using keep.R_trans [OF move_keeps(2) [OF assms(1,2)] keep.R_still [OF take_cores_still [OF assms(3)]]] .

lemma place_keeps:
  assumes "lists_ok s" and "p \<in> sched_lists s" and "place E p (cores, s) = Inr (cores', t)"
  shows "keeps_pool s t"
  using assms(3) take_keeps [OF assms(1,2)] by (auto simp: place_def res_simps)

text \<open>Picking a program takes it out of the list of all programs.\<close>

lemma place_shrinks: "place E p (cores, s) = Inr (cores', t) \<Longrightarrow> progs_all (sch t) = removeAll p (progs_all (sch s))"
proof -
  assume "place E p (cores, s) = Inr (cores', t)"
  then have "take_cores E p (cores, move2sch p s) = Inr (cores', t)"
    by (auto simp: place_def res_simps)
  from take_cores_still [OF this] show ?thesis
    by (simp add: still_def move2sch_def add_sch_def upd_sch_def unlink_def)
qed

lemma length_removeAll_mem: "x \<in> set xs \<Longrightarrow> length (removeAll x xs) < length xs"
  by (metis length_removeAll_less)

lemmas [fundef_cong] = bindR_cong

end
