(* ===== verification/Placement.thy ===== *)
theory Placement
  imports Frame
begin

text \<open>
  How the programs of a quantum get their cores: what \<open>assign_cores\<close> does to a program, runs of
  steps that pick programs one after the other (\<open>picking\<close>), and what every such run keeps: no
  program is lost, and no core is given to two programs.
\<close>

section \<open>Seats\<close>

text \<open>The processors that the positions from \<open>lo\<close> to below \<open>hi\<close> of the executor's list stand for.\<close>

definition core_set :: "int list \<Rightarrow> int \<Rightarrow> int \<Rightarrow> nat set" where
  "core_set cs lo hi = {nat (cs ! nat i) | i. lo \<le> i \<and> i < hi \<and> i < int (length cs) \<and> 0 \<le> cs ! nat i}"

definition seat :: "sys \<Rightarrow> u64 \<Rightarrow> nat set" where
  "seat s p = (case progs s p of Some prog \<Rightarrow> set (cpuset prog) | None \<Rightarrow> {})"

definition needs :: "sys \<Rightarrow> u64 \<Rightarrow> int" where
  "needs s p = (case progs s p of Some prog \<Rightarrow> cores_needed prog | None \<Rightarrow> 0)"

lemma core_set_mono: "lo' \<le> lo \<Longrightarrow> hi \<le> hi' \<Longrightarrow> core_set cs lo hi \<subseteq> core_set cs lo' hi'"
  by (force simp: core_set_def)

lemma core_set_disjoint:
  assumes "distinct cs" and "0 \<le> lo" and "hi \<le> lo'"
  shows "core_set cs lo hi \<inter> core_set cs lo' hi' = {}"
proof -
  have False if "x \<in> core_set cs lo hi" "x \<in> core_set cs lo' hi'" for x
  proof -
    from that obtain i j where "lo \<le> i" "i < hi" "i < int (length cs)" "0 \<le> cs ! nat i" "x = nat (cs ! nat i)"
        "lo' \<le> j" "j < int (length cs)" "0 \<le> cs ! nat j" "x = nat (cs ! nat j)"
      unfolding core_set_def by blast
    then have "cs ! nat i = cs ! nat j" "nat i \<noteq> nat j" "nat i < length cs" "nat j < length cs"
      using assms(2,3) by linarith+
    with assms(1) show False
      by (simp add: nth_eq_iff_index_eq)
  qed
  then show ?thesis by blast
qed

lemma range_mask_subset:
  assumes "range_mask E cs lo hi = Inr bm"
  shows "set bm \<subseteq> core_set cs lo hi"
proof (rule foldR_invariant [OF assms [unfolded range_mask_def], where P = "\<lambda>bm. set bm \<subseteq> core_set cs lo hi"])
  show "set [] \<subseteq> core_set cs lo hi" by simp
  fix i bm bm'
  assume "i \<in> set [lo..hi - 1]" "set bm \<subseteq> core_set cs lo hi"
    "bindR (arr_get cs i) (\<lambda>c. Inr (bitmask_setbit E bm c)) = Inr bm'"
  then show "set bm' \<subseteq> core_set cs lo hi"
    by (auto simp: bindR_eq_Inr arr_get_eq_Inr bitmask_setbit_def core_set_def split: if_splits)
qed

text \<open>Giving cores changes the processors of the program and where its data says it runs.\<close>

lemma assign_cores_spec:
  assumes "assign_cores E core p s = Inr t"
  shows "\<exists>prog pd bm k. progs s p = Some prog \<and> sched_data prog = Some pd
    \<and> range_mask E (exec_cpus s) core (core + cores_needed prog) = Inr bm
    \<and> progs t = (progs s)(p \<mapsto> prog\<lparr>cpuset := bm,
        prog_shm := aff_shm_set_cpus_assigned (prog_shm prog) (of_nat (length bm)),
        sched_data := Some (pd\<lparr>pd_cpu := k\<rparr>)\<rparr>)
    \<and> exec_cpus t = exec_cpus s"
proof -
  obtain prog bm where "progs s p = Some prog" "range_mask E (exec_cpus s) core (core + cores_needed prog) = Inr bm"
    using assms by (auto simp: assign_cores_def schedule_setcpurange_def bindR_eq_Inr get_prog_Inr)
  with assms show ?thesis
    by (auto simp: assign_cores_def schedule_setcpurange_def schedule_setcpus_def do_setcpumask_def
        schedule_reattach_def bindR_eq_Inr get_prog_Inr upd_prog_Inr upd_pd_Inr request_Inr act_def)
qed

lemma take_cores_spec:
  assumes "take_cores E p (c, s) = Inr (c', t)"
  shows "seat t p \<subseteq> core_set (exec_cpus s) c c'" and "q \<noteq> p \<Longrightarrow> seat t q = seat s q"
    and "needs t q = needs s q" and "c' = c + needs s p" and "exec_cpus t = exec_cpus s"
proof -
  obtain u prog' where u: "assign_cores E c p s = Inr t" "progs t p = Some prog'" "c' = c + cores_needed prog'"
    using assms by (auto simp: take_cores_def bindR_eq_Inr get_prog_Inr)
  obtain prog pd bm k where a: "progs s p = Some prog" "range_mask E (exec_cpus s) c (c + cores_needed prog) = Inr bm"
      "progs t = (progs s)(p \<mapsto> prog\<lparr>cpuset := bm,
        prog_shm := aff_shm_set_cpus_assigned (prog_shm prog) (of_nat (length bm)),
        sched_data := Some (pd\<lparr>pd_cpu := k\<rparr>)\<rparr>)"
      "exec_cpus t = exec_cpus s"
    using assign_cores_spec [OF u(1)] by blast
  show c': "c' = c + needs s p" and "needs t q = needs s q" and "exec_cpus t = exec_cpus s"
    using u(2,3) a by (auto simp: needs_def)
  show "seat t p \<subseteq> core_set (exec_cpus s) c c'"
    using range_mask_subset [OF a(2)] c' a(1,3) by (simp add: seat_def needs_def)
  show "seat t q = seat s q" if "q \<noteq> p"
    using that a(3) by (simp add: seat_def)
qed

section \<open>Runs of picks\<close>

text \<open>A step that picks no program: it may write the data of the policy and order its list anew.\<close>

definition quiet :: "sys \<Rightarrow> sys \<Rightarrow> bool" where
  "quiet s t \<longleftrightarrow> keeps_pool s t \<and> progs_sch (sch t) = progs_sch (sch s) \<and> exec_cpus t = exec_cpus s
     \<and> seat t = seat s \<and> needs t = needs s"

text \<open>A step that leaves the lists alone, too.\<close>

definition calm :: "sys \<Rightarrow> sys \<Rightarrow> bool" where
  "calm s t \<longleftrightarrow> still s t \<and> exec_cpus t = exec_cpus s \<and> seat t = seat s \<and> needs t = needs s"

lemma calm_quiet: "calm s t \<Longrightarrow> quiet s t"
  by (auto simp: calm_def quiet_def still_def keep.R_still)

lemma calm_refl [simp]: "calm s s"
  by (simp add: calm_def still_fields)

lemma calm_trans: "calm s t \<Longrightarrow> calm t u \<Longrightarrow> calm s u"
  using still_trans by (auto simp: calm_def)

lemma calm_upd_pd:
  assumes "upd_pd p f s = Inr t"
  shows "calm s t"
proof -
  have "still s t"
    by (rule framedD [OF stay.framed_upd_pd assms])
  moreover obtain prog pd where "progs s p = Some prog" "t = s\<lparr>progs := (progs s)(p \<mapsto> prog\<lparr>sched_data := Some (f pd)\<rparr>)\<rparr>"
    using assms by (auto simp: upd_pd_Inr)
  ultimately show ?thesis
    by (auto simp: calm_def seat_def needs_def fun_eq_iff split: if_splits)
qed

inductive picking :: "env \<Rightarrow> int \<times> sys \<Rightarrow> int \<times> sys \<Rightarrow> bool" for E where
  picking_done: "picking E cs cs"
| picking_quiet: "quiet s u \<Longrightarrow> picking E (c, u) r \<Longrightarrow> picking E (c, s) r"
| picking_take: "p \<in> sched_lists s \<Longrightarrow> take_cores E p (c, move2sch p s) = Inr (c', u) \<Longrightarrow>
    picking E (c', u) r \<Longrightarrow> picking E (c, s) r"

lemma picking_trans [trans]: "picking E a b \<Longrightarrow> picking E b r \<Longrightarrow> picking E a r"
  by (induction rule: picking.induct) (auto intro: picking.intros)

lemma picking_one: "p \<in> sched_lists s \<Longrightarrow> take_cores E p (c, move2sch p s) = Inr (c', u) \<Longrightarrow> picking E (c, s) (c', u)"
  by (rule picking_take [OF _ _ picking_done])

lemma picking_place: "p \<in> sched_lists s \<Longrightarrow> place E p (c, s) = Inr (c', u) \<Longrightarrow> picking E (c, s) (c', u)"
  by (rule picking_one) (auto simp: place_def bindR_eq_Inr)

lemma quiet_refl [simp]: "quiet s s"
  by (simp add: quiet_def keep.R_still still_fields)

lemma picking_only_quiet: "quiet s u \<Longrightarrow> picking E (c, s) (c, u)"
  by (rule picking_quiet [OF _ picking_done])

lemma picking_keeps: "picking E a b \<Longrightarrow> lists_ok (snd a) \<Longrightarrow> keeps_pool (snd a) (snd b)"
proof (induction rule: picking.induct)
  case (picking_done cs)
  then show ?case by (simp add: keep.R_still still_fields)
next
  case (picking_quiet s u c r)
  then have su: "keeps_pool s u"
    by (simp add: quiet_def)
  with picking_quiet show ?case
    using keep.R_trans keeps_lists_ok by simp
next
  case (picking_take p s c c' u r)
  then have su: "keeps_pool s u"
    using take_keeps by simp
  with picking_take show ?case
    using keep.R_trans keeps_lists_ok by simp
qed

text \<open>The programs picked so far sit on the cores below \<open>c\<close>, no two on the same one.\<close>

definition seated :: "int \<times> sys \<Rightarrow> bool" where
  "seated a \<longleftrightarrow> (case a of (c, s) \<Rightarrow> 0 \<le> c
     \<and> (\<forall>p \<in> set (progs_sch (sch s)). seat s p \<subseteq> core_set (exec_cpus s) 0 c)
     \<and> (\<forall>p \<in> set (progs_sch (sch s)). \<forall>q \<in> set (progs_sch (sch s)). p \<noteq> q \<longrightarrow> seat s p \<inter> seat s q = {}))"

lemma seat_move2sch [simp]: "seat (move2sch p s) = seat s" "needs (move2sch p s) = needs s"
    "exec_cpus (move2sch p s) = exec_cpus s"
    "progs_sch (sch (move2sch p s)) = removeAll p (progs_sch (sch s)) @ [p]"
  by (simp_all add: fun_eq_iff seat_def needs_def move2sch_def add_sch_def upd_sch_def unlink_def)

lemma seated_take:
  assumes "seated (c, s)" and "distinct (exec_cpus s)" and "0 \<le> needs s p"
    and "take_cores E p (c, move2sch p s) = Inr (c', u)"
  shows "seated (c', u)"
proof -
  note spec = take_cores_spec [OF assms(4), unfolded seat_move2sch]
  have lists: "progs_sch (sch u) = removeAll p (progs_sch (sch s)) @ [p]"
    using take_cores_still [OF assms(4)] by (simp add: still_def)
  have c: "0 \<le> c" "c \<le> c'" "0 \<le> c'"
    using assms(1,3) spec(4) by (simp_all add: seated_def)
  have old: "seat u q \<subseteq> core_set (exec_cpus s) 0 c" if "q \<in> set (progs_sch (sch s))" "q \<noteq> p" for q
    using that assms(1) spec(2) [OF that(2)] by (simp add: seated_def)
  then have apart: "seat u q \<inter> seat u p = {}" if "q \<in> set (progs_sch (sch s))" "q \<noteq> p" for q
    using that spec(1) core_set_disjoint [OF assms(2), of 0 c c c'] by blast
  have "seat u p \<subseteq> core_set (exec_cpus s) 0 c'"
    using spec(1) core_set_mono [of 0 c c' c' "exec_cpus s"] c by blast
  moreover have "seat u q \<subseteq> core_set (exec_cpus s) 0 c'" if "q \<in> set (progs_sch (sch s))" "q \<noteq> p" for q
    using old [OF that] core_set_mono [of 0 0 c c' "exec_cpus s"] c by blast
  moreover have "seat u q \<inter> seat u r = {}"
    if "q \<in> set (progs_sch (sch u))" "r \<in> set (progs_sch (sch u))" "q \<noteq> r" for q r
  proof (cases "q = p \<or> r = p")
    case True
    with that lists apart show ?thesis by (auto simp: Int_commute)
  next
    case False
    with that lists assms(1) spec(2) show ?thesis by (simp add: seated_def)
  qed
  ultimately show ?thesis
    using lists c(3) spec(5) unfolding seated_def prod.case by (metis Un_iff list.set_intros(1) set_ConsD
        set_append set_removeAll Diff_iff singletonD empty_iff list.set(1) insertE list.simps(15))
qed

lemma picking_seated:
  "picking E a b \<Longrightarrow> lists_ok (snd a) \<Longrightarrow> distinct (exec_cpus (snd a)) \<Longrightarrow>
    \<forall>p \<in> sched_lists (snd a). 0 \<le> needs (snd a) p \<Longrightarrow> seated a \<Longrightarrow> seated b"
proof (induction rule: picking.induct)
  case (picking_done cs)
  then show ?case by simp
next
  case (picking_quiet s u c r)
  then have k: "keeps_pool s u" and q: "exec_cpus u = exec_cpus s" "needs u = needs s" "seated (c, u)"
    by (simp_all add: quiet_def seated_def)
  with picking_quiet show ?case
    using keeps_lists_ok [OF k] keeps_sched_lists [OF k] by simp
next
  case (picking_take p s c c' u r)
  have k: "keeps_pool s u"
    by (rule take_keeps [OF _ picking_take(1,2)]) (use picking_take.prems in simp)
  moreover have "seated (c', u)"
    by (rule seated_take [OF _ _ _ picking_take(2)]) (use picking_take in auto)
  moreover have "exec_cpus u = exec_cpus s" "needs u = needs s"
    using take_cores_spec(3,5) [OF picking_take(2)] by (auto simp: fun_eq_iff)
  ultimately show ?case
    using picking_take keeps_lists_ok [OF k] keeps_sched_lists [OF k] by simp
qed

section \<open>Loops that pick\<close>

lemma placing_loop_picks:
  assumes "foldR f xs a = Inr b" and ok: "lists_ok (snd (g a))" and xs: "set xs \<subseteq> sched_lists (snd (g a))"
    and step: "\<And>x a b. x \<in> sched_lists (snd (g a)) \<Longrightarrow> f x a = Inr b \<Longrightarrow> picking E (g a) (g b)"
  shows "picking E (g a) (g b)"
proof (rule foldR_invariant [OF assms(1), where P = "\<lambda>c. picking E (g a) (g c)"])
  show "picking E (g a) (g a)"
    by (rule picking_done)
  fix x c d
  assume x: "x \<in> set xs" and c: "picking E (g a) (g c)" and run: "f x c = Inr d"
  have "x \<in> sched_lists (snd (g c))"
    using x xs keeps_sched_lists [OF picking_keeps [OF c ok]] by blast
  from step [OF this run] show "picking E (g a) (g d)"
    by (rule picking_trans [OF c])
qed

lemma fill_step_picks: "p \<in> sched_lists (snd a) \<Longrightarrow> fill_step E p a = Inr b \<Longrightarrow> picking E a b"
  by (cases a; cases b) (auto simp: fill_step_def split: if_splits intro: picking_done picking_place)

lemma fill_rest_cores_picks:
  assumes "fill_rest_cores E (c, s) = Inr b" and "lists_ok s"
  shows "picking E (c, s) b"
  using placing_loop_picks [of "fill_step E" "progs_all (sch s)" "(c, s)" b "\<lambda>a. a"] assms fill_step_picks
  by (simp add: fill_rest_cores_def sched_lists_def)

text \<open>The loop that fills the cores in the order of the list takes a prefix of it, and takes all of
  it unless all cores are given away.\<close>

lemma place_spec:
  assumes "place E p (c, s) = Inr (c', t)"
  shows "progs_sch (sch t) = removeAll p (progs_sch (sch s)) @ [p]" and "c' = c + needs s p"
    and "needs t = needs s"
proof -
  have run: "take_cores E p (c, move2sch p s) = Inr (c', t)"
    using assms by (auto simp: place_def bindR_eq_Inr)
  show "progs_sch (sch t) = removeAll p (progs_sch (sch s)) @ [p]"
    using take_cores_still [OF run] by (simp add: still_def)
  show "c' = c + needs s p" "needs t = needs s"
    using take_cores_spec(3,4) [OF run] by (simp_all add: fun_eq_iff)
qed

lemma fill_full: "foldR (fill_step E) xs (MAX_CORES, s) = Inr (MAX_CORES, s)"
  by (induction xs) (simp_all add: fill_step_def)

lemma fill_prefix:
  "foldR (fill_step E) xs (c, s) = Inr (c', t) \<Longrightarrow> progs_all (sch s) = xs \<Longrightarrow> distinct (progs_sch (sch s) @ xs) \<Longrightarrow>
    \<exists>k \<le> length xs. progs_sch (sch t) = progs_sch (sch s) @ take k xs \<and> progs_all (sch t) = drop k xs
      \<and> c' = c + sum_list (map (needs s) (take k xs)) \<and> (k < length xs \<longrightarrow> c' = MAX_CORES)"
proof (induction xs arbitrary: c s)
  case Nil
  then show ?case by simp
next
  case (Cons x xs)
  show ?case
  proof (cases "c = MAX_CORES")
    case True
    have "foldR (fill_step E) (x # xs) (c, s) = Inr (c, s)"
      unfolding True by (rule fill_full)
    with Cons.prems True show ?thesis
      by (intro exI [of _ 0]) simp
  next
    case False
    with Cons.prems(1) obtain d u where u: "place E x (c, s) = Inr (d, u)"
        "foldR (fill_step E) xs (d, u) = Inr (c', t)"
      by (auto simp: fill_step_def [of E x] bindR_eq_Inr)
    note spec = place_spec [OF u(1)]
    have lists: "progs_all (sch u) = xs" "progs_sch (sch u) = progs_sch (sch s) @ [x]"
      using place_shrinks [OF u(1)] spec(1) Cons.prems(2,3) by (simp_all add: removeAll_id)
    obtain k where k: "k \<le> length xs" "progs_sch (sch t) = progs_sch (sch u) @ take k xs" "progs_all (sch t) = drop k xs"
        "c' = d + sum_list (map (needs u) (take k xs))" "k < length xs \<longrightarrow> c' = MAX_CORES"
      using Cons.IH [OF u(2) lists(1)] lists(2) Cons.prems(3) by auto
    show ?thesis
      using k lists spec by (intro exI [of _ "Suc k"]) simp
  qed
qed

text \<open>Being picked changes nothing in the data of a program but where it runs.\<close>

definition data_of :: "sys \<Rightarrow> u64 \<Rightarrow> prog_data option" where
  "data_of s p = (case get_pd s p of Inr pd \<Rightarrow> Some (pd\<lparr>pd_cpu := 0\<rparr>) | Inl _ \<Rightarrow> None)"

lemma data_of_map: "data_of s p = (case progs s p of None \<Rightarrow> None
    | Some prog \<Rightarrow> map_option (\<lambda>pd. pd\<lparr>pd_cpu := 0\<rparr>) (sched_data prog))"
  by (simp add: data_of_def get_pd_def get_prog_def split: option.splits)

lemma place_data: "place E p (c, s) = Inr (c', t) \<Longrightarrow> data_of t = data_of s"
proof -
  assume "place E p (c, s) = Inr (c', t)"
  then have "assign_cores E c p (move2sch p s) = Inr t"
    by (auto simp: place_def take_cores_def bindR_eq_Inr)
  from assign_cores_spec [OF this] obtain prog pd bm k where a: "progs (move2sch p s) p = Some prog"
      "sched_data prog = Some pd"
      "progs t = (progs (move2sch p s))(p \<mapsto> prog\<lparr>cpuset := bm,
        prog_shm := aff_shm_set_cpus_assigned (prog_shm prog) (of_nat (length bm)),
        sched_data := Some (pd\<lparr>pd_cpu := k\<rparr>)\<rparr>)"
    by blast
  moreover have "progs (move2sch p s) = progs s"
    by (simp add: move2sch_def add_sch_def upd_sch_def unlink_def)
  ultimately show ?thesis
    by (auto simp: fun_eq_iff data_of_map)
qed

lemma get_value_data: "data_of s = data_of t \<Longrightarrow> get_value s = get_value t"
proof
  fix p assume "data_of s = data_of t"
  then have "data_of s p = data_of t p" by simp
  then show "get_value s p = get_value t p"
    by (auto simp: get_value_def data_of_def dest: arg_cong [where f = pd_ratio] split: sum.splits)
qed

lemma fill_left_picks:
  assumes run: "fill_left E f c s = Inr t" and ok: "lists_ok s"
    and chosen: "f c s = Inr t \<Longrightarrow> \<exists>c'. picking E (c, s) (c', t)"
  shows "\<exists>c'. picking E (c, s) (c', t)"
proof -
  let ?rest = "c \<noteq> MAX_CORES \<and> progs_all (sch s) \<noteq> []"
  consider "\<not> ?rest" | "?rest" "progs_nr (sch s) \<le> MAX_CORES" | "?rest" "\<not> progs_nr (sch s) \<le> MAX_CORES"
    by blast
  then show ?thesis
  proof cases
    case 1
    then have "t = s"
      using run by (auto simp: fill_left_def)
    then show ?thesis
      using picking_done by blast
  next
    case 2
    then obtain c' where "fill_rest_cores E (c, s) = Inr (c', t)"
      using run by (auto simp: fill_left_def bindR_eq_Inr)
    then show ?thesis
      using fill_rest_cores_picks [OF _ ok] by blast
  next
    case 3
    then show ?thesis
      using run chosen by (simp add: fill_left_def)
  qed
qed

lemma sort_all_sorts:
  assumes "sort_all s = Inr t"
  shows "t = upd_sch (\<lambda>sc. sc\<lparr>progs_all := qsrt_list (get_value s) ASC (progs_all sc)\<rparr>) s"
proof (cases "length (progs_all (sch s)) < 2")
  case True
  then have "t = s" "qsrt_list (get_value s) ASC (progs_all (sch s)) = progs_all (sch s)"
    using assms by (simp_all add: sort_all_def qsrt_list.simps)
  then show ?thesis
    by (simp add: upd_sch_def)
next
  case False
  then obtain u where u: "foldR check_data (progs_all (sch s)) s = Inr u"
      "t = upd_sch (\<lambda>sc. sc\<lparr>progs_all := qsrt_list (get_value u) ASC (progs_all sc)\<rparr>) u"
    using assms by (auto simp: sort_all_def res_simps)
  have "u = s"
    using foldR_invariant [OF u(1), where P = "\<lambda>v. v = s"] by (auto simp: check_data_def res_simps)
  with u(2) show ?thesis by simp
qed

lemma sort_all_quiet:
  assumes "sort_all s = Inr t"
  shows "quiet s t"
  unfolding sort_all_sorts [OF assms]
  by (simp add: quiet_def keeps_pool_def quantum_frame_def upd_sch_def pool_def seat_def needs_def fun_eq_iff)

text \<open>Sorting, a pass over the list with a budget, and filling what is left.\<close>

lemma two_pass_picks:
  assumes run: "bindR (sort_all s) (\<lambda>s. bindR (foldR f (progs_all (sch s)) (b0, 0, s)) g) = Inr t"
    and ok: "lists_ok s"
    and step: "\<And>p a b. p \<in> sched_lists (snd (snd a)) \<Longrightarrow> f p a = Inr b \<Longrightarrow> picking E (snd a) (snd b)"
    and rest: "\<And>b c u. g (b, c, u) = Inr t \<Longrightarrow> lists_ok u \<Longrightarrow> \<exists>c'. picking E (c, u) (c', t)"
  shows "\<exists>c. picking E (0, s) (c, t)"
proof -
  obtain u b c v where u: "sort_all s = Inr u"
      "foldR f (progs_all (sch u)) (b0, 0, u) = Inr (b, c, v)" "g (b, c, v) = Inr t"
    using run unfolding bindR_eq_Inr by (metis prod_cases3)
  have su: "quiet s u"
    by (rule sort_all_quiet [OF u(1)])
  then have ok': "lists_ok u"
    using ok keeps_lists_ok by (auto simp: quiet_def)
  have "picking E (0, u) (c, v)"
    using placing_loop_picks [OF u(2), of snd E] ok' step by (auto simp: sched_lists_def)
  then have sv: "picking E (0, s) (c, v)"
    by (rule picking_quiet [OF su])
  then obtain c' where "picking E (c, v) (c', t)"
    using rest [OF u(3)] keeps_lists_ok [OF picking_keeps [OF sv]] ok by auto
  with sv show ?thesis
    using picking_trans by blast
qed

end
