(* ===== verification/Quantum.thy ===== *)
theory Quantum
  imports Placement
begin

text \<open>
  What a quantum leaves alone (\<open>policy_qexpired\<close>): the contract \<open>sched_policy\<close> for the part of a
  policy that picks programs, and the proof that every policy that keeps it is a
  \<open>quantum_policy\<close>, the contract of the executor.
\<close>

section \<open>Running, stopping, killing\<close>

context frame_relation
begin

lemma framed_via: "R s t \<Longrightarrow> framed R t r \<Longrightarrow> framed R s r"
  by (auto simp: framed_def intro: R_trans)

lemma framed_thaw [frame_rules]: "framed R s (thaw_sched E s)"
  unfolding thaw_sched_def thaw_prog_def by (intro frame_rules framed_foldR)

lemma framed_freeze_prog [frame_rules]: "framed R s (freeze_prog E p s)"
  unfolding freeze_prog_def by (intro frame_rules)

lemma framed_measure [frame_rules]: "framed R s (measure_prog E p s)"
  unfolding measure_prog_def by (intro frame_rules)

lemma framed_wait_prog [frame_rules]: "framed R s (wait_prog P E unh p s)"
  unfolding wait_prog_def by (intro frame_rules)

end

lemma kill_app_frame:
  assumes "p \<notin> set (pnew_l s) \<union> set (pfinished_l s)"
  shows "framed quantum_frame s (kill_app E p s)"
proof -
  have end_all: "framed quantum_frame t (bindR (sched_print_totals E t) sched_finalization)" for t
    by (intro frame_rules)
  have rest: "framed quantum_frame t (bindR (sched_update_totals E p t) (\<lambda>s.
     bindR (get_prog s p) (\<lambda>prog.
     bindR (sched_clear_prog E p s) (\<lambda>s.
     let s = upd_sch (\<lambda>sc. sc\<lparr>progs_left := progs_left sc - 1, progs_fnsh := progs_fnsh sc + 1,
                             progs_nr := progs_nr sc - 1\<rparr>) (act (SendKill (prog_pid prog)) s)
     in if progs_left (sch s) \<le> 0
        then bindR (sched_print_totals E s) sched_finalization
        else Inr s))))" for t
  proof (intro shrink.framed_bind shrink.framed_get_prog frame_rules)
    fix t' prog u
    have "still u (upd_sch (\<lambda>sc. sc\<lparr>progs_left := progs_left sc - 1, progs_fnsh := progs_fnsh sc + 1,
                             progs_nr := progs_nr sc - 1\<rparr>) (act (SendKill (prog_pid prog)) u))" (is "still u ?v")
      by (rule still_trans [OF still_fields(5) still_sch]) simp_all
    then show "framed quantum_frame u (let s = ?v in if progs_left (sch s) \<le> 0
        then bindR (sched_print_totals E s) sched_finalization else Inr s)"
      unfolding Let_def by (rule shrink.framed_from) (intro frame_rules end_all)
  qed
  let ?s = "s\<lparr>tod_n := Suc (tod_n s)\<rparr>"
  have un: "quantum_frame ?s (unlink p ?s)"
    using assms by (intro unlink_frame) simp
  note work = shrink.framed_via [OF un shrink.framed_bind [OF shrink.framed_upd_pd rest]]
  show ?thesis
    unfolding kill_app_def with_tod_simp
    by (rule shrink.framed_from [OF still_fields(4)], rule shrink.framed_get_pd, rule work)
qed

lemma settle_prog_frame:
  assumes "p \<notin> set (pnew_l s) \<union> set (pfinished_l s)"
  shows "framed quantum_frame s (settle_prog P E p s)"
  unfolding settle_prog_def
proof (intro frame_rules)
  fix t u left
  assume "quantum_frame s t" "quantum_frame t u"
  then show "framed quantum_frame u (kill_app E p u)"
    using assms by (intro kill_app_frame) (auto simp: quantum_frame_def quantum_frame_def)
qed

lemma account_prog_frame:
  assumes "p \<notin> set (pnew_l s) \<union> set (pfinished_l s)" and "account_prog P E p (unh, s) = Inr (unh', t)"
  shows "quantum_frame s t"
proof -
  obtain u where u: "account_measures E p s = Inr u" "settle_prog P E p u = Inr t"
    using assms(2) by (auto simp: account_prog_def res_simps)
  have "framed still s (account_measures E p s)"
    unfolding account_measures_def by (intro frame_rules)
  with u(1) have su: "still s u"
    by (rule framedD [rotated])
  then have "framed quantum_frame u (settle_prog P E p u)"
    using assms(1) by (intro settle_prog_frame) (simp add: still_def quantum_frame_def)
  with u(2) su show ?thesis
    using shrink.R_still shrink.R_trans framedD by blast
qed

lemma move_progs_to_all_keeps:
  assumes "lists_ok s"
  shows "keeps_pool s (move_progs_to_all s)"
proof -
  have "keeps_pool s (fold move2all xs t)" if "keeps_pool s t" "set xs \<subseteq> sched_lists s" for xs t
    using that
  proof (induction xs arbitrary: t)
    case Nil
    then show ?case by simp
  next
    case (Cons x xs)
    have "keeps_pool t (move2all x t)"
      using Cons.prems assms by (intro move_keeps) (auto simp: keeps_sched_lists dest: keeps_lists_ok)
    from Cons.IH [OF keep.R_trans [OF Cons.prems(1) this]] Cons.prems(2) show ?case
      by simp
  qed
  from this [OF keep.R_still [OF still_fields(1)]] show ?thesis
    by (simp add: move_progs_to_all_def sched_lists_def)
qed

lemma account_loop_frame:
  assumes "lists_ok s" and "foldR (account_prog P E) (progs_sch (sch s)) (unh, s) = Inr (unh', t)"
  shows "quantum_frame s t"
proof (rule shrink.framed_foldR_pair [OF assms(2)])
  fix x a u b v
  assume x: "x \<in> set (progs_sch (sch s))" and u: "quantum_frame s u" and run: "account_prog P E x (a, u) = Inr (b, v)"
  have "x \<notin> set (pnew_l s) \<union> set (pfinished_l s)"
    using x assms(1) by (auto simp: lists_ok_def sched_lists_def)
  with u have "x \<notin> set (pnew_l u) \<union> set (pfinished_l u)"
    by (simp add: quantum_frame_def quantum_frame_def)
  from account_prog_frame [OF this run] show "quantum_frame u v" .
qed

lemma freeze_sched_frame:
  assumes ok: "lists_ok s" and run: "freeze_sched P E s = Inr t"
  shows "quantum_frame s t"
proof -
  obtain s1 unh s2 s3 s4 where s1: "stop_quantum E s = Inr s1"
    and s2: "foldR (account_prog P E) (progs_sch (sch s1)) (0, s1) = Inr (unh, s2)"
    and s3: "with_files (move_progs_to_all s2) = Inr s3"
    and s4: "foldR (wait_prog P E unh) (progs_all (sch s3)) s3 = Inr s4" and t: "t = close_window P s4"
    using run by (auto simp: freeze_sched_def res_simps split: prod.splits)
  have "framed still s (stop_quantum E s)"
    unfolding stop_quantum_def by (intro frame_rules stay.framed_foldR)
  with s1 have "quantum_frame s s1"
    using shrink.R_still framedD by blast
  moreover from this have "quantum_frame s1 s2"
    using s2 ok by (intro account_loop_frame) (auto intro: quantum_frame_lists)
  ultimately have a: "quantum_frame s s2"
    by (rule shrink.R_trans)
  have "keeps_pool s2 (move_progs_to_all s2)"
    using quantum_frame_lists [OF a ok] by (rule move_progs_to_all_keeps)
  then have b: "quantum_frame s2 (move_progs_to_all s2)"
    by (rule keeps_frame)
  have c: "quantum_frame (move_progs_to_all s2) s3"
    by (rule framedD [OF shrink.framed_with_files s3])
  have d: "quantum_frame s3 s4"
    using s4 by (rule framedD [rotated]) (intro shrink.framed_foldR frame_rules)
  have e: "quantum_frame s4 t"
    unfolding t close_window_def using shrink.R_still still_fields(1) still_sch by simp
  show ?thesis
    using shrink.R_trans [OF a shrink.R_trans [OF b shrink.R_trans [OF c shrink.R_trans [OF d e]]]] .
qed

section \<open>The contract of a policy\<close>

text \<open>The programs for a quantum are picked one after the other, from the first core on. A policy
  that does so keeps every program, gives no core to two programs, and makes a quantum that
  keeps the contract of the executor.\<close>

lemma monitor_picks:
  assumes "monitor E s = Inr t" and "0 \<le> monitor_wnd (sch s)"
  shows "\<exists>c c'. 0 \<le> c \<and> picking E (c, s) (c', t)"
proof -
  let ?c = "monitor_wnd (sch s) smod MAX_CORES"
  obtain p ps n u where p: "progs_all (sch s) = p # ps" "place E p (?c, s) = Inr (n, u)"
      "t = upd_sch (\<lambda>sc. sc\<lparr>monitor_wnd := monitor_wnd sc + 1\<rparr>) u"
    using assms(1) by (auto simp: monitor_def res_simps split: list.splits)
  have "picking E (?c, s) (n, u)"
    by (rule picking_place [OF _ p(2)]) (simp add: p(1) sched_lists_def)
  moreover have "quiet u t"
    unfolding p(3) by (simp add: quiet_def keep.R_still still_sch) (simp add: upd_sch_def seat_def needs_def fun_eq_iff)
  ultimately have "picking E (?c, s) (n, t)"
    using picking_trans picking_only_quiet by blast
  moreover have "0 \<le> ?c"
    using assms(2) by (simp add: MAX_CORES_def signed_modulo_int_def sgn_if)
  ultimately show ?thesis by blast
qed

lemma monitor_keeps:
  assumes "monitor E s = Inr t" and "lists_ok s"
  shows "keeps_pool s t"
proof -
  obtain p ps n u where p: "progs_all (sch s) = p # ps"
      "place E p (monitor_wnd (sch s) smod MAX_CORES, s) = Inr (n, u)"
      "t = upd_sch (\<lambda>sc. sc\<lparr>monitor_wnd := monitor_wnd sc + 1\<rparr>) u"
    using assms(1) by (auto simp: monitor_def res_simps split: list.splits)
  have "keeps_pool s u"
    using p(1) by (intro place_keeps [OF assms(2) _ p(2)]) (simp add: sched_lists_def)
  moreover have "keeps_pool u t"
    unfolding p(3) by (rule keep.R_still [OF still_sch]) simp_all
  ultimately show ?thesis
    by (rule keep.R_trans)
qed

locale sched_policy =
  fixes P :: policy
  assumes pick_law: "lists_ok s \<Longrightarrow> pol_pick P E s = Inr t \<Longrightarrow> \<exists>c. picking E (0, s) (c, t)"
begin

lemma pick_keeps: "lists_ok s \<Longrightarrow> pol_pick P E s = Inr t \<Longrightarrow> keeps_pool s t"
  using pick_law picking_keeps by fastforce

lemma schedule_keeps:
  assumes "lists_ok s" and "schedule P E s = Inr t"
  shows "keeps_pool s t"
proof (cases "monitoring_phase s")
  case True
  then show ?thesis
    using assms monitor_keeps by (simp add: schedule_def)
next
  case False
  then show ?thesis
    using assms pick_keeps by (auto simp: schedule_def with_files_def res_simps)
qed

text \<open>When the quantum starts with no program on a core, no two programs of it share one.\<close>

lemma schedule_apart:
  assumes ok: "lists_ok s" and run: "schedule P E s = Inr t" and empty: "progs_sch (sch s) = []"
    and "distinct (exec_cpus s)" and "0 \<le> monitor_wnd (sch s)" and "\<forall>p \<in> sched_lists s. 0 \<le> needs s p"
    and pq: "p \<in> set (progs_sch (sch t))" "q \<in> set (progs_sch (sch t))" "p \<noteq> q"
  shows "seat t p \<inter> seat t q = {}"
proof -
  have "\<exists>c c'. 0 \<le> c \<and> picking E (c, s) (c', t)"
  proof (cases "monitoring_phase s")
    case True
    then show ?thesis
      using monitor_picks run assms(5) by (simp add: schedule_def)
  next
    case False
    then show ?thesis
      using pick_law [OF ok] run by (auto simp: schedule_def with_files_def res_simps)
  qed
  then obtain c c' where c: "0 \<le> c" "picking E (c, s) (c', t)"
    by blast
  have "seated (c', t)"
    by (rule picking_seated [OF c(2)]) (use assms(1,3,4,6) c(1) in \<open>simp_all add: seated_def\<close>)
  then show ?thesis
    using pq by (simp add: seated_def)
qed

lemma quantum_work_frame:
  assumes ok: "lists_ok s" and run: "quantum_work P E s = Inr t"
  shows "quantum_frame s t"
proof -
  have time: "still u (read_time P E u)" for u
    by (simp add: read_time_def gettimeofday_def still_fields)
  let ?s = "upd_sch (\<lambda>sc. sc\<lparr>total_tics := total_tics sc + 1\<rparr>) (s\<lparr>total_quantums := total_quantums s + 1\<rparr>)"
  obtain s1 s2 where r: "freeze_sched P E ?s = Inr s1" "schedule P E (read_time P E s1) = Inr s2"
      "thaw_sched E (read_time P E s2) = Inr t"
    using run by (auto simp: quantum_work_def res_simps)
  have "still s ?s"
    by (rule still_trans [OF still_fields(6) still_sch]) simp_all
  then have a: "quantum_frame s ?s"
    by (rule shrink.R_still)
  note b = shrink.R_trans [OF a freeze_sched_frame [OF quantum_frame_lists [OF a ok] r(1)]]
  note c = shrink.R_trans [OF b shrink.R_still [OF time]]
  note d = shrink.R_trans [OF c keeps_frame [OF schedule_keeps [OF quantum_frame_lists [OF c ok] r(2)]]]
  note e = shrink.R_trans [OF d shrink.R_still [OF time]]
  show ?thesis
    by (rule shrink.R_trans [OF e framedD [OF shrink.framed_thaw r(3)]])
qed

lemma qexpired_law:
  assumes "lists_ok s" and "policy_qexpired P E now s = Inr t"
  shows "\<exists>u. quantum_frame s u \<and> push_event E qt_event (set_qt_event (timeradd qt now) u) = Inr t"
  using assms quantum_work_frame by (auto simp: policy_qexpired_def res_simps)

end

text \<open>The policy as the executor sees it.\<close>

definition policy_scheduler :: "string \<Rightarrow> policy \<Rightarrow> aff_scheduler" where
  "policy_scheduler nm P = \<lparr>sched_name = nm, sched_init = policy_init, rebalance = policy_rebalance P,
     qexpired = Some (policy_qexpired P), prog_changed = None\<rparr>"

sublocale sched_policy \<subseteq> quantum: quantum_policy "policy_scheduler nm P" "policy_qexpired P" for nm
  by unfold_locales (simp_all add: policy_scheduler_def qexpired_law)

end
