(* ===== verification/Loop.thy ===== *)
theory Loop
  imports Quantum
begin

text \<open>
  The main loop of the executor: what holds of the event heap, the lists of programs, the table of
  running programs and the counter of waiting programs whenever the loop comes round
  (\<open>loop_ok\<close>), that every step of the executor and of a policy keeps it, the contract of a whole
  policy for that (locale \<open>executor_policy\<close>), and the states that the executor reaches.
\<close>

section \<open>The invariant\<close>

text \<open>The programs whose arrival is in the heap.\<close>

definition arriving :: "sys \<Rightarrow> u64 set" where
  "arriving s = ev_prog_of s ` (set_mset (queue s) - {qt_event})"

text \<open>Addresses that have been handed out.\<close>

definition in_use :: "sys \<Rightarrow> u64 set" where
  "in_use s = dom (events s) \<union> dom (progs s) \<union> ran (hash_map (prog_pid_hash s)) \<union> set (pnew_l s)
     \<union> set (pfinished_l s) \<union> sched_lists s"

definition loop_ok :: "sys \<Rightarrow> bool" where
  "loop_ok s \<longleftrightarrow> selection_ok s \<and> inj_on (ev_prog_of s) (set_mset (queue s) - {qt_event})
     \<and> arriving s \<inter> (set (pnew_l s) \<union> set (pfinished_l s) \<union> ran (hash_map (prog_pid_hash s))) = {}
     \<and> hash_wf (prog_pid_hash s) \<and> qt_event < next_addr s \<and> (\<forall>a \<in> in_use s. a < next_addr s)
     \<and> waiting_nr s = int (size (filter_mset (\<lambda>e. e \<noteq> qt_event) (queue s)))
     \<and> tv_norm (tv0 s) \<and> \<not> reset_qt s"

text \<open>A program that the executor has started and that has arrived: what the steps below are applied
  to. Once a program is known it stays known.\<close>

definition known :: "sys \<Rightarrow> u64 \<Rightarrow> bool" where
  "known s p \<longleftrightarrow> p < next_addr s \<and> p \<notin> arriving s"

definition evolves :: "sys \<Rightarrow> sys \<Rightarrow> bool" where
  "evolves s t \<longleftrightarrow> (loop_ok s \<longrightarrow> loop_ok t \<and> (\<forall>p. known s p \<longrightarrow> known t p)
     \<and> (qt_event \<in># queue t \<longleftrightarrow> qt_event \<in># queue s))"

lemma evolves_trans: "evolves s t \<Longrightarrow> evolves t u \<Longrightarrow> evolves s u"
  by (auto simp: evolves_def)

lemma loop_selection: "loop_ok s \<Longrightarrow> selection_ok s"
  by (simp add: loop_ok_def)

lemma loop_lists: "loop_ok s \<Longrightarrow> lists_ok s"
  by (simp add: loop_ok_def selection_ok_def)

lemma arriving_event_ok:
  assumes "selection_ok s"
  shows "arriving s \<subseteq> dom (progs s) - sched_lists s"
proof
  fix p assume "p \<in> arriving s"
  then obtain e where e: "e \<in># queue s" "e \<noteq> qt_event" "p = ev_prog_of s e"
    by (auto simp: arriving_def)
  then have "arrival s e"
    using assms by (auto simp: selection_ok_def event_ok_def split: if_splits)
  then show "p \<in> dom (progs s) - sched_lists s"
    by (auto simp: arrival_def e(3) ev_prog_of_def)
qed

lemma loop_arrival:
  assumes "loop_ok s" and "e \<in># queue s" and "e \<noteq> qt_event"
  shows "\<exists>ev. events s e = Some ev \<and> kind ev = EVNT_NEWPROG
    \<and> ev_prog ev \<in> dom (progs s) - set (pnew_l s) - set (pfinished_l s) - sched_lists s"
proof -
  have "arrival s e"
    using assms by (auto simp: loop_ok_def selection_ok_def event_ok_def split: if_splits)
  then obtain ev where ev: "events s e = Some ev" "kind ev = EVNT_NEWPROG" "ev_prog ev \<in> dom (progs s) - sched_lists s"
    by (auto simp: arrival_def)
  have "ev_prog_of s e \<in> arriving s"
    using assms(2,3) by (auto simp: arriving_def)
  then have "ev_prog ev \<in> arriving s"
    by (simp add: ev_prog_of_def ev(1))
  with assms(1) have "ev_prog ev \<notin> set (pnew_l s) \<union> set (pfinished_l s)"
    by (auto simp: loop_ok_def)
  with ev show ?thesis by blast
qed

lemma known_lists:
  assumes "loop_ok s" and "p \<in> set (pnew_l s) \<union> set (pfinished_l s) \<union> sched_lists s \<union> ran (hash_map (prog_pid_hash s))"
  shows "known s p"
proof -
  have "arriving s \<inter> sched_lists s = {}"
    using arriving_event_ok [OF loop_selection [OF assms(1)]] by auto
  with assms show ?thesis
    unfolding known_def loop_ok_def in_use_def by blast
qed

section \<open>Steps that keep it\<close>

lemma ran_map_le: "m \<subseteq>\<^sub>m m' \<Longrightarrow> ran m \<subseteq> ran m'"
  by (force simp: ran_def map_le_def dom_def)

text \<open>A step that leaves the event heap alone keeps the invariant when it adds to the lists and to the
  table known programs only.\<close>

lemma evolves_quiet:
  assumes ev: "events t = events s" "events_heap t = events_heap s" "waiting_nr t = waiting_nr s"
      "tv0 t = tv0 s" "reset_qt t = reset_qt s" "next_addr t = next_addr s"
    and pr: "dom (progs t) \<subseteq> dom (progs s)" "\<And>p. p \<in> arriving s \<Longrightarrow> p \<in> dom (progs s) \<Longrightarrow> p \<in> dom (progs t)"
    and hash: "hash_wf (prog_pid_hash s) \<Longrightarrow> hash_wf (prog_pid_hash t)"
    and ls: "lists_ok s \<Longrightarrow> lists_ok t"
    and new: "\<And>p. loop_ok s \<Longrightarrow> p \<in> set (pnew_l t) \<union> set (pfinished_l t) \<union> sched_lists t
        \<union> ran (hash_map (prog_pid_hash t)) \<Longrightarrow> known s p"
  shows "evolves s t"
  unfolding evolves_def
proof (intro impI conjI allI)
  assume ok: "loop_ok s"
  have q: "queue t = queue s" "ev_prog_of t = ev_prog_of s"
    using ev(1,2) by (simp_all add: fun_eq_iff ev_prog_of_def)
  then have arr: "arriving t = arriving s"
    by (simp add: arriving_def)
  note sel = loop_selection [OF ok]
  have "event_heap t = event_heap s"
    using ev(1,2) by (simp add: event_heap_def)
  then have "queue_ok t"
    using sel ev(1) q(1) by (simp add: selection_ok_def queue_ok_def)
  moreover have "event_ok t e" if "e \<in># queue t" for e
  proof (cases "e = qt_event")
    case True
    then show ?thesis
      using sel that q(1) ev(1) by (auto simp: selection_ok_def event_ok_def)
  next
    case False
    with sel that q(1) have a: "arrival s e"
      by (auto simp: selection_ok_def event_ok_def split: if_splits)
    then obtain x where x: "events s e = Some x" "kind x = EVNT_NEWPROG" "ev_prog x \<in> dom (progs s)"
      by (auto simp: arrival_def)
    have in_arr: "ev_prog x \<in> arriving s"
      unfolding arriving_def using that q(1) False x(1) by (intro image_eqI [of _ _ e]) (auto simp: ev_prog_of_def)
    then have "ev_prog x \<notin> sched_lists t"
      using new [OF ok] by (auto simp: known_def)
    with pr(2) [OF in_arr x(3)] x False ev(1) show ?thesis
      by (simp add: event_ok_def arrival_def)
  qed
  ultimately have sel_t: "selection_ok t"
    using sel ls q(1) by (simp add: selection_ok_def)
  have "\<forall>a \<in> in_use t. a < next_addr t"
    using ok pr(1) new [OF ok] ev(1,6) by (fastforce simp: in_use_def loop_ok_def known_def)
  moreover have "arriving t \<inter> (set (pnew_l t) \<union> set (pfinished_l t) \<union> ran (hash_map (prog_pid_hash t))) = {}"
    using new [OF ok] arr by (auto simp: known_def)
  ultimately show "loop_ok t"
    using ok sel_t q ev hash unfolding loop_ok_def by simp
  show "known t p" if "known s p" for p
    using that arr ev(6) by (simp add: known_def)
  show "(qt_event \<in># queue t) = (qt_event \<in># queue s)"
    by (simp add: q(1))
qed

lemma evolves_frame:
  assumes st: "quantum_frame s t"
  shows "evolves s t"
proof (rule evolves_quiet)
  show "events t = events s" "events_heap t = events_heap s" "waiting_nr t = waiting_nr s"
      "tv0 t = tv0 s" "reset_qt t = reset_qt s" "next_addr t = next_addr s" "dom (progs t) \<subseteq> dom (progs s)"
    using st by (simp_all add: quantum_frame_def)
  show "p \<in> dom (progs t)" if "p \<in> dom (progs s)" for p
    using that st by (auto simp: quantum_frame_def)
  show "hash_wf (prog_pid_hash s) \<Longrightarrow> hash_wf (prog_pid_hash t)"
    using st by (simp add: quantum_frame_def hash_shrinks_def)
  show "lists_ok s \<Longrightarrow> lists_ok t"
    by (rule quantum_frame_lists [OF st])
  show "known s p" if ok: "loop_ok s" and "p \<in> set (pnew_l t) \<union> set (pfinished_l t) \<union> sched_lists t
        \<union> ran (hash_map (prog_pid_hash t))" for p
  proof (rule known_lists [OF ok])
    have "hash_map (prog_pid_hash t) \<subseteq>\<^sub>m hash_map (prog_pid_hash s)"
      using st ok by (simp add: quantum_frame_def hash_shrinks_def loop_ok_def)
    then have "ran (hash_map (prog_pid_hash t)) \<subseteq> ran (hash_map (prog_pid_hash s))"
      by (rule ran_map_le)
    with that quantum_frame_sched_lists [OF st] st
    show "p \<in> set (pnew_l s) \<union> set (pfinished_l s) \<union> sched_lists s \<union> ran (hash_map (prog_pid_hash s))"
      by (auto simp: quantum_frame_def)
  qed
qed

interpretation evolve: frame_relation evolves
  by unfold_locales (auto simp: still_def intro: evolves_trans evolves_frame)

lemma unlink_evolves: "evolves s (unlink p s)"
proof (rule evolves_quiet)
  show "lists_ok (unlink p s)" if "lists_ok s"
    using that by (auto simp: lists_ok_def unlink_def sched_lists_def distinct_removeAll)
  show "known s q" if ok: "loop_ok s" and "q \<in> set (pnew_l (unlink p s)) \<union> set (pfinished_l (unlink p s))
      \<union> sched_lists (unlink p s) \<union> ran (hash_map (prog_pid_hash (unlink p s)))" for q
    by (rule known_lists [OF ok]) (use that in \<open>auto simp: unlink_def sched_lists_def\<close>)
qed (simp_all add: unlink_def)

lemma sched_lists_move: "sched_lists (move2all p s) = insert p (sched_lists (unlink p s))"
  by (auto simp: move2all_def sched_lists_def upd_sch_def)

lemma move2all_evolves:
  assumes "known s p"
  shows "evolves s (move2all p s)"
proof (rule evolves_quiet)
  show "lists_ok (move2all p s)" if "lists_ok s"
    using that by (auto simp: lists_ok_def move2all_def unlink_def upd_sch_def sched_lists_def distinct_removeAll)
  show "known s q" if ok: "loop_ok s" and q: "q \<in> set (pnew_l (move2all p s)) \<union> set (pfinished_l (move2all p s))
      \<union> sched_lists (move2all p s) \<union> ran (hash_map (prog_pid_hash (move2all p s)))" for q
  proof (cases "q = p")
    case True
    with assms show ?thesis by simp
  next
    case False
    show ?thesis
      by (rule known_lists [OF ok]) (use q False in \<open>auto simp: sched_lists_move move2all_def upd_sch_def unlink_def sched_lists_def\<close>)
  qed
qed (simp_all add: move2all_def upd_sch_def unlink_def)

text \<open>A known program ends: it is taken out of its list and put into that of the finished ones.\<close>

definition to_finished :: "u64 \<Rightarrow> sys \<Rightarrow> sys" where
  "to_finished p s = (unlink p s)\<lparr>pfinished_l := pfinished_l (unlink p s) @ [p]\<rparr>"

lemma to_finished_evolves:
  assumes "known s p"
  shows "evolves s (to_finished p s)"
proof (rule evolves_quiet)
  show "lists_ok (to_finished p s)" if "lists_ok s"
    using that by (auto simp: lists_ok_def to_finished_def unlink_def sched_lists_def distinct_removeAll)
  show "known s q" if ok: "loop_ok s" and q: "q \<in> set (pnew_l (to_finished p s)) \<union> set (pfinished_l (to_finished p s))
      \<union> sched_lists (to_finished p s) \<union> ran (hash_map (prog_pid_hash (to_finished p s)))" for q
  proof (cases "q = p")
    case True
    with assms show ?thesis by simp
  next
    case False
    show ?thesis
      by (rule known_lists [OF ok]) (use q False in \<open>auto simp: to_finished_def unlink_def sched_lists_def\<close>)
  qed
qed (simp_all add: to_finished_def unlink_def)

lemma hash_insert_evolves:
  assumes "known s p" and "hash_insert (prog_pid_hash s) k p = Inr h"
  shows "evolves s (s\<lparr>prog_pid_hash := h\<rparr>)"
proof (rule evolves_quiet)
  have ins: "hash_wf h \<and> hash_map h = (hash_map (prog_pid_hash s))(k \<mapsto> p)" if "hash_wf (prog_pid_hash s)"
    using hash_insert_map [OF that, of k p] assms(2) by auto
  show "hash_wf (prog_pid_hash s) \<Longrightarrow> hash_wf (prog_pid_hash (s\<lparr>prog_pid_hash := h\<rparr>))"
    using ins by simp
  show "lists_ok s \<Longrightarrow> lists_ok (s\<lparr>prog_pid_hash := h\<rparr>)"
    by (simp add: lists_ok_def sched_lists_def)
  show "known s q" if ok: "loop_ok s" and q: "q \<in> set (pnew_l (s\<lparr>prog_pid_hash := h\<rparr>))
      \<union> set (pfinished_l (s\<lparr>prog_pid_hash := h\<rparr>)) \<union> sched_lists (s\<lparr>prog_pid_hash := h\<rparr>)
      \<union> ran (hash_map (prog_pid_hash (s\<lparr>prog_pid_hash := h\<rparr>)))" for q
  proof (cases "q = p")
    case True
    with assms show ?thesis by simp
  next
    case False
    have "hash_map h = (hash_map (prog_pid_hash s))(k \<mapsto> p)"
      using ins ok by (simp add: loop_ok_def)
    then have "ran (hash_map h) \<subseteq> insert p (ran (hash_map (prog_pid_hash s)))"
      by (auto simp: ran_def)
    with q False show ?thesis
      by (intro known_lists [OF ok]) (auto simp: sched_lists_def)
  qed
qed simp_all

lemma dealloc_evolves:
  assumes "known s p"
  shows "evolves s (s\<lparr>progs := (progs s)(p := None)\<rparr>)"
proof (rule evolves_quiet)
  show "q \<in> dom (progs (s\<lparr>progs := (progs s)(p := None)\<rparr>))" if "q \<in> arriving s" "q \<in> dom (progs s)" for q
    using that assms by (auto simp: known_def)
  show "lists_ok s \<Longrightarrow> lists_ok (s\<lparr>progs := (progs s)(p := None)\<rparr>)"
    by (simp add: lists_ok_def sched_lists_def)
  show "known s q" if ok: "loop_ok s" and "q \<in> set (pnew_l (s\<lparr>progs := (progs s)(p := None)\<rparr>))
      \<union> set (pfinished_l (s\<lparr>progs := (progs s)(p := None)\<rparr>)) \<union> sched_lists (s\<lparr>progs := (progs s)(p := None)\<rparr>)
      \<union> ran (hash_map (prog_pid_hash (s\<lparr>progs := (progs s)(p := None)\<rparr>)))" for q
    by (rule known_lists [OF ok]) (use that in \<open>auto simp: sched_lists_def\<close>)
qed auto

section \<open>A program that is to arrive\<close>

lemma next_less: "x \<noteq> HASH_ENTRY_NOTFOUND \<Longrightarrow> x < x + 1" for x :: u64
proof -
  assume "x \<noteq> HASH_ENTRY_NOTFOUND"
  then have "x \<noteq> - 1"
    by (simp add: HASH_ENTRY_NOTFOUND_def)
  then have "1 + x \<noteq> 0"
    by (auto simp: eq_neg_iff_add_eq_0 add.commute)
  then show "x < x + 1"
    using unatSuc [of x] by (simp add: word_less_nat_alt add.commute)
qed

text \<open>What a new arrival changes: an event \<open>e\<close> that was not in use is in the heap, for a program \<open>p\<close>
  that was not in use either.\<close>

definition adds_arrival :: "sys \<Rightarrow> sys \<Rightarrow> u64 \<Rightarrow> u64 \<Rightarrow> bool" where
  "adds_arrival s t e p \<longleftrightarrow>
     (\<exists>time. events t = (events s)(e \<mapsto> \<lparr>kind = EVNT_NEWPROG, tv = time, ev_prog = p\<rparr>))
     \<and> queue t = add_mset e (queue s) \<and> queue_ok t \<and> lists_ok t \<and> dom (progs t) = insert p (dom (progs s))
     \<and> pnew_l t = pnew_l s \<and> pfinished_l t = pfinished_l s \<and> sched_lists t \<subseteq> sched_lists s
     \<and> hash_wf (prog_pid_hash t) \<and> ran (hash_map (prog_pid_hash t)) \<subseteq> ran (hash_map (prog_pid_hash s))
     \<and> waiting_nr t = waiting_nr s + 1 \<and> tv0 t = tv0 s \<and> reset_qt t = reset_qt s \<and> next_addr t = p + 1
     \<and> e = next_addr s \<and> e < p \<and> p < p + 1"

lemma fresh_addresses:
  assumes "loop_ok s" and "next_addr s < p" and "p < p + 1"
  shows "next_addr s \<notin> dom (events s)" and "next_addr s \<noteq> qt_event" and "p \<notin> in_use s" and "qt_event < p + 1"
    and "next_addr s \<notin># queue s"
proof -
  have below: "a < next_addr s" if "a \<in> in_use s" for a
    using assms(1) that by (simp add: loop_ok_def)
  have "qt_event < next_addr s"
    using assms(1) by (simp add: loop_ok_def)
  with assms(2,3) show "next_addr s \<noteq> qt_event" "qt_event < p + 1"
    by (auto dest: less_trans)
  show e: "next_addr s \<notin> dom (events s)"
    using below [of "next_addr s"] by (auto simp: in_use_def)
  show "p \<notin> in_use s"
    using below [of p] assms(2) by (auto dest: less_trans)
  show "next_addr s \<notin># queue s"
    using e loop_selection [OF assms(1)] by (auto simp: selection_ok_def queue_ok_def)
qed

text \<open>An event and a program are allocated, the program is started, and the event, now its arrival,
  is put into the heap.\<close>

lemma push_arrival:
  assumes ok: "loop_ok s" and less: "next_addr s < p" "p < p + 1" and p: "p = next_addr s + 1"
    and v: "quantum_frame (s\<lparr>events := (events s)(next_addr s \<mapsto> x), next_addr := p + 1,
        progs := (progs s)(p \<mapsto> y)\<rparr>) v"
    and w: "push_event E (next_addr s) (v\<lparr>events := (events v)(next_addr s \<mapsto>
        \<lparr>kind = EVNT_NEWPROG, tv = time, ev_prog = p\<rparr>)\<rparr>) = Inr w"
  shows "adds_arrival s (w\<lparr>waiting_nr := waiting_nr w + 1\<rparr>) (next_addr s) p"
proof -
  let ?e = "next_addr s"
  let ?v = "v\<lparr>events := (events v)(?e \<mapsto> \<lparr>kind = EVNT_NEWPROG, tv = time, ev_prog = p\<rparr>)\<rparr>"
  have v': "events v = (events s)(?e \<mapsto> x)" "events_heap v = events_heap s" "pnew_l v = pnew_l s"
      "pfinished_l v = pfinished_l s" "waiting_nr v = waiting_nr s" "tv0 v = tv0 s"
      "dom (progs v) = insert p (dom (progs s))" "next_addr v = p + 1" "reset_qt v = reset_qt s"
      "hash_shrinks (prog_pid_hash s) (prog_pid_hash v)" "sched_lists v \<subseteq> sched_lists s"
    using v quantum_frame_sched_lists [OF v] by (simp_all add: quantum_frame_def sched_lists_def)
  have queue_s: "queue_ok s" "set_mset (queue s) \<subseteq> dom (events s)"
    using loop_selection [OF ok] by (simp_all add: selection_ok_def queue_ok_def)
  have same: "events ?v z = events s z" if "z \<noteq> ?e" for z
    using that v'(1) by simp
  have "heap_inv (event_heap ?v)"
    by (rule heap_inv_events [of s])
      (use queue_s fresh_addresses(5) [OF ok less] same v'(2) in \<open>auto simp: queue_ok_def\<close>)
  then have "queue_ok ?v"
    using queue_s v'(1,2) by (auto simp: queue_ok_def)
  from push_event_spec [OF this _ w]
  have q: "queue_ok w" "queue w = add_mset ?e (queue s)" "w = ?v\<lparr>events_heap := events_heap w\<rparr>"
    using v'(2) by simp_all
  from q(3) obtain g where g: "w = ?v\<lparr>events_heap := g\<rparr>" by blast
  have "lists_ok v"
    by (rule quantum_frame_lists [OF v]) (use loop_lists [OF ok] in \<open>simp add: lists_ok_def sched_lists_def\<close>)
  moreover have "hash_wf (prog_pid_hash v)" "ran (hash_map (prog_pid_hash v)) \<subseteq> ran (hash_map (prog_pid_hash s))"
    using v'(10) ok by (simp_all add: hash_shrinks_def loop_ok_def ran_map_le)
  moreover have "queue_ok (w\<lparr>waiting_nr := waiting_nr w + 1\<rparr>)"
    using q(1) by (simp add: queue_ok_def event_heap_def)
  ultimately show ?thesis
    using g v' q(2) less by (auto simp: adds_arrival_def lists_ok_def sched_lists_def)
qed

lemma adds_new:
  assumes ok: "loop_ok s" and adds: "adds_arrival s t e p"
  shows "e \<noteq> qt_event" and "p \<notin> in_use s" and "qt_event < p + 1" and "e \<notin># queue s"
proof -
  have less: "next_addr s < p" "p < p + 1" and e: "e = next_addr s"
    using adds unfolding adds_arrival_def by blast+
  show "e \<noteq> qt_event" and "p \<notin> in_use s" and "qt_event < p + 1" and "e \<notin># queue s"
    using fresh_addresses [OF ok less] by (simp_all add: e)
qed

lemma adds_events:
  assumes adds: "adds_arrival s t e p"
  shows "ev_prog_of t e = p" and "y \<noteq> e \<Longrightarrow> events t y = events s y" and "y \<noteq> e \<Longrightarrow> ev_prog_of t y = ev_prog_of s y"
  using adds by (auto simp: adds_arrival_def ev_prog_of_def)

lemma adds_arrivals:
  assumes ok: "loop_ok s" and adds: "adds_arrival s t e p"
  shows "set_mset (queue t) - {qt_event} = insert e (set_mset (queue s) - {qt_event})"
  using adds adds_new(1) [OF ok adds] by (auto simp: adds_arrival_def)

lemma adds_arriving:
  assumes ok: "loop_ok s" and adds: "adds_arrival s t e p"
  shows "arriving t = insert p (arriving s)"
proof -
  have "ev_prog_of t ` (set_mset (queue s) - {qt_event}) = ev_prog_of s ` (set_mset (queue s) - {qt_event})"
    by (rule image_cong [OF refl], rule adds_events(3) [OF adds]) (use adds_new(4) [OF ok adds] in auto)
  then show ?thesis
    by (simp add: arriving_def adds_arrivals [OF ok adds] adds_events(1) [OF adds])
qed

lemma adds_distinct:
  assumes ok: "loop_ok s" and adds: "adds_arrival s t e p"
  shows "inj_on (ev_prog_of t) (set_mset (queue t) - {qt_event})"
proof -
  have "inj_on (ev_prog_of t) (set_mset (queue s) - {qt_event}) = inj_on (ev_prog_of s) (set_mset (queue s) - {qt_event})"
    by (rule inj_on_cong, rule adds_events(3) [OF adds]) (use adds_new(4) [OF ok adds] in auto)
  moreover have "p \<notin> arriving s"
    using arriving_event_ok [OF loop_selection [OF ok]] adds_new(2) [OF ok adds] by (auto simp: in_use_def)
  ultimately show ?thesis
    using ok adds_new(4) [OF ok adds] adds_events(1,3) [OF adds] unfolding adds_arrivals [OF ok adds]
    by (force simp: loop_ok_def arriving_def)
qed

lemma adds_event_ok:
  assumes ok: "loop_ok s" and adds: "adds_arrival s t e p" and y: "y \<in># queue t"
  shows "event_ok t y"
proof (cases "y = e")
  case True
  have "p \<notin> sched_lists t"
    using adds adds_new(2) [OF ok adds] by (auto simp: adds_arrival_def in_use_def)
  then show ?thesis
    using True adds adds_new(1) [OF ok adds] by (auto simp: event_ok_def arrival_def adds_arrival_def)
next
  case False
  have "event_ok s y"
    using y False loop_selection [OF ok] adds by (simp add: selection_ok_def adds_arrival_def)
  moreover have "arrival t y" if "arrival s y"
    using that adds adds_events(2) [OF adds False] by (auto simp: arrival_def adds_arrival_def)
  ultimately show ?thesis
    using adds_events(2) [OF adds False] by (simp add: event_ok_def split: if_splits)
qed

lemma adds_selection:
  assumes ok: "loop_ok s" and adds: "adds_arrival s t e p"
  shows "selection_ok t"
proof -
  have "count (queue t) y \<le> 1" for y
    using loop_selection [OF ok] adds adds_new(4) [OF ok adds] by (auto simp: selection_ok_def not_in_iff adds_arrival_def)
  then show ?thesis
    using adds adds_event_ok [OF ok adds] by (simp add: selection_ok_def adds_arrival_def)
qed

lemma adds_loop:
  assumes ok: "loop_ok s" and adds: "adds_arrival s t e p"
  shows "loop_ok t"
proof -
  have t: "pnew_l t = pnew_l s" "pfinished_l t = pfinished_l s" "hash_wf (prog_pid_hash t)"
      "ran (hash_map (prog_pid_hash t)) \<subseteq> ran (hash_map (prog_pid_hash s))" "next_addr t = p + 1"
      "e = next_addr s" "e < p" "p < p + 1"
    using adds unfolding adds_arrival_def by blast+
  have "in_use t \<subseteq> insert e (insert p (in_use s))"
    using adds by (auto simp: in_use_def adds_arrival_def)
  moreover have "\<forall>y \<in> in_use s. y < e"
    using ok t(6) by (simp add: loop_ok_def)
  ultimately have "\<forall>y \<in> in_use t. y < next_addr t"
    using t(5,7,8) by fastforce
  moreover have "p \<notin> set (pnew_l t) \<union> set (pfinished_l t) \<union> ran (hash_map (prog_pid_hash t))"
    using adds_new(2) [OF ok adds] t by (auto simp: in_use_def)
  moreover have "arriving s \<inter> (set (pnew_l t) \<union> set (pfinished_l t) \<union> ran (hash_map (prog_pid_hash t))) = {}"
    using ok t by (auto simp: loop_ok_def)
  moreover have "waiting_nr t = int (size (filter_mset (\<lambda>e. e \<noteq> qt_event) (queue t)))"
    using ok adds adds_new(1) [OF ok adds] by (simp add: loop_ok_def adds_arrival_def)
  ultimately show ?thesis
    unfolding loop_ok_def adds_arriving [OF ok adds] using adds_selection [OF ok adds] adds_distinct [OF ok adds] adds_new(3) [OF ok adds] ok adds
    by (auto simp: loop_ok_def adds_arrival_def)
qed

lemma adds_evolves:
  assumes ok: "loop_ok s" and adds: "adds_arrival s t e p"
  shows "evolves s t"
  unfolding evolves_def using adds_loop [OF ok adds] adds_new(1) [OF ok adds] adds adds_arriving [OF ok adds]
  by (auto simp: known_def adds_arrival_def)

lemma new_arrival:
  assumes addr: "next_addr s \<noteq> HASH_ENTRY_NOTFOUND" "next_addr s + 1 \<noteq> HASH_ENTRY_NOTFOUND"
    and v: "quantum_frame (s\<lparr>events := (events s)(next_addr s \<mapsto> x), next_addr := next_addr s + 1 + 1,
        progs := (progs s)(next_addr s + 1 \<mapsto> y)\<rparr>) v"
    and w: "push_event E (next_addr s) (v\<lparr>events := (events v)(next_addr s \<mapsto>
        \<lparr>kind = EVNT_NEWPROG, tv = time, ev_prog = next_addr s + 1\<rparr>)\<rparr>) = Inr w"
  shows "evolves s (w\<lparr>waiting_nr := waiting_nr w + 1\<rparr>)"
  unfolding evolves_def
  using adds_evolves push_arrival [OF _ next_less [OF addr(1)] next_less [OF addr(2)] refl v w]
  unfolding evolves_def by blast

lemma still_masked: "still s (s\<lparr>sigchld_blocked := b\<rparr>)"
  by (simp add: still_def quantum_frame_def pool_def)

lemma still_fork: "still s (s\<lparr>fork_n := n\<rparr>)"
  by (simp add: still_def quantum_frame_def pool_def)

context frame_relation
begin

lemma framed_sched_prog [frame_rules]: "framed R s (sched_prog E p s)"
  unfolding sched_prog_def by (intro frame_rules)

lemma framed_await [frame_rules]: "(\<And>k. framed R s (f k)) \<Longrightarrow> framed R s (bindR (await_frozen E n ident) f)"
  by (rule framed_value)

lemma framed_do_execute [frame_rules]: "framed R s (do_execute E p s)"
proof -
  have "framed R t (upd_prog p f (act (Forked pid) (t\<lparr>fork_n := Suc (fork_n t)\<rparr>)))" for t f pid
    by (rule framed_from [OF still_trans [OF still_fork still_fields(5)] framed_upd_prog])
  then show ?thesis
    unfolding do_execute_def Let_def by (intro frame_rules)
qed

lemma framed_shm_alloc [frame_rules]: "framed R s (aff_shm_alloc E p s)"
  unfolding aff_shm_alloc_def by (intro frame_rules)

lemma framed_shm_dealloc [frame_rules]: "framed R s (aff_shm_dealloc p s)"
  unfolding aff_shm_dealloc_def by (intro framed_value framed_still still_fields)

end

lemma evnt_alloc_state:
  "aff_evnt_alloc k s = Inr (e, t) \<Longrightarrow> next_addr s \<noteq> HASH_ENTRY_NOTFOUND \<and> e = next_addr s
    \<and> t = s\<lparr>next_addr := next_addr s + 1, events := (events s)(e \<mapsto> \<lparr>kind = k,
        tv = \<lparr>tv_sec = 0, tv_usec = 0\<rparr>, ev_prog = 0\<rparr>)\<rparr>"
  by (auto simp: aff_evnt_alloc_def malloc_Inr bindR_eq_Inr)

lemma prog_alloc_frame:
  assumes "aff_prog_alloc E ident s = Inr (p, t)"
  shows "next_addr s \<noteq> HASH_ENTRY_NOTFOUND" and "p = next_addr s"
    and "quantum_frame (s\<lparr>next_addr := next_addr s + 1, progs := (progs s)(p \<mapsto> fresh_prog E ident)\<rparr>) t"
proof -
  obtain q s1 s2 s3 where r: "malloc s = Inr (q, s1)"
      "request E (CpusetCreated ident) (s1\<lparr>progs := (progs s1)(q \<mapsto> fresh_prog E ident)\<rparr>) = Inr s2"
      "aff_shm_alloc E q s2 = Inr s3" "Inr (q, s3) = (Inr (p, t) :: (u64 \<times> sys) res)"
    using assms unfolding aff_prog_alloc_def by (elim bindR_pairE bindR_E) blast
  show "next_addr s \<noteq> HASH_ENTRY_NOTFOUND" and p: "p = next_addr s"
    using r(1,4) by (auto simp: malloc_Inr)
  have "quantum_frame (s1\<lparr>progs := (progs s1)(q \<mapsto> fresh_prog E ident)\<rparr>) s2"
    by (rule framedD [OF shrink.framed_request r(2)])
  also have "quantum_frame s2 s3"
    by (rule framedD [OF shrink.framed_shm_alloc r(3)])
  finally show "quantum_frame (s\<lparr>next_addr := next_addr s + 1, progs := (progs s)(p \<mapsto> fresh_prog E ident)\<rparr>) t"
    using r(1,4) p by (auto simp: malloc_Inr)
qed

text \<open>What \<open>parse_file\<close> and \<open>prog_respawn\<close> have in common.\<close>

lemma program_created:
  assumes e: "aff_evnt_alloc EVNT_NEWPROG s = Inr (e, s1)" and p: "aff_prog_alloc E ident s1 = Inr (p, s2)"
    and work: "quantum_frame s2 s3" and ev: "new_event_prog e p s3 = Inr s4" and push: "push_event E e s4 = Inr t"
  shows "evolves s (t\<lparr>waiting_nr := waiting_nr t + 1\<rparr>)"
proof -
  note e = evnt_alloc_state [OF e] and p = prog_alloc_frame [OF p]
  define x where "x = \<lparr>kind = EVNT_NEWPROG, tv = \<lparr>tv_sec = 0, tv_usec = 0\<rparr>, ev_prog = 0\<rparr>"
  have e': "next_addr s \<noteq> HASH_ENTRY_NOTFOUND" "e = next_addr s"
      "s1 = s\<lparr>next_addr := next_addr s + 1, events := (events s)(e \<mapsto> x)\<rparr>"
    using e by (simp_all add: x_def)
  have v: "quantum_frame (s\<lparr>events := (events s)(next_addr s \<mapsto> x), next_addr := next_addr s + 1 + 1,
      progs := (progs s)(next_addr s + 1 \<mapsto> fresh_prog E ident)\<rparr>) s3"
    using quantum_frame_trans [OF p(3) work] unfolding p(2) e'(2,3) by simp
  obtain prog :: aff_prog where "s4 = s3\<lparr>events := (events s3)(e \<mapsto> \<lparr>kind = EVNT_NEWPROG,
      tv = \<lparr>tv_sec = start_time prog, tv_usec = 0\<rparr>, ev_prog = p\<rparr>)\<rparr>"
    using ev by (auto simp: new_event_prog_def bindR_eq_Inr)
  with push have w: "push_event E (next_addr s) (s3\<lparr>events := (events s3)(next_addr s \<mapsto> \<lparr>kind = EVNT_NEWPROG,
      tv = \<lparr>tv_sec = start_time prog, tv_usec = 0\<rparr>, ev_prog = next_addr s + 1\<rparr>)\<rparr>) = Inr t"
    by (simp add: e'(2,3) p(2))
  show ?thesis
    by (rule new_arrival [OF e'(1) _ v w]) (use p(1) e'(3) in simp)
qed

lemma prog_respawn_evolves: "framed evolves s (prog_respawn E p ident s)"
  unfolding framed_def
proof (intro allI impI)
  fix t assume run: "prog_respawn E p ident s = Inr t"
  let ?s = "s\<lparr>tod_n := Suc (tod_n s)\<rparr>"
  obtain e s0 new u old v w x y where r:
      "aff_evnt_alloc EVNT_NEWPROG ?s = Inr (e, s0)" "aff_prog_alloc E ident s0 = Inr (new, u)"
      "upd_prog new (respawn_fields old (timersub (tod E (tod_n s)) (tv0 ?s))) u = Inr v"
      "do_execute E new v = Inr w" "new_event_prog e new w = Inr x"
      "push_event E e x = Inr y" "Inr (y\<lparr>waiting_nr := waiting_nr y + 1\<rparr>) = Inr t"
    using run unfolding prog_respawn_def get_now_def gettimeofday_def prod.case
    by (elim bindR_pairE bindR_E) blast
  have "quantum_frame u v" "quantum_frame v w"
    using framedD [OF shrink.framed_upd_prog r(3)] framedD [OF shrink.framed_do_execute r(4)] .
  then have "evolves ?s t"
    using program_created [OF r(1,2) quantum_frame_trans r(5,6)] r(7) by auto
  then show "evolves s t"
    using evolves_trans [OF evolve.R_still [OF still_fields(4)]] by blast
qed

section \<open>The work of the four policies\<close>

lemma evolves_assume: "(loop_ok s \<Longrightarrow> evolves s t) \<Longrightarrow> evolves s t"
  by (simp add: evolves_def)

context frame_relation
begin

lemma framed_kill_instr [frame_rules]: "framed R s (on_sched kill_instr p s)"
  by (rule framed_on_sched) (auto simp: kill_instr_def Let_def res_simps)

lemma framed_kill_times [frame_rules]: "framed R s (on_sched kill_times p s)"
  by (rule framed_on_sched) (auto simp: kill_times_def Let_def res_simps)

end

lemma kill_one_frame:
  assumes "p \<notin> set (pnew_l s) \<union> set (pfinished_l s)"
  shows "framed quantum_frame s (kill_one E p s)"
proof -
  have leave: "still u (upd_sch (\<lambda>sc. sc\<lparr>progs_fnsh := progs_fnsh sc + 1, progs_nr := progs_nr sc - 1\<rparr>) u)" for u
    by (rule still_sch) simp_all
  note out = shrink.framed_via [OF unlink_frame [OF assms] shrink.framed_kill_instr]
    and gone = shrink.framed_from [OF leave shrink.framed_clear_prog]
  show ?thesis
    unfolding kill_one_def
    by (rule shrink.framed_get_pd, rule shrink.framed_get_cntrs, rule shrink.framed_bind [OF out])
      (intro shrink.framed_bind shrink.framed_get_prog gone shrink.framed_still still_fields
        shrink.framed_update_clock shrink.framed_kill_times)
qed

lemma kill_all_frame:
  assumes "lists_ok s" and "kill_all E s = Inr t"
  shows "quantum_frame s t"
proof -
  let ?s = "move_progs_to_all s"
  have a: "quantum_frame s ?s" and ok: "lists_ok ?s"
    using keeps_frame keeps_lists_ok move_progs_to_all_keeps [OF assms(1)] assms(1) by blast+
  have "framed quantum_frame ?s (foldR (kill_one E) (progs_all (sch ?s)) ?s)"
  proof (rule shrink.framed_foldR)
    fix p u assume p: "p \<in> set (progs_all (sch ?s))" and u: "quantum_frame ?s u"
    have "p \<notin> set (pnew_l ?s) \<union> set (pfinished_l ?s)"
      using p ok by (auto simp: lists_ok_def sched_lists_def)
    with u show "framed quantum_frame u (kill_one E p u)"
      by (intro kill_one_frame) (simp add: quantum_frame_def)
  qed
  with assms(2) have "quantum_frame ?s t"
    by (simp add: kill_all_def Let_def framed_def)
  with a show ?thesis
    by (rule quantum_frame_trans)
qed

lemma stop_all_frame:
  assumes "lists_ok s" and "stop_all P E s = Inr t"
  shows "quantum_frame s t"
proof -
  let ?s = "upd_sch (\<lambda>sc. sc\<lparr>stop_execution := True\<rparr>) (s\<lparr>massacre := True\<rparr>)"
  obtain u v w where r: "freeze_sched P E ?s = Inr u" "kill_all E u = Inr v"
      "sched_print_totals E v = Inr w" "sched_finalization w = Inr t"
    using assms(2) unfolding stop_all_def by (elim bindR_E) blast
  have "still s ?s"
    by (rule still_trans [OF still_fields(7) still_sch]) simp_all
  then have a: "quantum_frame s ?s"
    by (rule shrink.R_still)
  note b = quantum_frame_trans [OF a freeze_sched_frame [OF quantum_frame_lists [OF a assms(1)] r(1)]]
  note c = quantum_frame_trans [OF b kill_all_frame [OF quantum_frame_lists [OF b assms(1)] r(2)]]
  note d = quantum_frame_trans [OF c framedD [OF shrink.framed_print_totals r(3)]]
  show ?thesis
    by (rule quantum_frame_trans [OF d framedD [OF shrink.framed_finalization r(4)]])
qed

lemma stop_all_evolves: "framed evolves s (stop_all P E s)"
  unfolding framed_def
  by (intro allI impI, rule evolves_assume, rule evolves_frame, erule stop_all_frame [OF loop_lists])

lemma respawn_evolves: "framed evolves s (respawn P E p s)"
proof -
  have less: "still u (if again then u else upd_sch (\<lambda>sc. sc\<lparr>progs_left := progs_left sc - 1\<rparr>) u)" for u again
    by (simp add: still_fields still_sch)
  have step: "framed evolves t
     (bindR (if progs_left (sch (if again then t else upd_sch (\<lambda>sc. sc\<lparr>progs_left := progs_left sc - 1\<rparr>) t)) \<le> 0
        then stop_all P E (if again then t else upd_sch (\<lambda>sc. sc\<lparr>progs_left := progs_left sc - 1\<rparr>) t)
        else Inr (if again then t else upd_sch (\<lambda>sc. sc\<lparr>progs_left := progs_left sc - 1\<rparr>) t)) (\<lambda>s.
        if stop_execution (sch s) then Inr s
        else if again then bindR (get_prog s p) (\<lambda>prog.
               prog_respawn E p (int32 (progs_init (sch s) + prog_id prog)) s)
        else Inr s))" for t again
    by (rule evolve.framed_from [OF less [of t again]])
      (intro evolve.framed_bind evolve.framed_if evolve.framed_refl stop_all_evolves evolve.framed_get_prog
        prog_respawn_evolves)
  show ?thesis
    unfolding respawn_def Let_def
    by (rule evolve.framed_get_pd, rule evolve.framed_bind [OF evolve.framed_upd_prog], rule evolve.framed_arr_get,
        rule step)
qed

lemma last_measures_evolves: "framed evolves s (last_measures P E p s)"
  unfolding last_measures_def
  by (intro frame_rules respawn_evolves)

lemma known_frame: "quantum_frame s t \<Longrightarrow> known t p = known s p"
  by (simp add: quantum_frame_def known_def arriving_def ev_prog_of_def fun_eq_iff)

lemma evolves_new_nr: "evolves s (s\<lparr>new_nr := n\<rparr>)"
proof (rule evolves_quiet)
  show "known s q" if ok: "loop_ok s" and "q \<in> set (pnew_l (s\<lparr>new_nr := n\<rparr>)) \<union> set (pfinished_l (s\<lparr>new_nr := n\<rparr>))
      \<union> sched_lists (s\<lparr>new_nr := n\<rparr>) \<union> ran (hash_map (prog_pid_hash (s\<lparr>new_nr := n\<rparr>)))" for q
    by (rule known_lists [OF ok]) (use that in \<open>auto simp: sched_lists_def\<close>)
qed (simp_all add: lists_ok_def sched_lists_def)

lemma prog_dealloc_evolves:
  assumes "known s p" and "aff_prog_dealloc E p s = Inr t"
  shows "evolves s t"
proof -
  obtain prog :: aff_prog and u v w where r: "request E (CpusetDeleted (prog_id prog)) s = Inr u"
      "(if prog_pid prog \<noteq> 0 then request E (FreezerShut (prog_id prog)) u else Inr u) = Inr v"
      "aff_shm_dealloc p v = Inr w" "Inr (w\<lparr>progs := (progs w)(p := None)\<rparr>) = (Inr t :: sys res)"
    using assms(2) unfolding aff_prog_dealloc_def by (elim bindR_E) blast
  have "framed quantum_frame u (if prog_pid prog \<noteq> 0 then request E (FreezerShut (prog_id prog)) u else Inr u)"
    by (intro frame_rules)
  then have "quantum_frame u v"
    using r(2) by (rule framedD)
  with framedD [OF shrink.framed_request r(1)] have "quantum_frame s v"
    by (rule quantum_frame_trans)
  from quantum_frame_trans [OF this framedD [OF shrink.framed_shm_dealloc r(3)]] have sw: "quantum_frame s w" .
  then have "known w p"
    using assms(1) known_frame by blast
  from evolves_trans [OF evolves_frame [OF sw] dealloc_evolves [OF this]] r(4) show ?thesis
    by simp
qed

lemma del_prog_evolves:
  assumes "known s p" and "sched_del_prog E p s = Inr t"
  shows "evolves s t"
proof -
  obtain u v where r: "on_stats E ss_aff_stats_shutdown p s = Inr u" "sched_prog_data_free p u = Inr v"
      "aff_prog_dealloc E p v = Inr t"
    using assms(2) unfolding sched_del_prog_def by (elim bindR_E) blast
  have "framed quantum_frame u (sched_prog_data_free p u)"
    unfolding sched_prog_data_free_def by (intro frame_rules)
  with r(2) have "quantum_frame u v"
    by (rule framedD [rotated])
  with framedD [OF shrink.framed_on_stats r(1)] have sv: "quantum_frame s v"
    by (rule quantum_frame_trans)
  then have "known v p"
    using assms(1) known_frame by blast
  from evolves_trans [OF evolves_frame [OF sv] prog_dealloc_evolves [OF this r(3)]] show ?thesis .
qed

lemma finished_prog_evolves:
  assumes "known s p" and "finished_prog P E p s = Inr t"
  shows "evolves s t"
proof (rule evolves_assume)
  assume ok: "loop_ok s"
  obtain pd :: prog_data and u where u: "(if \<not> killed pd \<and> \<not> stop_execution (sch s) then last_measures P E p (unlink p s)
            else Inr (unlink p s)) = Inr u"
      and t: "sched_del_prog E p (upd_sch (\<lambda>sc. sc\<lparr>progs_fnsh := progs_fnsh sc + 1,
                                        progs_nr := progs_nr sc - 1\<rparr>) u) = Inr t"
    using assms(2) unfolding finished_prog_def by (elim bindR_E) blast
  have "framed evolves (unlink p s) (if \<not> killed pd \<and> \<not> stop_execution (sch s) then last_measures P E p (unlink p s)
            else Inr (unlink p s))"
    by (intro evolve.framed_if last_measures_evolves evolve.framed_refl)
  note a = evolves_trans [OF unlink_evolves framedD [OF this u]]
  have "still u (upd_sch (\<lambda>sc. sc\<lparr>progs_fnsh := progs_fnsh sc + 1, progs_nr := progs_nr sc - 1\<rparr>) u)" (is "still u ?v")
    by (rule still_sch) simp_all
  note b = evolves_trans [OF a evolve.R_still [OF this]]
  with ok assms(1) have "known ?v p"
    by (simp add: evolves_def)
  from evolves_trans [OF b del_prog_evolves [OF this t]] show "evolves s t" .
qed

context frame_relation
begin

lemma framed_prog_alloc [frame_rules]: "framed R s (sched_prog_alloc E p s)"
proof -
  have clock: "framed R t (sched_init_clock E p t)" for t
    unfolding sched_init_clock_def by (intro frame_rules)
  have fill: "framed R t (bindR (ss_aff_stats_init c (stats (data_junk E)) now) (\<lambda>st.
       bindR (upd_prog p (\<lambda>prog. prog\<lparr>sched_data := Some (fresh_data E prog st)\<rparr>) t)
         (sched_init_clock E p)))" for t c now
    by (intro framed_value framed_bind framed_upd_prog clock)
  show ?thesis
    unfolding sched_prog_alloc_def by (intro framed_get_prog framed_get_cntrs framed_with_ticks fill)
qed

lemma framed_add_prog [frame_rules]: "framed R s (sched_add_prog E p s)"
proof -
  have name: "framed R t (upd_pd p f (upd_sch (\<lambda>sc. sc\<lparr>total_progs := tp\<rparr>) t))" for t f tp
    by (rule framed_from [OF still_sch framed_upd_pd]) simp_all
  show ?thesis
    unfolding sched_add_prog_def Let_def
    by (rule framed_bind [OF framed_prog_alloc], rule framed_get_prog, rule framed_if, rule framed_Inl)
      (intro framed_value name)
qed

end

lemma new_running_evolves:
  assumes "known s p" and "aff_prog_new_running E p s = Inr t"
  shows "evolves s t"
proof -
  obtain prog :: aff_prog and h u where h: "hash_insert (prog_pid_hash s) (u64_of_int (shell_pid prog)) p = Inr h"
      and u: "aff_prog_print E p (s\<lparr>new_nr := new_nr s - 1, running_nr := running_nr s + 1, prog_pid_hash := h\<rparr>) = Inr u"
      and t: "with_ticks E (\<lambda>now. upd_prog p (\<lambda>prog. prog\<lparr>timer := tsc_start now (tsc_init (timer prog))\<rparr>)) u = Inr t"
    using assms(2) unfolding aff_prog_new_running_def by (elim bindR_E) blast
  let ?u = "(s\<lparr>new_nr := new_nr s - 1\<rparr>)"
  have "known ?u p"
    using assms(1) by (simp add: known_def arriving_def ev_prog_of_def fun_eq_iff)
  then have "evolves s (?u\<lparr>prog_pid_hash := h\<rparr>)"
    using h by (intro evolves_trans [OF evolves_new_nr hash_insert_evolves]) simp_all
  moreover have "still (?u\<lparr>prog_pid_hash := h\<rparr>) (s\<lparr>new_nr := new_nr s - 1, running_nr := running_nr s + 1, prog_pid_hash := h\<rparr>)"
    by (simp add: still_def quantum_frame_def pool_def)
  ultimately have a: "evolves s (s\<lparr>new_nr := new_nr s - 1, running_nr := running_nr s + 1, prog_pid_hash := h\<rparr>)" (is "evolves s ?v")
    using evolves_trans evolve.R_still by blast
  note b = evolves_trans [OF a framedD [OF evolve.framed_print u]]
  have "framed evolves u (with_ticks E (\<lambda>now. upd_prog p (\<lambda>prog. prog\<lparr>timer := tsc_start now (tsc_init (timer prog))\<rparr>)) u)"
    by (intro evolve.framed_with_ticks evolve.framed_upd_prog)
  from evolves_trans [OF b framedD [OF this t]] show ?thesis .
qed

lemma new_prog_evolves:
  assumes "known s p" and "new_prog E p s = Inr t"
  shows "evolves s t"
proof (cases "stop_execution (sch s)")
  case True
  then obtain prog :: aff_prog where "t = act (SendKill (prog_pid prog)) s\<lparr>new_nr := new_nr s - 1\<rparr>"
    using assms(2) by (auto simp: new_prog_def bindR_eq_Inr)
  then have "t = (act (SendKill (prog_pid prog)) s)\<lparr>new_nr := new_nr s - 1\<rparr>"
    by simp
  with evolves_trans [OF evolve.R_still [OF still_fields(5)] evolves_new_nr] show ?thesis
    by simp
next
  case False
  then obtain u where u: "sched_add_prog E p s = Inr u"
      and t: "aff_prog_new_running E p (move2all p (upd_sch (\<lambda>sc. sc\<lparr>progs_nr := progs_nr sc + 1\<rparr>) u)) = Inr t"
    using assms(2) unfolding new_prog_def by (auto elim: bindR_E)
  have "still u (upd_sch (\<lambda>sc. sc\<lparr>progs_nr := progs_nr sc + 1\<rparr>) u)" (is "still u ?u")
    by (rule still_sch) simp_all
  then have a: "quantum_frame s ?u"
    using quantum_frame_trans [OF framedD [OF shrink.framed_add_prog u]] shrink.R_still by blast
  then have k: "known ?u p"
    using assms(1) known_frame by blast
  have "known (move2all p ?u) p"
    using k by (simp add: known_def arriving_def ev_prog_of_def fun_eq_iff move2all_def unlink_def upd_sch_def)
  from evolves_trans [OF evolves_trans [OF evolves_frame [OF a] move2all_evolves [OF k]] new_running_evolves [OF this t]]
  show ?thesis .
qed

text \<open>A loop over programs that are known.\<close>

lemma evolves_loop:
  assumes step: "\<And>p u v. known u p \<Longrightarrow> f p u = Inr v \<Longrightarrow> evolves u v"
    and "loop_ok s" and "\<forall>p \<in> set ps. known s p" and "foldR f ps s = Inr t"
  shows "evolves s t"
  using assms(4)
proof (rule foldR_invariant [where P = "evolves s"])
  show "evolves s s"
    by (simp add: evolves_def)
  show "evolves s v" if "p \<in> set ps" "evolves s u" "f p u = Inr v" for p u v
  proof -
    have "known u p"
      using that(1,2) assms(2,3) by (simp add: evolves_def)
    from evolves_trans [OF that(2) step [OF this that(3)]] show ?thesis .
  qed
qed

lemma rebalance_evolves:
  assumes "loop_ok s" and "policy_rebalance P E s = Inr t"
  shows "evolves s t"
proof -
  obtain u where r: "foldR (finished_prog P E) (pfinished_l s) s = Inr u" "foldR (new_prog E) (pnew_l u) u = Inr t"
    using assms(2) unfolding policy_rebalance_def by (elim bindR_E)
  have a: "evolves s u"
    by (rule evolves_loop [OF finished_prog_evolves assms(1) _ r(1)]) (use known_lists [OF assms(1)] in blast)+
  with assms(1) have ok: "loop_ok u"
    by (simp add: evolves_def)
  have "evolves u t"
    by (rule evolves_loop [OF new_prog_evolves ok _ r(2)]) (use known_lists [OF ok] in blast)+
  with a show ?thesis
    by (rule evolves_trans)
qed

section \<open>The steps of the executor\<close>

text \<open>Once the policy is initialised the end of the quantum is in the heap between any two steps.\<close>

definition running_ok :: "sys \<Rightarrow> bool" where
  "running_ok s \<longleftrightarrow> loop_ok s \<and> qt_event \<in># queue s"

lemma running_evolves: "running_ok s \<Longrightarrow> evolves s t \<Longrightarrow> running_ok t"
  by (simp add: running_ok_def evolves_def)

lemma arm_running:
  assumes ok: "loop_ok s" and out: "qt_event \<notin># queue s"
    and push: "push_event E qt_event (set_qt_event time s) = Inr t"
  shows "running_ok t"
proof -
  have sel: "selection_ok s"
    by (rule loop_selection [OF ok])
  then have "queue_ok s"
    by (simp add: selection_ok_def)
  from arm_quantum [OF this out push] have q: "queue_ok t" "queue t = add_mset qt_event (queue s)"
      "t = (set_qt_event time s)\<lparr>events_heap := events_heap t\<rparr>"
    by simp_all
  from q(3) obtain g where g: "t = (set_qt_event time s)\<lparr>events_heap := g\<rparr>" by blast
  have t: "events t = (events s)(qt_event \<mapsto> \<lparr>kind = EVNT_QEXPIRED, tv = time, ev_prog = 0\<rparr>)"
      "progs t = progs s" "sch t = sch s" "pnew_l t = pnew_l s" "pfinished_l t = pfinished_l s"
      "prog_pid_hash t = prog_pid_hash s" "next_addr t = next_addr s" "waiting_nr t = waiting_nr s"
      "tv0 t = tv0 s" "reset_qt t = reset_qt s"
    by (simp_all add: g set_qt_event_def)
  have evp: "ev_prog_of t y = ev_prog_of s y" if "y \<noteq> qt_event" for y
    using that by (simp add: ev_prog_of_def t(1))
  have mem: "set_mset (queue t) - {qt_event} = set_mset (queue s) - {qt_event}"
    by (simp add: q(2))
  have arr: "arriving t = arriving s"
    unfolding arriving_def mem by (rule image_cong [OF refl], rule evp) simp
  have inj: "inj_on (ev_prog_of t) (set_mset (queue t) - {qt_event})"
    unfolding mem
  proof (subst inj_on_cong)
    show "ev_prog_of t y = ev_prog_of s y" if "y \<in> set_mset (queue s) - {qt_event}" for y
      by (rule evp) (use that in simp)
    show "inj_on (ev_prog_of s) (set_mset (queue s) - {qt_event})"
      using ok by (simp add: loop_ok_def)
  qed
  have "event_ok t y" if "y \<in># queue t" for y
  proof (cases "y = qt_event")
    case True
    then show ?thesis by (simp add: event_ok_def t(1))
  next
    case False
    with that q(2) sel have "event_ok s y" by (simp add: selection_ok_def)
    with False show ?thesis by (simp add: event_ok_def arrival_def sched_lists_def t)
  qed
  moreover have "lists_ok t"
    using loop_lists [OF ok] by (simp add: lists_ok_def sched_lists_def t)
  moreover have "count (queue t) y \<le> 1" for y
    using sel out q(2) by (auto simp: selection_ok_def not_in_iff)
  ultimately have "selection_ok t"
    using q(1) by (simp add: selection_ok_def)
  moreover have "in_use t \<subseteq> insert qt_event (in_use s)"
    by (auto simp: in_use_def sched_lists_def t)
  moreover have "filter_mset (\<lambda>e. e \<noteq> qt_event) (queue t) = filter_mset (\<lambda>e. e \<noteq> qt_event) (queue s)"
    by (simp add: q(2))
  ultimately show ?thesis
    using ok inj arr q(2) unfolding running_ok_def loop_ok_def by (auto simp: t)
qed

text \<open>Taking the end of the quantum, or an arrival, out of the heap.\<close>

lemma pop_quantum:
  assumes ok: "loop_ok s" and "heap_peek (event_heap s) = Inr (Some qt_event)"
    and "heap_pop (event_heap s) = Inr (h, r)"
  shows "r = Some qt_event" and "loop_ok (s\<lparr>events_heap := h\<rparr>)" and "qt_event \<notin># heap_bag h"
proof -
  have sel: "selection_ok s" "queue_ok s"
    using loop_selection [OF ok] by (simp_all add: selection_ok_def)
  from pop_event_spec [OF sel(2) assms(2)] assms(3)
  have h: "r = Some qt_event" "queue_ok (s\<lparr>events_heap := h\<rparr>)" "queue s = add_mset qt_event (heap_bag h)"
    by auto
  then show "r = Some qt_event" by simp
  have c: "qt_event \<notin># heap_bag h" "\<forall>e. count (heap_bag h) e \<le> 1"
    using count_le_1_add [of qt_event "heap_bag h"] sel(1) h(3) by (simp_all add: selection_ok_def)
  show "qt_event \<notin># heap_bag h"
    by (rule c(1))
  let ?t = "s\<lparr>events_heap := h\<rparr>"
  have q: "set_mset (queue ?t) - {qt_event} = set_mset (queue s) - {qt_event}" "ev_prog_of ?t = ev_prog_of s"
    using h(3) by (simp_all add: fun_eq_iff ev_prog_of_def)
  have "event_ok ?t e" if "e \<in># queue ?t" for e
    using that sel(1) h(3) by (auto simp: selection_ok_def event_ok_def arrival_def sched_lists_def)
  then have "selection_ok ?t"
    using h(2) c(2) loop_lists [OF ok] by (simp add: selection_ok_def lists_ok_def sched_lists_def)
  moreover have "arriving ?t = arriving s"
    unfolding arriving_def q ..
  moreover have "in_use ?t = in_use s"
    by (simp add: in_use_def sched_lists_def)
  moreover have "filter_mset (\<lambda>e. e \<noteq> qt_event) (queue ?t) = filter_mset (\<lambda>e. e \<noteq> qt_event) (queue s)"
    by (simp add: h(3))
  moreover have "inj_on (ev_prog_of ?t) (set_mset (queue ?t) - {qt_event})"
    unfolding q using ok by (simp add: loop_ok_def)
  ultimately show "loop_ok ?t"
    using ok unfolding loop_ok_def by simp
qed

lemma pop_arrival:
  assumes ok: "loop_ok s" and peek: "heap_peek (event_heap s) = Inr (Some e)" and ne: "e \<noteq> qt_event"
    and pop: "heap_pop (event_heap s) = Inr (h, r)"
    and run: "handle_event E S e now (s\<lparr>events_heap := h\<rparr>) = Inr t"
  shows "loop_ok t" and "qt_event \<in># queue t \<longleftrightarrow> qt_event \<in># queue s"
proof -
  note sel = loop_selection [OF ok]
  have t_sel: "selection_ok t" "queue s = add_mset e (queue t)" "waiting_nr t = waiting_nr s - 1"
      "\<forall>y. y \<noteq> e \<longrightarrow> events t y = events s y" "pnew_l t = pnew_l s @ [ev_prog_of s e]"
    using arrival_step [OF sel peek ne, of E S now] pop run by auto
  then show "qt_event \<in># queue t \<longleftrightarrow> qt_event \<in># queue s"
    using ne by auto
  have "arrival s e"
    using sel ne t_sel(2) by (simp add: selection_ok_def event_ok_def)
  then obtain ev where ev: "events s e = Some ev" "kind ev = EVNT_NEWPROG" "ev_prog ev \<in> dom (progs s)"
    by (auto simp: arrival_def)
  have t: "progs t = progs s" "sch t = sch s" "pfinished_l t = pfinished_l s" "prog_pid_hash t = prog_pid_hash s"
      "next_addr t = next_addr s" "tv0 t = tv0 s" "reset_qt t = reset_qt s" "dom (events t) \<subseteq> dom (events s)"
    using run ev by (auto simp: handle_event_def get_event_def aff_prog_waiting_new_def aff_evnt_dealloc_def bindR_eq_Inr
        split: if_splits)
  have e_out: "e \<notin># queue t"
    using count_le_1_add [of e "queue t"] sel t_sel(2) by (simp add: selection_ok_def)
  have evp: "ev_prog_of t y = ev_prog_of s y" if "y \<in># queue t" for y
    using that e_out t_sel(4) by (auto simp: ev_prog_of_def)
  have mem: "set_mset (queue s) - {qt_event} = insert e (set_mset (queue t) - {qt_event})"
    using t_sel(2) ne by auto
  have inj: "inj_on (ev_prog_of s) (insert e (set_mset (queue t) - {qt_event}))"
    using ok by (simp add: loop_ok_def mem)
  have img: "ev_prog_of t ` (set_mset (queue t) - {qt_event}) = ev_prog_of s ` (set_mset (queue t) - {qt_event})"
    by (rule image_cong [OF refl], rule evp) simp
  have arr: "arriving s = insert (ev_prog_of s e) (arriving t)" "ev_prog_of s e \<notin> arriving t"
  proof -
    show "arriving s = insert (ev_prog_of s e) (arriving t)"
      unfolding arriving_def mem img by simp
    have "e \<notin> set_mset (queue t) - {qt_event}"
      using e_out by simp
    with inj show "ev_prog_of s e \<notin> arriving t"
      unfolding arriving_def img by (auto simp: inj_on_insert)
  qed
  have "inj_on (ev_prog_of t) (set_mset (queue t) - {qt_event})"
  proof (subst inj_on_cong)
    show "ev_prog_of t y = ev_prog_of s y" if "y \<in> set_mset (queue t) - {qt_event}" for y
      by (rule evp) (use that in simp)
    show "inj_on (ev_prog_of s) (set_mset (queue t) - {qt_event})"
      using inj by (rule inj_on_subset) auto
  qed
  moreover have "in_use t \<subseteq> in_use s"
    using ev(1,3) t_sel(5) by (auto simp: in_use_def sched_lists_def t ev_prog_of_def dest!: subsetD [OF t(8), OF domI])
  moreover have "waiting_nr t = int (size (filter_mset (\<lambda>e. e \<noteq> qt_event) (queue t)))"
    using ok t_sel(2,3) ne by (simp add: loop_ok_def)
  moreover have "arriving t \<inter> (set (pnew_l t) \<union> set (pfinished_l t) \<union> ran (hash_map (prog_pid_hash t))) = {}"
    using ok arr t_sel(5) by (auto simp: loop_ok_def t)
  ultimately show "loop_ok t"
    using ok t_sel(1) unfolding loop_ok_def by (auto simp: t)
qed

text \<open>A child ends.\<close>

lemma running_finished_evolves:
  assumes "aff_prog_running_finished E pid exited s = Inr t"
  shows "evolves s t"
proof (rule evolves_assume)
  assume ok: "loop_ok s"
  obtain h p v u where h: "hash_delete (prog_pid_hash s) (u64_of_int pid) = Inr (h, p)" "p \<noteq> HASH_ENTRY_NOTFOUND"
    and u: "with_ticks E (\<lambda>now. upd_prog p (\<lambda>prog. prog\<lparr>timer := tsc_pause now (timer prog)\<rparr>))
        (s\<lparr>prog_pid_hash := h\<rparr>) = Inr v"
    and report: "aff_prog_check_status E p exited v = Inr u"
    and t: "t = (unlink p (u\<lparr>running_nr := running_nr u - 1\<rparr>))\<lparr>pfinished_l := pfinished_l (unlink p (u\<lparr>running_nr := running_nr u - 1\<rparr>)) @ [p],
        finished_nr := finished_nr (unlink p (u\<lparr>running_nr := running_nr u - 1\<rparr>)) + 1\<rparr>"
    using assms unfolding aff_prog_running_finished_def Let_def
    by (auto elim!: bindR_E split: if_splits)
  have "hash_wf (prog_pid_hash s)"
    using ok by (simp add: loop_ok_def)
  from hash_delete_map [OF this, of "u64_of_int pid"] h have "p \<in> ran (hash_map (prog_pid_hash s))"
    by (auto split: option.splits intro: ranI)
  then have k: "known s p"
    by (intro known_lists [OF ok]) simp
  have "quantum_frame s (s\<lparr>prog_pid_hash := h\<rparr>)"
    using hash_shrinks_delete [OF h(1)] by (simp add: quantum_frame_def pool_def)
  moreover have "framed quantum_frame (s\<lparr>prog_pid_hash := h\<rparr>)
      (with_ticks E (\<lambda>now. upd_prog p (\<lambda>prog. prog\<lparr>timer := tsc_pause now (timer prog)\<rparr>)) (s\<lparr>prog_pid_hash := h\<rparr>))"
    by (intro shrink.framed_with_ticks shrink.framed_upd_prog)
  then have "quantum_frame (s\<lparr>prog_pid_hash := h\<rparr>) v"
    using u by (rule framedD)
  moreover have "quantum_frame v u"
    by (rule framedD [OF shrink.framed_check_status report])
  moreover have "quantum_frame u (u\<lparr>running_nr := running_nr u - 1\<rparr>)"
    by (simp add: quantum_frame_def pool_def)
  ultimately have f: "quantum_frame s (u\<lparr>running_nr := running_nr u - 1\<rparr>)" (is "quantum_frame s ?u")
    using quantum_frame_trans by blast
  with k have "known ?u p"
    using known_frame by blast
  note a = evolves_trans [OF evolves_frame [OF f] to_finished_evolves [OF this]]
  have "still (to_finished p ?u) t"
    unfolding t to_finished_def by (simp add: still_def quantum_frame_def pool_def)
  from evolves_trans [OF a evolve.R_still [OF this]] show "evolves s t" .
qed

lemma check_shutdown_Inr: "check_shutdown E s = Inr t \<longleftrightarrow> t = s \<and> (running_nr s \<noteq> 0 \<or> waiting_nr s \<noteq> 0 \<or> new_nr s \<noteq> 0)"
  by (auto simp: check_shutdown_def shutdown_def bindR_eq_Inr)

lemma reap_evolves: "reap E rs (s, n) = Inr (t, m) \<Longrightarrow> evolves s t"
proof (induction rs arbitrary: s n)
  case Nil
  then show ?case by (simp add: evolve.R_still still_fields)
next
  case (Cons x rs)
  have same: "evolves s s"
    by (simp add: evolve.R_still still_fields)
  show ?case
  proof (cases x)
    case (ChildEnded pid exited)
    show ?thesis
    proof (cases "running_nr s = 0")
      case False
      with Cons.prems ChildEnded obtain u where "aff_prog_running_finished E pid exited s = Inr u" "reap E rs (u, n + 1) = Inr (t, m)"
        by (auto elim: bindR_E)
      from evolves_trans [OF running_finished_evolves [OF this(1)] Cons.IH [OF this(2)]] show ?thesis .
    qed (use Cons.prems ChildEnded same in auto)
  qed (use Cons same in \<open>auto split: if_splits\<close>)
qed

section \<open>The contract of a policy for the loop\<close>

locale executor_policy = quantum_policy +
  assumes rebalance_law: "loop_ok s \<Longrightarrow> rebalance S E s = Inr t \<Longrightarrow> evolves s t"
    and init_law: "loop_ok s \<Longrightarrow> qt_event \<notin># queue s \<Longrightarrow> sched_init S E s = Inr t \<Longrightarrow> running_ok t"
    and no_callback: "prog_changed S = None"
begin

lemma handle_running:
  assumes ok: "running_ok s" and peek: "heap_peek (event_heap s) = Inr (Some e)"
    and pop: "heap_pop (event_heap s) = Inr (h, r)"
    and run: "handle_event E S (case r of Some e' \<Rightarrow> e' | None \<Rightarrow> e) now (s\<lparr>events_heap := h\<rparr>) = Inr t"
  shows "running_ok t"
proof (cases "e = qt_event")
  case True
  have lok: "loop_ok s"
    using ok by (simp add: running_ok_def)
  note q = pop_quantum [OF lok peek [unfolded True] pop]
  have "event_ok s qt_event"
    using loop_selection [OF lok] ok by (simp add: selection_ok_def running_ok_def)
  then have "expire E now (s\<lparr>events_heap := h\<rparr>) = Inr t"
    using run q(1) by (auto simp: handle_event_def get_event_def event_ok_def registered)
  with expire_law [OF loop_lists [OF q(2)]] obtain u where u: "quantum_frame (s\<lparr>events_heap := h\<rparr>) u"
      "push_event E qt_event (set_qt_event (timeradd qt now) u) = Inr t"
    by blast
  from evolves_frame [OF u(1)] q(2,3) have "loop_ok u" "qt_event \<notin># queue u"
    by (simp_all add: evolves_def)
  then show ?thesis
    by (rule arm_running [OF _ _ u(2)])
next
  case False
  have lok: "loop_ok s" and "queue_ok s"
    using ok loop_selection by (auto simp: running_ok_def selection_ok_def)
  from pop_event_spec [OF this(2) peek] pop have "r = Some e"
    by auto
  with run have "handle_event E S e now (s\<lparr>events_heap := h\<rparr>) = Inr t"
    by simp
  from pop_arrival [OF lok peek False pop this] ok show ?thesis
    by (simp add: running_ok_def)
qed

lemma select_running:
  assumes "select_ready_events E S now s = Some r" and "running_ok s" and "r = Inr (t, w)"
  shows "running_ok t"
proof -
  have "\<forall>t w. S = S \<longrightarrow> running_ok s \<longrightarrow> r = Inr (t, w) \<longrightarrow> running_ok t"
    using assms(1)
  proof (rule select_ready_events.raw_induct [rotated, where P = "\<lambda>E S' now s r.
      \<forall>t w. S' = S \<longrightarrow> running_ok s \<longrightarrow> r = Inr (t, w) \<longrightarrow> running_ok t"])
    fix sel E S' now s r
    assume IH: "\<And>E S' now s r. sel E S' now s = Some r \<Longrightarrow>
        \<forall>t w. S' = S \<longrightarrow> running_ok s \<longrightarrow> r = Inr (t, w) \<longrightarrow> running_ok t"
      and body: "(case heap_peek (event_heap s) of Inl f \<Rightarrow> Some (Inl f)
        | Inr None \<Rightarrow> Some (Inr (s, None))
        | Inr (Some e) \<Rightarrow> (case get_event s e of
             Inl f \<Rightarrow> Some (Inl f)
           | Inr ev \<Rightarrow>
               if timer_gt (tv ev) now then Some (Inr (s, Some (timersub (tv ev) now)))
               else (case heap_pop (event_heap s) of
                   Inl f \<Rightarrow> Some (Inl f)
                 | Inr (h, x) \<Rightarrow> (case handle_event E S' (case x of None \<Rightarrow> e | Some e' \<Rightarrow> e') now (s\<lparr>events_heap := h\<rparr>) of
                       Inl f \<Rightarrow> Some (Inl f)
                     | Inr s' \<Rightarrow> sel E S' now s')))) = Some r"
    show "\<forall>t w. S' = S \<longrightarrow> running_ok s \<longrightarrow> r = Inr (t, w) \<longrightarrow> running_ok t"
    proof (intro allI impI)
      fix t w assume S: "S' = S" and ok: "running_ok s" and r: "r = Inr (t, w)"
      consider "heap_peek (event_heap s) = Inr None" | e where "heap_peek (event_heap s) = Inr (Some e)"
        using body r by (auto split: sum.splits option.splits)
      then show "running_ok t"
      proof cases
        case 1
        with body r ok show ?thesis by simp
      next
        case (2 e)
        with body obtain ev where ev: "get_event s e = Inr ev"
          using r by (auto split: sum.splits)
        show ?thesis
        proof (cases "timer_gt (tv ev) now")
          case True
          with body 2 ev r ok show ?thesis by simp
        next
          case False
          with body 2 ev r obtain h x u where p: "heap_pop (event_heap s) = Inr (h, x)"
              "handle_event E S' (case x of Some e' \<Rightarrow> e' | None \<Rightarrow> e) now (s\<lparr>events_heap := h\<rparr>) = Inr u"
              "sel E S' now u = Some r"
            by (auto split: sum.splits prod.splits)
          from handle_running [OF ok 2 p(1) p(2) [unfolded S]] IH [OF p(3)] S r show ?thesis
            by blast
        qed
      qed
    qed
  qed
  with assms(2,3) show ?thesis by blast
qed

text \<open>What ends a \<open>select\<close> keeps the invariant, too.\<close>

lemma notifications_same:
  "read_notifications S n ps (b, fds, s) = Inr (b', fds', t) \<Longrightarrow> t = s \<and> b' = b"
proof (induction ps arbitrary: n fds)
  case Nil
  then show ?case by simp
next
  case (Cons p ps)
  show ?case
  proof (cases "n \<ge> 64")
    case True
    with Cons.prems show ?thesis by simp
  next
    case False
    with Cons.prems have "read_notifications S (Suc n) ps (b, fds @ [p], s) = Inr (b', fds', t)"
      by (auto simp: no_callback elim!: bindR_E split: if_splits)
    then show ?thesis
      by (rule Cons.IH)
  qed
qed

lemma wake_up_running:
  assumes ok: "running_ok s" and run: "wake_up E S w s = Inr t"
  shows "running_ok t"
proof (cases w)
  case Timeout
  with assms show ?thesis by simp
next
  case (Readable ps)
  with run obtain b fds u v where r: "read_notifications S 0 ps (False, [], s) = Inr (b, fds, u)"
      "(if b then rebalance S E u else Inr u) = Inr v" "foldR (\<lambda>p. request E (Notify p)) (rev fds) v = Inr t"
    by (auto simp: handle_prog_notifications_def elim!: bindR_E)
  from notifications_same [OF r(1)] r(2) have "v = s" by simp
  moreover have "framed evolves v (foldR (\<lambda>p. request E (Notify p)) (rev fds) v)"
    by (intro evolve.framed_foldR evolve.framed_request)
  ultimately show ?thesis
    using r(3) ok running_evolves framedD by blast
next
  case (GotChild rs)
  with run obtain u n v where r: "reap E rs (s, 0) = Inr (u, n)"
      "(if n > 0 then rebalance S E u else Inr u) = Inr v" "check_shutdown E v = Inr t"
    by (auto simp: sigchld_handler_def elim!: bindR_E)
  have u: "running_ok u"
    by (rule running_evolves [OF ok reap_evolves [OF r(1)]])
  have "running_ok v"
  proof (cases "n > 0")
    case True
    with r(2) u show ?thesis
      using running_evolves [OF u rebalance_law] by (simp add: running_ok_def)
  qed (use r(2) u in simp)
  with r(3) show ?thesis
    by (auto simp: check_shutdown_Inr)
next
  case GotTerm
  with run have "t = s\<lparr>massacre := True\<rparr>"
    by (simp add: sigterm_handler_def)
  with ok running_evolves evolve.R_still [OF still_fields(7)] show ?thesis
    by blast
qed

lemma select_once_running:
  assumes "running_ok s" and "select_once E S w s = Inr t"
  shows "running_ok t"
proof -
  obtain u where u: "wake_up E S w s = Inr u" "(if reset_qt u then reset_quantum E u else Inr u) = Inr t"
    using assms(2) unfolding select_once_def by (elim bindR_E)
  have "running_ok u"
    by (rule wake_up_running [OF assms(1) u(1)])
  with u(2) show ?thesis
    by (simp add: running_ok_def loop_ok_def)
qed

lemma handle_events_running:
  assumes ok: "running_ok s" and run: "handle_events E S s = Some (Inr (t, w))"
  shows "running_ok t"
proof -
  let ?now = "timersub (tod E (tod_n s)) (tv0 s)" and ?s = "s\<lparr>tod_n := Suc (tod_n s)\<rparr>"
  obtain u w' where r: "select_ready_events E S ?now ?s = Some (Inr (u, w'))"
      "(if new_nr u > 0 then rebalance S E u else Inr u) = Inr t"
    using run by (auto simp: handle_events_def get_now_def gettimeofday_def elim!: bindR_E)
  have "running_ok ?s"
    using running_evolves [OF ok evolve.R_still [OF still_fields(4)]] .
  from select_running [OF r(1) this refl] have u: "running_ok u" .
  show ?thesis
  proof (cases "new_nr u > 0")
    case True
    with r(2) u show ?thesis
      using running_evolves [OF u rebalance_law] by (simp add: running_ok_def)
  qed (use r(2) u in simp)
qed

lemma handle_events_total:
  assumes ok: "running_ok s" and clock: "\<forall>n. tv_norm (tod E n)"
  shows "\<exists>r. handle_events E S s = Some r"
proof -
  let ?now = "timersub (tod E (tod_n s)) (tv0 s)" and ?s = "s\<lparr>tod_n := Suc (tod_n s)\<rparr>"
  have "running_ok ?s"
    using running_evolves [OF ok evolve.R_still [OF still_fields(4)]] .
  then have "selection_ok ?s"
    by (simp add: running_ok_def loop_selection)
  moreover have "tv_norm ?now"
    using ok clock by (intro timersub_norm) (simp_all add: running_ok_def loop_ok_def)
  ultimately obtain r where "select_ready_events E S ?now ?s = Some r"
    using select_ready_events_spec by blast
  then show ?thesis
    by (simp add: handle_events_def get_now_def gettimeofday_def)
qed

end

section \<open>The states that the executor reaches\<close>

text \<open>Rounds of events, changes of the signal mask, and what wakes the executor in between, in any order.\<close>

inductive executor_run :: "env \<Rightarrow> aff_scheduler \<Rightarrow> sys \<Rightarrow> sys \<Rightarrow> bool" for E S s where
  start: "executor_run E S s s"
| events: "executor_run E S s t \<Longrightarrow> handle_events E S t = Some (Inr (u, w)) \<Longrightarrow> executor_run E S s u"
| masked: "executor_run E S s t \<Longrightarrow> signals_disable E t = Inr u \<Longrightarrow> executor_run E S s u"
| unmasked: "executor_run E S s t \<Longrightarrow> signals_enable E t = Inr u \<Longrightarrow> executor_run E S s u"
| woken: "executor_run E S s t \<Longrightarrow> select_once E S w t = Inr u \<Longrightarrow> executor_run E S s u"

text \<open>The rounds of the main loop are such runs.\<close>

lemma select_once_run:
  "foldR (select_once E S) ws t = Inr u \<Longrightarrow> executor_run E S s t \<Longrightarrow> executor_run E S s u"
  by (induction ws arbitrary: t) (auto elim!: bindR_E intro: executor_run.woken)

lemma main_round_run:
  assumes "executor_run E S s t" and "main_round E S ws t = Some (Inr u)"
  shows "executor_run E S s u"
proof -
  obtain t' v w v' x where m: "signals_disable E t = Inr t'" "signals_enable E v = Inr v'"
    and r: "handle_events E S t' = Some (Inr (v, w))" "foldR (select_once E S) (ws @ [Timeout]) v' = Inr x"
      "check_shutdown E x = Inr u"
    using assms(2) by (auto simp: main_round_def elim!: bindR_pairE bindR_E split: sum.splits)
  have "x = u"
    using r(3) by (auto simp: check_shutdown_Inr)
  with select_once_run [OF r(2) executor_run.unmasked [OF executor_run.events [OF
        executor_run.masked [OF assms(1) m(1)] r(1)] m(2)]] show ?thesis
    by simp
qed

context executor_policy
begin

lemma signals_running:
  assumes "running_ok s"
  shows "signals_disable E s = Inr t \<Longrightarrow> running_ok t" and "signals_enable E s = Inr t \<Longrightarrow> running_ok t"
  using running_evolves [OF assms evolve.R_still [OF still_masked]]
  by (auto simp: signals_disable_def signals_enable_def bindR_eq_Inr ask_Inr)

lemma main_round_total:
  assumes "running_ok s" and "\<forall>n. tv_norm (tod E n)"
  shows "\<exists>r. main_round E S ws s = Some r"
  using handle_events_total [OF signals_running(1) [OF assms(1)] assms(2)]
  by (auto simp: main_round_def split: sum.splits)

lemma run_keeps: "executor_run E S s t \<Longrightarrow> running_ok s \<Longrightarrow> running_ok t"
  by (induction rule: executor_run.induct) (auto intro: handle_events_running select_once_running signals_running)

end

section \<open>The start of the executor\<close>

text \<open>The global state as it is when the process starts: nothing but zeros, and the quantum event.\<close>

definition booted :: "sys \<Rightarrow> bool" where
  "booted s \<longleftrightarrow> progs s = Map.empty \<and> dom (events s) \<subseteq> {qt_event} \<and> qt_event < next_addr s
     \<and> waiting_nr s = 0 \<and> sched_lists s = {} \<and> tv_norm (tv0 s) \<and> \<not> reset_qt s"

lemma heap_init_empty:
  assumes "heap_init mem_ok blk (Some le) = Inr h" and "total_preorder le"
  shows "heap_inv h" and "heap_bag h = {#}" and "leq_fn h = le"
proof -
  have h: "heap_da h = \<lparr>elems = blk, elems_nr = 128, elem_size = 8, next_idx = 0, alloc_grain = 128\<rparr>"
    and le: "leq_fn h = le"
    using assms(1) by (auto simp: heap_init_def dynarray_create_def elim!: bindR_E split: if_splits)
  show "heap_inv h"
    using assms(2) by (simp add: heap_inv_def le da_wf_def heap_ordered_def heap_size_def dynarray_size_def h granted_def)
  show "heap_bag h = {#}"
    by (simp add: heap_bag_def da_list_def block_list_def h)
  show "leq_fn h = le"
    by (rule le)
qed

lemma parse_prog_evolves:
  assumes "parse_prog E buff (n, s) = Inr (m, t)"
  shows "evolves s t"
proof -
  obtain e s1 p s2 l s3 s4 s5 s6 where r: "aff_evnt_alloc EVNT_NEWPROG s = Inr (e, s1)" "aff_prog_alloc E n s1 = Inr (p, s2)"
      "upd_prog p (fill_fields l) (s2\<lparr>running_core := s32_of_u64 (u64_of_int (pl_thr_needed l))\<rparr>) = Inr s3"
      "do_execute E p s3 = Inr s4" "new_event_prog e p s4 = Inr s5" "push_event E e s5 = Inr s6"
      "Inr (n + 1, s6\<lparr>waiting_nr := waiting_nr s6 + 1\<rparr>) = (Inr (m, t) :: (int \<times> sys) res)"
    using assms unfolding parse_prog_def prod.case by (elim bindR_pairE bindR_E) blast
  have "quantum_frame s2 (s2\<lparr>running_core := s32_of_u64 (u64_of_int (pl_thr_needed l))\<rparr>)"
    by (simp add: quantum_frame_def pool_def)
  also note framedD [OF shrink.framed_upd_prog r(3)]
  also note framedD [OF shrink.framed_do_execute r(4)]
  finally show ?thesis
    using program_created [OF r(1,2) _ r(5,6)] r(7) by auto
qed

lemma parse_file_evolves:
  assumes "parse_file E file s = Inr t"
  shows "evolves s t"
proof -
  obtain ls n where "foldR (parse_prog E) ls (1000, s) = Inr (n, t)"
    using assms unfolding parse_file_def by (auto elim!: bindR_E bindR_pairE split: option.splits)
  then show ?thesis
    by (rule evolve.framed_foldR_pair) (rule parse_prog_evolves)
qed

lemma init_state_ok:
  assumes "booted s" and "init_state E conf cpus_str s = Inr t"
  shows "loop_ok t" and "qt_event \<notin># queue t"
proof -
  obtain cs m h u hash where h: "heap_init (heap_mem_ok E) (heap_block E) (Some (aff_event_leq_ul (events s))) = Inr h"
    and u: "parse_file E conf (s\<lparr>pnew_l := [], pfinished_l := [], prog_pid_hash := hash,
       exec_cpus := cs, CMTAvail := False, DTSAvail := False, PLTAvail := False, TurboModeON := False,
       MBMTAvail := False, MBMLAvail := False, events_heap := h, mem_bm := set_memset m\<rparr>) = Inr u" (is "parse_file E conf ?s = Inr u")
    and t: "Inr (u\<lparr>exec_timer := tsc_init (exec_timer u)\<rparr>) = (Inr t :: sys res)"
    and hash_init: "hash_init (heap_mem_ok E) MAX_PROGS = Inr hash"
    using assms(2) unfolding init_state_def
    by (auto simp: get_mems_all_def with_log_def ask_Inr guardR_eq_Inr elim!: bindR_E bindR_pairE split: option.splits)
  note h = heap_init_empty [OF h total_preorder_events]
  have hash: "hash_wf hash" "hash_map hash = Map.empty"
    using hash_empty_wf [of MAX_PROGS] hash_init by (simp_all add: MAX_PROGS_def hash_init_Inr)
  have inv: "heap_inv (event_heap ?s)"
    by (rule heap_inv_cong [OF h(1)]) (simp_all add: h(2) total_preorder_events)
  have "selection_ok ?s"
    using assms(1) inv by (auto simp: selection_ok_def queue_ok_def h(2) lists_ok_def booted_def sched_lists_def)
  then have "loop_ok ?s"
    using assms(1) hash by (auto simp: loop_ok_def arriving_def in_use_def booted_def h(2) sched_lists_def)
  moreover have "evolves ?s u"
    by (rule parse_file_evolves [OF u])
  moreover have "qt_event \<notin># queue ?s"
    by (simp add: h(2))
  moreover have "still u t"
    using t by (auto simp: still_def quantum_frame_def pool_def)
  ultimately show "loop_ok t" and "qt_event \<notin># queue t"
    using evolves_trans [OF _ evolve.R_still] unfolding evolves_def by blast+
qed

lemma ev_prog_of_tv0 [simp]: "ev_prog_of (s\<lparr>tv0 := x\<rparr>) = ev_prog_of s"
  by (simp add: ev_prog_of_def fun_eq_iff)

lemma running_tv0: "running_ok s \<Longrightarrow> tv_norm x \<Longrightarrow> running_ok (s\<lparr>tv0 := x\<rparr>)"
  by (simp add: running_ok_def loop_ok_def selection_ok_def queue_ok_def event_heap_def arriving_def
      lists_ok_def event_ok_def arrival_def in_use_def sched_lists_def cong: if_cong)

context executor_policy
begin

lemma main_start_running:
  assumes boot: "booted s" and clock: "\<forall>n. tv_norm (tod E n)" and run: "main_start E S conf cpus_str s = Inr t"
  shows "running_ok t"
proof -
  obtain u v where r: "init_state E conf cpus_str s = Inr u" "sched_init S E u = Inr v"
    and t: "with_ticks E (\<lambda>t s. with_tod E (\<lambda>now s. Inr (s\<lparr>tv0 := now\<rparr>)) (s\<lparr>exec_timer := tsc_start t (exec_timer s)\<rparr>)) v = (Inr t :: sys res)"
    using run unfolding main_start_def main_begin_def install_signal_handlers_def
    by (auto simp: ask_Inr elim!: bindR_E split: option.splits)
  have v: "running_ok v"
    by (rule init_law [OF init_state_ok [OF boot r(1)] r(2)])
  from t obtain n tm k where t': "t = (v\<lparr>tsc_n := k, exec_timer := tm, tod_n := n\<rparr>)\<lparr>tv0 := tod E (tod_n v)\<rparr>"
    by (auto simp: with_ticks_simp with_tod_simp)
  have "still v (v\<lparr>tsc_n := k, exec_timer := tm, tod_n := n\<rparr>)" (is "still v ?v")
    by (simp add: still_def quantum_frame_def pool_def)
  with v have w: "running_ok ?v"
    using running_evolves evolve.R_still by blast
  with clock show ?thesis
    unfolding t' by (intro running_tv0) simp_all
qed

lemma reached:
  assumes "booted s0" and "\<forall>n. tv_norm (tod E n)" and "main_start E S conf cpus_str s0 = Inr s"
    and "executor_run E S s t"
  shows "running_ok t \<and> (\<exists>r. main_round E S ws t = Some r)"
  using run_keeps [OF assms(4) main_start_running [OF assms(1-3)]] main_round_total assms(2) by blast

end

section \<open>The four policies keep the contract\<close>

lemma policy_init_running:
  assumes ok: "loop_ok s" and out: "qt_event \<notin># queue s" and run: "policy_init E s = Inr t"
  shows "running_ok t"
proof -
  obtain s1 s2 c m f ti u where r: "print_cpu_characteristics E s = Inr s1"
      "read_instr_from_file f (None, None) (target_instr (sch (upd_sch (init_sched c (waiting_nr s2)) s2))) = Inr ti"
      "push_event E qt_event (set_qt_event qt (upd_sch (\<lambda>sc. sc\<lparr>target_instr := ti\<rparr>)
          (upd_sch (init_sched c (waiting_nr s2)) s2))) = Inr u"
      "with_tod E (\<lambda>now s. Inr (upd_sch (\<lambda>sc. sc\<lparr>sched_start := sched_ms now\<rparr>) s)) u = (Inr t :: sys res)"
    and s2: "sched_open_results_files E (s1\<lparr>mach := m\<rparr>) = Inr s2"
    using run unfolding policy_init_def Let_def
    by (auto elim!: bindR_E split: if_splits option.splits prod.splits)
  have "quantum_frame s s1"
    using r(1) by (auto simp: print_cpu_characteristics_def quantum_frame_def pool_def elim!: bindR_E)
  also have "quantum_frame s1 (upd_sch (\<lambda>sc. sc\<lparr>target_instr := ti\<rparr>)
          (upd_sch (init_sched c (waiting_nr s2)) s2))" (is "quantum_frame s1 ?s")
    using s2 by (auto simp: sched_open_results_files_def quantum_frame_def pool_def upd_sch_def init_sched_def split: if_splits)
  finally have "evolves s ?s"
    by (rule evolves_frame)
  with ok out have "running_ok u"
    by (intro arm_running [OF _ _ r(3)]) (simp_all add: evolves_def)
  moreover have "framed evolves u (with_tod E (\<lambda>now s. Inr (upd_sch (\<lambda>sc. sc\<lparr>sched_start := sched_ms now\<rparr>) s)) u)"
    by (intro evolve.framed_with_tod evolve.framed_still still_sch) simp_all
  ultimately show ?thesis
    using r(4) running_evolves framedD by blast
qed

sublocale sched_policy \<subseteq> executor: executor_policy "policy_scheduler nm P" "policy_qexpired P" for nm
  by unfold_locales (simp_all add: policy_scheduler_def rebalance_evolves policy_init_running)

end
