(* ===== verification/Samples.thy ===== *)
theory Samples
  imports SchedCommon
begin

text \<open>
  Concrete programs and states that the properties are applied to: an environment in which every
  request succeeds, a machine of six cores, and the executor's state with given programs.
\<close>

definition sample_tsc :: tsc where
  "sample_tsc = \<lparr>ticks = 0, last_read = 0\<rparr>"

definition sample_stats :: aff_stats where
  "sample_stats = \<lparr>waiting = sample_tsc, total_running = sample_tsc, running = replicate 6 sample_tsc,
     events_tmp = replicate 7 (replicate 6 0), events = replicate 7 (replicate 6 0),
     L3OccupancyMetric = None, DTSMetric = None, PLTMetric = None, st_cpu = 6, st_events_nr = 7,
     stats_on = True\<rparr>"

text \<open>The data of a program of a class, with its progress and its memory reads.\<close>

definition sample_pd :: "class_type \<Rightarrow> u64 \<Rightarrow> u64 \<Rightarrow> prog_data" where
  "sample_pd cls rat reads = \<lparr>gang_id = 0, core_id = 0, fresh = False, killed = False, ipc_alone = 1000,
     pd_llc_alone = 1000000, pd_instr_retd_sum = 0, pd_ideal_instr = 0, pd_ratio = rat, category = cls,
     waiting_time = 0, pd_cpu = 0, pd_times_cpu = 0, pd_cores_needed = 1, respawned = False, init_id = 0,
     prg = ''p'', run_status = RS_STOPED, tm_wstart = 0, tm_wstop = 0, tm_rstart = 0, tm_rstop = 0,
     tm_running = 0, tm_waiting = 0, stats = sample_stats, instr_retd = 0, unh_cycles = 0, llc_misses = 0,
     l1_repl = 0, l2_in = 0, pd_mem_reads = 0, pd_sum_mem_reads = reads, avg_mem_reads = 0, fitness = 0,
     llc_occupancy = 0, dts_temperature = 0, plt_temperature = 0\<rparr>"

definition sample_prog :: "int \<Rightarrow> prog_data option \<Rightarrow> aff_prog" where
  "sample_prog ident pd = \<lparr>start_time = 0, prog_id = ident, cmd = ''p'', prog_pid = ident, shell_pid = ident,
     cpuset = [], cores_needed = 1, timer = sample_tsc, sched_data = pd, lx_data = None, mem_needed = 0, thr_needed = 1,
     thr_real = 1, ratio = 0, instr_retd_sum = 0, ideal_instr = 0, sum_mem_reads = 0, mem_reads = 0,
     times_cpu = 0, llc_alone = 0, prog_shm = (\<lambda>_. 0)\<rparr>"

definition sample_sched :: "u64 list \<Rightarrow> u64 list \<Rightarrow> sched" where
  "sample_sched pall psch = \<lparr>progs_all = pall, progs_sch = psch, total_tics = 1, monitor_wnd = 9, progs_nr = 2,
     progs_init = 2, progs_left = 2, progs_fnsh = 0, stop_execution = False, do_respawn = True,
     pkgEnergyCounter = 0, dramEnergyCounter = 0, UncMCReads = 0, UncMCWrites = 0, oc_dts_temperature = 0,
     oc_plt_temperature = 0, cntrs = None, files_open = True, total_progs = [None, None],
     instr_progs = [0, 0], total_instr = [0, 0], total_cycles = [0, 0], last_instr = [0, 0],
     target_instr = [0, 0], prog_times_finished = [0, 0], quanta = [0, 0], finish_time = [0, 0],
     total_rtime = [0, 0], total_wtime = [0, 0], sched_start = 0\<rparr>"

definition sample_sys :: "(u64 \<Rightarrow> aff_prog option) \<Rightarrow> u64 list \<Rightarrow> u64 list \<Rightarrow> sys" where
  "sample_sys ps pall psch = \<lparr>events_heap = \<lparr>heap_da = \<lparr>elems = (\<lambda>_. 0), elems_nr = 16, elem_size = 8,
       next_idx = 0, alloc_grain = 16\<rparr>, leq_fn = ul_leq\<rparr>, events = Map.empty, progs = ps, pnew_l = [],
     pfinished_l = [], waiting_nr = 0, new_nr = 0, running_nr = 2, finished_nr = 0,
     exec_cpus = [0, 1, 2, 3, 4, 5], prog_pid_hash = hash_empty 128, tv0 = \<lparr>tv_sec = 0, tv_usec = 0\<rparr>,
     massacre = False, reset_qt = False, running_core = 0, CMTAvail = False, DTSAvail = False,
     PLTAvail = False, TurboModeON = False, MBMTAvail = False, MBMLAvail = False, total_quantums = 1, exec_timer = sample_tsc,
     sch = sample_sched pall psch,
     lx = \<lparr>lx_sched_time = 0, lx_total_rtime = [0, 0], lx_finish = [0, 0], lx_quanta = [0, 0],
       lx_average_rtime = [0, 0], lx_times_target = [0, 0], lx_cur_time = [0, 0], energy_open = True,
       cpu_clock_n = 0\<rparr>,
     mach = \<lparr>msr = (\<lambda>_ _. 0), msr_ok = (\<lambda>_ _. True), pci = (\<lambda>_ _. 0)\<rparr>,
     mem_bm = [0], sigchld_blocked = False, mhz = (\<lambda>_. 2400), mhz_runs = 0, tod_n = 0, tsc_n = 0, fork_n = 0, next_addr = 100, acts = []\<rparr>"

text \<open>A display of a mask: its processors, separated by commas.\<close>

fun display :: "nat list \<Rightarrow> string" where
  "display [] = []"
| "display [c] = show_nat c"
| "display (c # cs) = show_nat c @ CHR '','' # display cs"

text \<open>A freezer in which every group is frozen.\<close>

definition frozen_fs :: freezer_fs where
  "frozen_fs = example_fs\<lparr>groups := (\<lambda>_. Some FRZR_FROZEN)\<rparr>"

definition sample_env :: env where
  "sample_env = \<lparr>tod = (\<lambda>n. \<lparr>tv_sec = int n, tv_usec = 0\<rparr>), tsc_rd = (\<lambda>n. of_nat n), fork_pid = (\<lambda>n. int n + 1000),
     app_pid = (\<lambda>n. int n + 1000), child_fs = (\<lambda>n k. frozen_fs), heap_mem_ok = (\<lambda>_. True), heap_block = (\<lambda>_. 0), sys_ok = (\<lambda>_. True),
     cpus_nbits = 64, exec_fd = 3, prog_fd = (\<lambda>_. 4), prog_junk = sample_prog 0 None,
     data_junk = sample_pd NONE 0 0, procr = sample_processor, cpu_clock = (\<lambda>_. Some (1, 0)),
     linux_junk = \<lparr>lx_init_id = 0, lx_killed = False, lx_ts = (0, 0), lx_msecs = 0\<rparr>, fl = (\<lambda>x. x), pci_dev = (\<lambda>_. None),
     displaylist = display, mhz_script = (\<lambda>_. Some (''2400'' @ [CHR 0x0A])), mhz_junk = [CHR 0x00], numa_mems = None, mems_nbits = 64, fsched_ok = True, results_ok = True, target_file = Some []\<rparr>"

text \<open>Two programs, at the addresses 10 and 20.\<close>

definition sample_two :: "prog_data \<Rightarrow> prog_data \<Rightarrow> u64 \<Rightarrow> aff_prog option" where
  "sample_two pd1 pd2 = [10 \<mapsto> sample_prog 1000 (Some pd1), 20 \<mapsto> sample_prog 1001 (Some pd2)]"

text \<open>Counters without a core.\<close>

definition sample_counters :: aff_counters where
  "sample_counters = \<lparr>MCinfo = \<lparr>mc_fd = [], previousMCNormalReads = 0, previousMCFullWrites = 0,
       UncMCNormalReads = 0, UncMCFullWrites = 0\<rparr>, UpscalingFactor = 1, MaxRMID = 0, TCCActivation = 0,
     TCCOffset = 0, energy_shift = 0, energy = \<lparr>prev_pkg = 0, prev_pp0 = 0, prev_dram = 0, pkg_energy = 0,
       pp0_energy = 0, dram_energy = 0\<rparr>, cpus = [], prfcnt = []\<rparr>"

lemmas sample_simps = sample_sys_def sample_sched_def sample_env_def sample_two_def sample_prog_def sample_pd_def

end
