(* ===== verification/Fair.thy ===== *)
theory Fair
  imports Loop Samples
begin

text \<open>
  The policy \<open>fair\<close>, \<open>src/scheds/fair.c\<close>: what is its own beside the code of theory \<open>Policy\<close>. The
  programs that have made least progress relative to running alone run next.
\<close>

definition fair_collect :: "u64 \<Rightarrow> prog_data \<Rightarrow> prog_data res" where
  "fair_collect reads pd = collect_ipc pd"

definition fair_progress :: "bool \<Rightarrow> u64 \<Rightarrow> prog_data \<Rightarrow> prog_data res" where
  "fair_progress monitoring unh pd = (if monitoring then Inr pd else update_progress unh pd)"

definition fair_finish :: "prog_data \<Rightarrow> prog_data res" where
  "fair_finish pd = update_progress (unh_cycles pd) pd"

definition fair_inherit :: "prog_data \<Rightarrow> aff_prog \<Rightarrow> aff_prog" where
  "fair_inherit pd prog = prog\<lparr>thr_real := ipc_alone pd, instr_retd_sum := pd_instr_retd_sum pd,
     ideal_instr := pd_ideal_instr pd\<rparr>"

definition fair_pick :: "env \<Rightarrow> sys \<Rightarrow> sys res" where
  "fair_pick E s = bindR (sort_all s) (\<lambda>s. bindR (fill_rest_cores E (0, s)) (\<lambda>(_, s). Inr s))"

definition fair_policy :: policy where
  "fair_policy = \<lparr>pol_collect = fair_collect, pol_progress = fair_progress, pol_finish = fair_finish,
     pol_window = (\<lambda>n. 2 * n), pol_inherit = fair_inherit, pol_pick = fair_pick, pol_timed = False\<rparr>"

definition fair_scheduler :: aff_scheduler where
  "fair_scheduler = policy_scheduler ''fair'' fair_policy"

lemma fair_pick_picks:
  assumes "lists_ok s" and "fair_pick E s = Inr t"
  shows "\<exists>c. picking E (0, s) (c, t)"
proof -
  obtain u c where u: "sort_all s = Inr u" "fill_rest_cores E (0, u) = Inr (c, t)"
    using assms(2) by (auto simp: fair_pick_def res_simps)
  have su: "quiet s u"
    by (rule sort_all_quiet [OF u(1)])
  then have "lists_ok u"
    using assms(1) keeps_lists_ok by (auto simp: quiet_def)
  from picking_quiet [OF su fill_rest_cores_picks [OF u(2) this]] show ?thesis
    by blast
qed

interpretation fair: sched_policy fair_policy
  by unfold_locales (simp add: fair_policy_def fair_pick_picks)

section \<open>Properties\<close>

text \<open>C7: \<open>fair\<close> runs those programs that have made least progress. When it picks from a list of
  programs none of which is on a core, the programs are split into those that run, in the order of
  their progress, and those that wait, and no program that runs has made more progress than one
  that waits. No program is lost, and none waits unless the cores asked for add up to all cores.\<close>

theorem fair_picks_least_progress:
  assumes "lists_ok s" and "progs_sch (sch s) = []" and "fair_pick E s = Inr t"
  shows "mset (progs_sch (sch t)) + mset (progs_all (sch t)) = mset (progs_all (sch s))
    \<and> sorted (map (get_value s) (progs_sch (sch t)))
    \<and> (\<forall>p \<in> set (progs_sch (sch t)). \<forall>q \<in> set (progs_all (sch t)). get_value s p \<le> get_value s q)
    \<and> (progs_all (sch t) \<noteq> [] \<longrightarrow> sum_list (map (needs s) (progs_sch (sch t))) = MAX_CORES)"
proof -
  let ?xs = "qsrt_list (get_value s) ASC (progs_all (sch s))"
  obtain u c where u: "sort_all s = Inr u" "fill_rest_cores E (0, u) = Inr (c, t)"
    using assms(3) by (auto simp: fair_pick_def res_simps)
  note su = sort_all_sorts [OF u(1)]
  then have lists: "progs_all (sch u) = ?xs" "progs_sch (sch u) = []" and needs: "needs u = needs s"
    using assms(2) sort_all_quiet [OF u(1)] by (simp_all add: upd_sch_def quiet_def)
  have "distinct ?xs"
    using assms(1) mset_eq_imp_distinct_iff [OF mset_qsrt_list] by (auto simp: lists_ok_def)
  then obtain k where k: "progs_sch (sch t) = take k ?xs" "progs_all (sch t) = drop k ?xs" "k \<le> length ?xs"
      "c = sum_list (map (needs s) (take k ?xs))" "k < length ?xs \<longrightarrow> c = MAX_CORES"
    using fill_prefix [of E ?xs 0 u c t] u(2) lists needs by (auto simp: fill_rest_cores_def)
  have "sorted (map (get_value s) ?xs)"
    using qsrt_list_sorted [of ASC "get_value s" "progs_all (sch s)"]
    by (simp add: sorted_wrt_map before_def not_less)
  then have "sorted (map (get_value s) (take k ?xs @ drop k ?xs))"
    by simp
  then have sorted: "sorted (map (get_value s) (take k ?xs))"
      "\<forall>p \<in> set (take k ?xs). \<forall>q \<in> set (drop k ?xs). get_value s p \<le> get_value s q"
    unfolding map_append sorted_append by auto
  have "mset (take k ?xs) + mset (drop k ?xs) = mset (progs_all (sch s))"
    unfolding mset_append [symmetric] append_take_drop_id by simp
  with sorted k show ?thesis
    by auto
qed

theorem fair_picks_least_progress_witness:
  "\<exists>t. fair_pick sample_env (sample_sys (sample_two (sample_pd BW 700 0) (sample_pd CS 300 0)) [10, 20] []) = Inr t
    \<and> progs_sch (sch t) = [20, 10]
    \<and> mset (progs_sch (sch t)) + mset (progs_all (sch t)) = {#10, 20#}"
proof -
  let ?s = "sample_sys (sample_two (sample_pd BW 700 0) (sample_pd CS 300 0)) [10, 20] []"
  have ok: "lists_ok ?s" "progs_sch (sch ?s) = []"
    by (simp_all add: lists_ok_def sched_lists_def sample_simps)
  have "case fair_pick sample_env ?s of Inr t \<Rightarrow> progs_sch (sch t) = [20, 10] | Inl _ \<Rightarrow> False"
    by code_simp
  then obtain t where t: "fair_pick sample_env ?s = Inr t" "progs_sch (sch t) = [20, 10]"
    by (auto split: sum.splits)
  with fair_picks_least_progress [OF ok t(1)] show ?thesis
    by (auto simp: sample_simps)
qed

end
