(* ===== verification/Perf.thy ===== *)
theory Perf
  imports Loop Samples
begin

text \<open>
  The policy \<open>perf\<close>, \<open>src/scheds/perf.c\<close>: what is its own beside the code of theory \<open>Policy\<close>. The
  program that has waited longest runs next, and with it those that fill the memory bandwidth
  best. The functions that are a copy of the ones of \<open>fair\<close> are those of theory \<open>Policy\<close>.
\<close>

section \<open>Measurements\<close>

definition perf_collect :: "u64 \<Rightarrow> prog_data \<Rightarrow> prog_data res" where
  "perf_collect reads pd = bindR (collect_ipc pd) (\<lambda>pd.
     Inr (pd\<lparr>pd_sum_mem_reads := (if category pd = BW then reads else pd_mem_reads pd)\<rparr>))"

text \<open>The waiting time is an \<open>int\<close>, assigned to an unsigned field.\<close>

definition perf_progress :: "bool \<Rightarrow> u64 \<Rightarrow> prog_data \<Rightarrow> prog_data res" where
  "perf_progress monitoring unh pd = Inr (pd\<lparr>pd_ratio := u64_of_int (waiting_time pd)\<rparr>)"

definition perf_inherit :: "prog_data \<Rightarrow> aff_prog \<Rightarrow> aff_prog" where
  "perf_inherit pd prog = prog\<lparr>thr_real := ipc_alone pd, instr_retd_sum := pd_instr_retd_sum pd,
     ideal_instr := pd_ideal_instr pd, sum_mem_reads := pd_sum_mem_reads pd,
     llc_alone := pd_llc_alone pd\<rparr>"

section \<open>Picking programs\<close>

text \<open>The first program of all that has waited longest is taken out of its list.\<close>

definition longer_waiting :: "sys \<Rightarrow> u64 \<Rightarrow> u64 \<Rightarrow> u64 res" where
  "longer_waiting s p mx = bindR (get_pd s p) (\<lambda>pd. bindR (get_pd s mx) (\<lambda>max_pd.
     Inr (if waiting_time pd > waiting_time max_pd then p else mx)))"

definition perf_max_waiting :: "sys \<Rightarrow> (u64 option \<times> sys) res" where
  "perf_max_waiting s = (case progs_all (sch s) of
      [] \<Rightarrow> Inr (None, s)
    | p # ps \<Rightarrow> bindR (foldR (longer_waiting s) (p # ps) p) (\<lambda>mx. Inr (Some mx, unlink mx s)))"

text \<open>The first program whose reads alone are closest to the rest of the bandwidth; the distance
  of every program is stored on the way.\<close>

definition fitter :: "int \<Rightarrow> u64 \<Rightarrow> u64 \<times> sys \<Rightarrow> (u64 \<times> sys) res" where
  "fitter bw_rem p ms = (case ms of (mn, s) \<Rightarrow>
     bindR (upd_pd p (\<lambda>pd. pd\<lparr>fitness := bw_distance bw_rem (pd_sum_mem_reads pd)\<rparr>) s) (\<lambda>s.
     bindR (get_pd s p) (\<lambda>pd. bindR (get_pd s mn) (\<lambda>min_pd.
     Inr (if fitness pd < fitness min_pd then p else mn, s)))))"

definition perf_max_fitness :: "int \<Rightarrow> sys \<Rightarrow> (u64 option \<times> sys) res" where
  "perf_max_fitness bw_rem s = (case progs_all (sch s) of
      [] \<Rightarrow> Inr (None, s)
    | p # ps \<Rightarrow> bindR (foldR (fitter bw_rem) (p # ps) (p, s)) (\<lambda>(mn, s). Inr (Some mn, unlink mn s)))"

definition perf_next :: "int \<Rightarrow> int \<Rightarrow> sys \<Rightarrow> (u64 option \<times> sys) res" where
  "perf_next cores bw_rem s = (if cores = 0 then perf_max_waiting s else perf_max_fitness bw_rem s)"

text \<open>The program that is next comes out of the list of all programs.\<close>

lemma longer_waiting_mem:
  "foldR (longer_waiting s) ps mx = Inr m \<Longrightarrow> m \<in> set (mx # ps)"
  by (rule foldR_invariant [where P = "\<lambda>m. m \<in> set (mx # ps)"])
    (auto simp: longer_waiting_def res_simps)

lemma fitter_calm:
  assumes "foldR (fitter bw) ps (mx, s) = Inr (m, t)"
  shows "calm s t \<and> m \<in> set (mx # ps)"
proof -
  have "case (m, t) of (m, t) \<Rightarrow> calm s t \<and> m \<in> set (mx # ps)"
  proof (rule foldR_invariant [OF assms, where P = "\<lambda>(m, t). calm s t \<and> m \<in> set (mx # ps)"])
    show "case (mx, s) of (m, t) \<Rightarrow> calm s t \<and> m \<in> set (mx # ps)"
      by simp
    show "case w of (m, t) \<Rightarrow> calm s t \<and> m \<in> set (mx # ps)"
      if "x \<in> set ps" "case v of (m, t) \<Rightarrow> calm s t \<and> m \<in> set (mx # ps)" "fitter bw x v = Inr w" for x v w
    proof -
      obtain a u b z where v: "v = (a, u)" "w = (b, z)"
        by (cases v; cases w) auto
      from that(3) have upd: "upd_pd x (\<lambda>pd. pd\<lparr>fitness := bw_distance bw (pd_sum_mem_reads pd)\<rparr>) u = Inr z"
          and b: "b = x \<or> b = a"
        unfolding v fitter_def by (auto simp: bindR_eq_Inr)
      from calm_upd_pd [OF upd] have "calm u z" .
      then show ?thesis
        using that(1,2) b calm_trans unfolding v by auto
    qed
  qed
  then show ?thesis by simp
qed

lemma perf_next_takes:
  assumes "perf_next cores bw s = Inr (Some p, t)"
  obtains u where "calm s u" "t = unlink p u" "p \<in> set (progs_all (sch s))"
proof (cases "cores = 0")
  case True
  then obtain q qs where q: "progs_all (sch s) = q # qs" "foldR (longer_waiting s) (q # qs) q = Inr p" "t = unlink p s"
    using assms by (auto simp: perf_next_def perf_max_waiting_def bindR_eq_Inr split: list.splits)
  show thesis
    using that [OF calm_refl q(3)] longer_waiting_mem [OF q(2)] q(1) by auto
next
  case False
  then obtain q qs u where q: "progs_all (sch s) = q # qs" "foldR (fitter bw) (q # qs) (q, s) = Inr (p, u)" "t = unlink p u"
    using assms by (auto simp: perf_next_def perf_max_fitness_def bindR_eq_Inr split: list.splits prod.splits)
  show thesis
    using that [of u] q(3) fitter_calm [OF q(2)] q(1) by auto
qed

lemma perf_next_none: "perf_next cores bw s = Inr (None, t) \<Longrightarrow> t = s"
  by (auto simp: perf_next_def perf_max_waiting_def perf_max_fitness_def bindR_eq_Inr
      split: if_splits list.splits prod.splits)

lemma take_cores_shrinks:
  assumes "perf_next cores bw s = Inr (Some p, t)" and "take_cores E p (c, add_sch p t) = Inr (c', u)"
  shows "length (progs_all (sch u)) < length (progs_all (sch s))"
proof -
  obtain v where v: "calm s v" "t = unlink p v" "p \<in> set (progs_all (sch s))"
    using perf_next_takes [OF assms(1)] by blast
  have "progs_all (sch u) = removeAll p (progs_all (sch s))"
    using take_cores_still [OF assms(2)] v(1) unfolding v(2)
    by (simp add: calm_def still_def add_sch_def upd_sch_def unlink_def)
  then show ?thesis
    using length_removeAll_mem [OF v(3)] by simp
qed

text \<open>The loop ends: each round takes a program out of the list of all programs.\<close>

function perf_fill :: "env \<Rightarrow> int \<Rightarrow> int \<Rightarrow> sys \<Rightarrow> sys res" where
  "perf_fill E cores bw_rem s =
     (if cores < MAX_CORES
      then bindR (perf_next cores bw_rem s) (\<lambda>(prog, s). case prog of
           None \<Rightarrow> Inr s
         | Some p \<Rightarrow> bindR (get_pd s p) (\<lambda>pd.
             bindR (take_cores E p (cores, add_sch p s)) (\<lambda>(cores, s).
             perf_fill E cores (bw_spend bw_rem (pd_sum_mem_reads pd)) s)))
      else Inr s)"
  by pat_completeness auto
termination
  by (relation "measure (\<lambda>(E, cores, bw_rem, s). length (progs_all (sch s)))")
    (auto intro: take_cores_shrinks)

declare perf_fill.simps [simp del]

definition perf_pick :: "env \<Rightarrow> sys \<Rightarrow> sys res" where
  "perf_pick E s = perf_fill E 0 (BW_LIMIT - 291250000) s"

lemma perf_fill_picks: "perf_fill E cores bw s = Inr t \<Longrightarrow> \<exists>c. picking E (cores, s) (c, t)"
proof (induction E cores bw s rule: perf_fill.induct)
  case (1 E cores bw s)
  consider (stop) "t = s" | (take) p pd u c v where "perf_next cores bw s = Inr (Some p, u)" "get_pd u p = Inr pd"
      "take_cores E p (cores, add_sch p u) = Inr (c, v)" "perf_fill E c (bw_spend bw (pd_sum_mem_reads pd)) v = Inr t"
      "cores < MAX_CORES"
  proof (cases "cores < MAX_CORES")
    case False
    with "1.prems"(1) stop show thesis
      by (simp add: perf_fill.simps [of E cores bw s])
  next
    case True
    with "1.prems"(1) obtain prog u where u: "perf_next cores bw s = Inr (prog, u)"
        "(case prog of None \<Rightarrow> Inr u | Some p \<Rightarrow> bindR (get_pd u p) (\<lambda>pd.
             bindR (take_cores E p (cores, add_sch p u)) (\<lambda>(cores, s).
             perf_fill E cores (bw_spend bw (pd_sum_mem_reads pd)) s))) = Inr t"
      unfolding perf_fill.simps [of E cores bw s] by (auto simp: bindR_eq_Inr)
    show thesis
    proof (cases prog)
      case None
      with u perf_next_none stop show thesis by auto
    next
      case (Some p)
      with u take True show thesis by (auto simp: bindR_eq_Inr)
    qed
  qed
  then show ?case
  proof cases
    case stop
    then show ?thesis by (auto intro: picking_done)
  next
    case (take p pd u c v)
    obtain w where w: "calm s w" "u = unlink p w" "p \<in> set (progs_all (sch s))"
      using perf_next_takes [OF take(1)] by blast
    have sw: "quiet s w"
      by (rule calm_quiet [OF w(1)])
    have "picking E (cores, w) (c, v)"
      by (rule picking_one) (use w take(3) in \<open>auto simp: calm_def still_def sched_lists_def move2sch_def\<close>)
    then have sv: "picking E (cores, s) (c, v)"
      by (rule picking_quiet [OF sw])
    have "\<exists>c'. picking E (c, v) (c', t)"
      using "1.IH" [OF take(5,1) refl refl take(2,3) refl take(4)] .
    then show ?thesis
      using picking_trans [OF sv] by blast
  qed
qed

definition perf_policy :: policy where
  "perf_policy = \<lparr>pol_collect = perf_collect, pol_progress = perf_progress, pol_finish = Inr,
     pol_window = (\<lambda>n. n), pol_inherit = perf_inherit, pol_pick = perf_pick, pol_timed = False\<rparr>"

interpretation perf: sched_policy perf_policy
  by unfold_locales (simp add: perf_policy_def perf_pick_def perf_fill_picks)

section \<open>The functions of the file\<close>

text \<open>The file has its own copies of the functions of theory \<open>Policy\<close>; \<open>elem_move2tail\<close> is called with each
  of the two lists.\<close>

definition perf_monitoring_phase :: "sys \<Rightarrow> bool" where
  "perf_monitoring_phase = monitoring_phase"

definition perf_elem_move2all :: "u64 \<Rightarrow> sys \<Rightarrow> sys" where
  "perf_elem_move2all = move2all"

definition perf_elem_move2sch :: "u64 \<Rightarrow> sys \<Rightarrow> sys" where
  "perf_elem_move2sch = move2sch"

definition perf_move_progs_to_all :: "sys \<Rightarrow> sys" where
  "perf_move_progs_to_all = move_progs_to_all"

definition perf_get_value :: "sys \<Rightarrow> u64 \<Rightarrow> int" where
  "perf_get_value = get_value"

definition perf_monitor :: "env \<Rightarrow> sys \<Rightarrow> sys res" where
  "perf_monitor = monitor"

definition perf_init :: "env \<Rightarrow> sys \<Rightarrow> sys res" where
  "perf_init = policy_init"

definition perf_kill_app :: "env \<Rightarrow> u64 \<Rightarrow> sys \<Rightarrow> sys res" where
  "perf_kill_app = kill_app"

definition perf_kill_all :: "env \<Rightarrow> sys \<Rightarrow> sys res" where
  "perf_kill_all = kill_all"

definition perf_thaw_sched :: "env \<Rightarrow> sys \<Rightarrow> sys res" where
  "perf_thaw_sched = thaw_sched"

definition perf_freeze_sched :: "env \<Rightarrow> sys \<Rightarrow> sys res" where
  "perf_freeze_sched = freeze_sched perf_policy"

definition perf_schedule :: "env \<Rightarrow> sys \<Rightarrow> sys res" where
  "perf_schedule = schedule perf_policy"

definition perf_respawn :: "env \<Rightarrow> u64 \<Rightarrow> sys \<Rightarrow> sys res" where
  "perf_respawn = respawn perf_policy"

definition perf_rebalance :: "env \<Rightarrow> sys \<Rightarrow> sys res" where
  "perf_rebalance = policy_rebalance perf_policy"

definition perf_qexpired :: "env \<Rightarrow> timeval \<Rightarrow> sys \<Rightarrow> sys res" where
  "perf_qexpired = policy_qexpired perf_policy"

definition perf_scheduler :: aff_scheduler where
  "perf_scheduler = policy_scheduler ''perf'' perf_policy"

section \<open>Properties\<close>

text \<open>What the two searches compare: the waiting time of a program, and how far its reads are from
  the rest of the bandwidth.\<close>

definition waits :: "sys \<Rightarrow> u64 \<Rightarrow> int" where
  "waits s p = (case get_pd s p of Inr pd \<Rightarrow> waiting_time pd | Inl _ \<Rightarrow> 0)"

definition distance :: "int \<Rightarrow> sys \<Rightarrow> u64 \<Rightarrow> u64" where
  "distance bw s p = (case get_pd s p of Inr pd \<Rightarrow> bw_distance bw (pd_sum_mem_reads pd) | Inl _ \<Rightarrow> 0)"

definition fitness_at :: "sys \<Rightarrow> u64 \<Rightarrow> u64" where
  "fitness_at s p = (case get_pd s p of Inr pd \<Rightarrow> fitness pd | Inl _ \<Rightarrow> 0)"

lemma longer_waiting_max: "foldR (longer_waiting s) ps mx = Inr m \<Longrightarrow> \<forall>q \<in> set (mx # ps). waits s q \<le> waits s m"
proof (induction ps arbitrary: mx)
  case Nil
  then show ?case by simp
next
  case (Cons p ps)
  then obtain x where x: "longer_waiting s p mx = Inr x" "foldR (longer_waiting s) ps x = Inr m"
    by (auto simp: bindR_eq_Inr)
  have "waits s p \<le> waits s x" "waits s mx \<le> waits s x"
    using x(1) by (auto simp: longer_waiting_def bindR_eq_Inr waits_def)
  with Cons.IH [OF x(2)] show ?case by force
qed

lemma fitter_step:
  assumes "fitter bw p (mn, s) = Inr (m, t)" and "mn = p \<or> fitness_at s mn = distance bw s mn"
  shows "distance bw t = distance bw s" and "fitness_at t m = distance bw s m"
    and "distance bw s m \<le> distance bw s p" and "distance bw s m \<le> distance bw s mn"
proof -
  obtain prog pd mpd where a: "progs s p = Some prog" "sched_data prog = Some pd"
      "t = s\<lparr>progs := (progs s)(p \<mapsto> prog\<lparr>sched_data := Some (pd\<lparr>fitness := bw_distance bw (pd_sum_mem_reads pd)\<rparr>)\<rparr>)\<rparr>"
      "get_pd t mn = Inr mpd" "m = (if bw_distance bw (pd_sum_mem_reads pd) < fitness mpd then p else mn)"
    using assms(1) by (auto simp: fitter_def bindR_eq_Inr upd_pd_Inr get_pd_def get_prog_def)
  show d: "distance bw t = distance bw s"
    using a(1,2) by (auto simp: fun_eq_iff distance_def get_pd_def get_prog_def a(3))
  have fp: "fitness_at t p = distance bw s p" "distance bw s p = bw_distance bw (pd_sum_mem_reads pd)"
    using a(1,2) by (simp_all add: fitness_at_def distance_def get_pd_def get_prog_def a(3))
  have fm: "fitness mpd = fitness_at t mn"
    by (simp add: fitness_at_def a(4))
  have "fitness_at t mn = distance bw s mn"
  proof (cases "mn = p")
    case True
    with fp show ?thesis by simp
  next
    case False
    then have "fitness_at t mn = fitness_at s mn"
      by (simp add: fitness_at_def get_pd_def get_prog_def a(3))
    with False assms(2) show ?thesis by simp
  qed
  with fp fm a(5) show "fitness_at t m = distance bw s m" "distance bw s m \<le> distance bw s p"
      "distance bw s m \<le> distance bw s mn"
    by (auto simp: not_less)
qed

lemma fitter_min:
  "foldR (fitter bw) ps (mn, s) = Inr (m, t) \<Longrightarrow> fitness_at s mn = distance bw s mn \<or> (\<exists>qs. ps = mn # qs) \<Longrightarrow>
     \<forall>q \<in> set (mn # ps). distance bw s m \<le> distance bw s q"
proof (induction ps arbitrary: mn s)
  case Nil
  then show ?case by simp
next
  case (Cons p ps)
  then obtain x u where x: "fitter bw p (mn, s) = Inr (x, u)" "foldR (fitter bw) ps (x, u) = Inr (m, t)"
    by (auto simp: bindR_eq_Inr)
  note step = fitter_step [OF x(1)]
  have "mn = p \<or> fitness_at s mn = distance bw s mn"
    using Cons.prems(2) by auto
  note step = step [OF this]
  have "\<forall>q \<in> set (x # ps). distance bw s m \<le> distance bw s q"
    using Cons.IH [OF x(2)] step(1,2) by simp
  with step(3,4) show ?case by force
qed

text \<open>C6: \<open>perf\<close> picks well. On the first core it starts a program that has waited longest; on the
  others a program whose reads, alone, are closest to all that is left of the memory bandwidth (although
  the distances are stored in the programs while they are compared). The program comes from the
  list of all programs and leaves it, and nothing else moves.\<close>

theorem perf_next_best:
  assumes "perf_next cores bw s = Inr (Some p, t)"
  shows "p \<in> set (progs_all (sch s)) \<and> progs_all (sch t) = removeAll p (progs_all (sch s))
    \<and> (\<forall>q \<in> set (progs_all (sch s)).
         if cores = 0 then waits s q \<le> waits s p else distance bw s p \<le> distance bw s q)"
proof -
  obtain u where u: "calm s u" "t = unlink p u" "p \<in> set (progs_all (sch s))"
    using perf_next_takes [OF assms] by blast
  have "\<forall>q \<in> set (progs_all (sch s)). if cores = 0 then waits s q \<le> waits s p else distance bw s p \<le> distance bw s q"
  proof (cases "progs_all (sch s)")
    case Nil
    then show ?thesis by simp
  next
    case (Cons r rs)
    show ?thesis
    proof (cases "cores = 0")
      case True
      then have "foldR (longer_waiting s) (r # rs) r = Inr p"
        using assms Cons by (auto simp: perf_next_def perf_max_waiting_def bindR_eq_Inr simp del: foldR.simps)
      from longer_waiting_max [OF this] True Cons show ?thesis by simp
    next
      case False
      then obtain v where "foldR (fitter bw) (r # rs) (r, s) = Inr (p, v)"
        using assms Cons by (auto simp: perf_next_def perf_max_fitness_def bindR_eq_Inr simp del: foldR.simps)
      from fitter_min [OF this] False Cons show ?thesis by simp
    qed
  qed
  then show ?thesis
    using u by (simp add: calm_def still_def unlink_def)
qed

theorem perf_next_best_witness:
  "\<exists>t. perf_next 1 100 (sample_sys (sample_two (sample_pd BW 0 500) (sample_pd BW 0 90)) [10, 20] []) = Inr (Some 20, t)
     \<and> progs_all (sch t) = [10]"
proof -
  let ?s = "sample_sys (sample_two (sample_pd BW 0 500) (sample_pd BW 0 90)) [10, 20] []"
  have "case perf_next 1 100 ?s of Inr (p, t) \<Rightarrow> p = Some 20 | Inl _ \<Rightarrow> False"
    by code_simp
  then obtain t where "perf_next 1 100 ?s = Inr (Some 20, t)"
    by (auto split: sum.splits)
  with perf_next_best [OF this] show ?thesis
    by (auto simp: sample_simps)
qed

end
