(* ===== verification/PerfFair.thy ===== *)
theory PerfFair
  imports Loop Samples
begin

text \<open>
  The policy \<open>perf_fair\<close>, \<open>src/scheds/perf_fair.c\<close>: what is its own beside the code of theory
  \<open>Policy\<close>. The programs that have made least progress run next as long as the memory bandwidth
  lasts; the cores that are left go to those that come closest to the rest of the bandwidth. The
  functions that are a copy of the ones of \<open>fair\<close> are those of theory \<open>Policy\<close>.
\<close>

section \<open>Measurements\<close>

definition perf_fair_collect :: "u64 \<Rightarrow> prog_data \<Rightarrow> prog_data res" where
  "perf_fair_collect reads pd = bindR (collect_ipc pd) (\<lambda>pd.
     Inr (pd\<lparr>pd_sum_mem_reads := (if category pd = BW then reads else pd_mem_reads pd),
             pd_llc_alone := s32_of_u64 (llc_occupancy pd)\<rparr>))"

definition perf_fair_progress :: "bool \<Rightarrow> u64 \<Rightarrow> prog_data \<Rightarrow> prog_data res" where
  "perf_fair_progress monitoring unh pd = (if monitoring then Inr pd else update_progress unh pd)"

definition perf_fair_finish :: "prog_data \<Rightarrow> prog_data res" where
  "perf_fair_finish pd = update_progress (unh_cycles pd) pd"

definition perf_fair_inherit :: "prog_data \<Rightarrow> aff_prog \<Rightarrow> aff_prog" where
  "perf_fair_inherit pd prog = prog\<lparr>thr_real := ipc_alone pd, instr_retd_sum := pd_instr_retd_sum pd,
     ideal_instr := pd_ideal_instr pd, sum_mem_reads := pd_sum_mem_reads pd,
     llc_alone := pd_llc_alone pd\<rparr>"

section \<open>Picking programs\<close>

text \<open>The first pass, in the order of progress: a program whose reads exceed the rest of the
  bandwidth less 271250000 (a difference that is compared as unsigned) is passed over.\<close>

definition admit_step :: "env \<Rightarrow> u64 \<Rightarrow> int \<times> int \<times> sys \<Rightarrow> (int \<times> int \<times> sys) res" where
  "admit_step E p st = (case st of (bw_rem, cores, s) \<Rightarrow>
     if cores = MAX_CORES then Inr st
     else bindR (get_pd s p) (\<lambda>pd.
       if pd_sum_mem_reads pd > u64_of_int (bw_rem - 271250000) then Inr st
       else bindR (place E p (cores, s)) (\<lambda>(cores, s).
         Inr (bw_spend bw_rem (pd_sum_mem_reads pd), cores, s))))"

text \<open>The first program whose distance to the rest of the bandwidth, kept in a \<open>long long\<close>, is
  least. With no program the code takes the list head for one.\<close>

definition neighbor_fitness :: "int \<Rightarrow> u64 \<Rightarrow> int" where
  "neighbor_fitness bw reads = s64_of_u64 (bw_distance bw reads)"

definition closer :: "int \<Rightarrow> sys \<Rightarrow> u64 \<Rightarrow> u64 \<times> int \<Rightarrow> (u64 \<times> int) res" where
  "closer bw s p best = bindR (get_pd s p) (\<lambda>pd.
     let fit = neighbor_fitness bw (pd_sum_mem_reads pd)
     in Inr (if fit < snd best then (p, fit) else best))"

definition good_neighbors :: "int \<Rightarrow> sys \<Rightarrow> (u64 \<times> sys) res" where
  "good_neighbors bw s = (case progs_all (sch s) of
      [] \<Rightarrow> Inl BadAccess
    | p # ps \<Rightarrow> bindR (get_pd s p) (\<lambda>min_pd.
        bindR (foldR (closer bw s) (p # ps) (p, neighbor_fitness bw (pd_sum_mem_reads min_pd))) (\<lambda>(mn, _).
        Inr (mn, move2sch mn s))))"

lemma closer_mem:
  assumes "foldR (closer bw s) ps (mx, f) = Inr (m, g)"
  shows "m \<in> set (mx # ps)"
proof -
  have "case (m, g) of (m, g) \<Rightarrow> m \<in> set (mx # ps)"
    by (rule foldR_invariant [OF assms, where P = "\<lambda>(m, g). m \<in> set (mx # ps)"])
      (auto simp: closer_def bindR_eq_Inr Let_def split: if_splits)
  then show ?thesis by simp
qed

lemma good_neighbors_takes:
  assumes "good_neighbors bw s = Inr (p, t)"
  shows "t = move2sch p s \<and> p \<in> set (progs_all (sch s))"
proof -
  obtain q qs where q: "progs_all (sch s) = q # qs"
    using assms by (cases "progs_all (sch s)") (simp_all add: good_neighbors_def)
  with assms obtain g and pd :: prog_data where "t = move2sch p s"
      "foldR (closer bw s) (q # qs) (q, neighbor_fitness bw (pd_sum_mem_reads pd)) = Inr (p, g)"
    unfolding good_neighbors_def q list.case by (auto simp: bindR_eq_Inr simp del: foldR.simps)
  with q closer_mem [OF this(2)] show ?thesis
    by auto
qed

lemma neighbor_shrinks:
  assumes "good_neighbors bw s = Inr (p, t)" and "take_cores E p (c, t) = Inr (c', u)"
  shows "length (progs_all (sch u)) < length (progs_all (sch s))"
proof -
  have t: "t = move2sch p s" "p \<in> set (progs_all (sch s))"
    using good_neighbors_takes [OF assms(1)] by auto
  then have "progs_all (sch u) = removeAll p (progs_all (sch s))"
    using take_cores_still [OF assms(2)] by (simp add: still_def move2sch_def add_sch_def upd_sch_def unlink_def)
  then show ?thesis
    using length_removeAll_mem [OF t(2)] by simp
qed

text \<open>The loop that fills the cores takes a program out of the list of all programs in each round,
  so it ends, at the latest when it finds the list empty.\<close>

function fill_neighbors :: "env \<Rightarrow> int \<Rightarrow> int \<Rightarrow> sys \<Rightarrow> sys res" where
  "fill_neighbors E cores bw_rem s =
     (if cores \<noteq> MAX_CORES
      then bindR (good_neighbors bw_rem s) (\<lambda>(p, s).
        bindR (get_pd s p) (\<lambda>pd.
        bindR (take_cores E p (cores, s)) (\<lambda>(cores, s).
        fill_neighbors E cores (bw_spend bw_rem (pd_sum_mem_reads pd)) s)))
      else Inr s)"
  by pat_completeness auto
termination
  by (relation "measure (\<lambda>(E, cores, bw_rem, s). length (progs_all (sch s)))")
    (auto intro: neighbor_shrinks)

declare fill_neighbors.simps [simp del]

definition fill_cores :: "env \<Rightarrow> int \<times> int \<times> sys \<Rightarrow> sys res" where
  "fill_cores E st = (case st of (bw_rem, cores, s) \<Rightarrow>
     fill_left E (\<lambda>cores. fill_neighbors E cores bw_rem) cores s)"

definition perf_fair_pick :: "env \<Rightarrow> sys \<Rightarrow> sys res" where
  "perf_fair_pick E s = bindR (sort_all s) (\<lambda>s.
     bindR (foldR (admit_step E) (progs_all (sch s)) (BW_LIMIT, 0, s)) (fill_cores E))"

section \<open>The picks are a run of picks\<close>

lemma fill_neighbors_picks: "fill_neighbors E cores bw s = Inr t \<Longrightarrow> \<exists>c. picking E (cores, s) (c, t)"
proof (induction E cores bw s rule: fill_neighbors.induct)
  case (1 E cores bw s)
  show ?case
  proof (cases "cores = MAX_CORES")
    case True
    then show ?thesis
      using "1.prems"(1) unfolding fill_neighbors.simps [of E cores bw s]
      by (auto intro: picking_done)
  next
    case False
    with "1.prems"(1) obtain p u pd c v where step: "good_neighbors bw s = Inr (p, u)" "get_pd u p = Inr pd"
        "take_cores E p (cores, u) = Inr (c, v)"
        "fill_neighbors E c (bw_spend bw (pd_sum_mem_reads pd)) v = Inr t"
      unfolding fill_neighbors.simps [of E cores bw s] by (auto simp: bindR_eq_Inr)
    have "u = move2sch p s" "p \<in> sched_lists s"
      using good_neighbors_takes [OF step(1)] by (auto simp: sched_lists_def)
    with step(3) have sv: "picking E (cores, s) (c, v)"
      by (auto intro: picking_one)
    show ?thesis
      using "1.IH" [OF False step(1) refl step(2,3) refl step(4)] picking_trans [OF sv] by blast
  qed
qed

lemma admit_step_picks:
  assumes "p \<in> sched_lists (snd (snd a))" and "admit_step E p a = Inr b"
  shows "picking E (snd a) (snd b)"
proof -
  obtain bw c s where a: "a = (bw, c, s)"
    by (cases a) auto
  have "b = a \<or> (\<exists>c' t. place E p (c, s) = Inr (c', t) \<and> snd b = (c', t))"
    using assms(2) by (auto simp: a admit_step_def bindR_eq_Inr split: if_splits)
  then show ?thesis
    using assms(1) picking_place [of p s E c] by (auto simp: a intro: picking_done)
qed

lemma perf_fair_pick_picks:
  assumes "lists_ok s" and "perf_fair_pick E s = Inr t"
  shows "\<exists>c. picking E (0, s) (c, t)"
proof (rule two_pass_picks [OF assms(2) [unfolded perf_fair_pick_def] assms(1) admit_step_picks])
  fix bw c u
  assume "fill_cores E (bw, c, u) = Inr t" and "lists_ok u"
  then show "\<exists>c'. picking E (c, u) (c', t)"
    unfolding fill_cores_def prod.case by (rule fill_left_picks) (rule fill_neighbors_picks)
qed

definition perf_fair_policy :: policy where
  "perf_fair_policy = \<lparr>pol_collect = perf_fair_collect, pol_progress = perf_fair_progress,
     pol_finish = perf_fair_finish, pol_window = (\<lambda>n. n), pol_inherit = perf_fair_inherit,
     pol_pick = perf_fair_pick, pol_timed = False\<rparr>"

interpretation perf_fair: sched_policy perf_fair_policy
  by unfold_locales (simp add: perf_fair_policy_def perf_fair_pick_picks)

section \<open>The functions of the file\<close>

text \<open>The file has its own copies of the functions of theory \<open>Policy\<close>; \<open>elem_move2tail\<close> is called with each
  of the two lists.\<close>

definition perf_fair_monitoring_phase :: "sys \<Rightarrow> bool" where
  "perf_fair_monitoring_phase = monitoring_phase"

definition perf_fair_elem_move2all :: "u64 \<Rightarrow> sys \<Rightarrow> sys" where
  "perf_fair_elem_move2all = move2all"

definition perf_fair_elem_move2sch :: "u64 \<Rightarrow> sys \<Rightarrow> sys" where
  "perf_fair_elem_move2sch = move2sch"

definition perf_fair_move_progs_to_all :: "sys \<Rightarrow> sys" where
  "perf_fair_move_progs_to_all = move_progs_to_all"

definition perf_fair_get_value :: "sys \<Rightarrow> u64 \<Rightarrow> int" where
  "perf_fair_get_value = get_value"

definition perf_fair_update_progress :: "u64 \<Rightarrow> prog_data \<Rightarrow> prog_data res" where
  "perf_fair_update_progress = update_progress"

definition perf_fair_monitor :: "env \<Rightarrow> sys \<Rightarrow> sys res" where
  "perf_fair_monitor = monitor"

definition perf_fair_init :: "env \<Rightarrow> sys \<Rightarrow> sys res" where
  "perf_fair_init = policy_init"

definition perf_fair_kill_app :: "env \<Rightarrow> u64 \<Rightarrow> sys \<Rightarrow> sys res" where
  "perf_fair_kill_app = kill_app"

definition perf_fair_kill_all :: "env \<Rightarrow> sys \<Rightarrow> sys res" where
  "perf_fair_kill_all = kill_all"

definition perf_fair_thaw_sched :: "env \<Rightarrow> sys \<Rightarrow> sys res" where
  "perf_fair_thaw_sched = thaw_sched"

definition perf_fair_freeze_sched :: "env \<Rightarrow> sys \<Rightarrow> sys res" where
  "perf_fair_freeze_sched = freeze_sched perf_fair_policy"

definition perf_fair_schedule :: "env \<Rightarrow> sys \<Rightarrow> sys res" where
  "perf_fair_schedule = schedule perf_fair_policy"

definition perf_fair_respawn :: "env \<Rightarrow> u64 \<Rightarrow> sys \<Rightarrow> sys res" where
  "perf_fair_respawn = respawn perf_fair_policy"

definition perf_fair_rebalance :: "env \<Rightarrow> sys \<Rightarrow> sys res" where
  "perf_fair_rebalance = policy_rebalance perf_fair_policy"

definition perf_fair_qexpired :: "env \<Rightarrow> timeval \<Rightarrow> sys \<Rightarrow> sys res" where
  "perf_fair_qexpired = policy_qexpired perf_fair_policy"

definition perf_fair_scheduler :: aff_scheduler where
  "perf_fair_scheduler = policy_scheduler ''perf_fair'' perf_fair_policy"

section \<open>Properties\<close>

text \<open>C37: The admission check of \<open>perf_fair\<close> is off when little bandwidth is left. While the rest is at
  least 271250000 a program is passed over exactly when its reads exceed the rest less that amount;
  below it, the negative difference is compared as an unsigned number and every program (with
  fewer than 2 ^ 63 reads) is admitted, although nothing is left for it.\<close>

theorem admission_check_wraps:
  assumes "get_pd s p = Inr pd" and "cores \<noteq> MAX_CORES" and "0 \<le> bw_rem" and "bw_rem \<le> BW_LIMIT"
    and "uint (pd_sum_mem_reads pd) < 2 ^ 63"
  shows "admit_step E p (bw_rem, cores, s) =
    (if 271250000 \<le> bw_rem \<and> bw_rem - 271250000 < uint (pd_sum_mem_reads pd) then Inr (bw_rem, cores, s)
     else bindR (place E p (cores, s)) (\<lambda>(cores, s).
       Inr (max 0 (bw_rem - uint (pd_sum_mem_reads pd)), cores, s)))"
proof -
  let ?r = "pd_sum_mem_reads pd"
  have r: "0 \<le> uint ?r" "uint ?r < 9223372036854775808"
    using assms(5) by simp_all
  have "uint (u64_of_int (bw_rem - 271250000)) = (bw_rem - 271250000) mod 2 ^ 64"
    unfolding u64_of_int_def uint_word_of_int by simp
  also have "\<dots> = (if 271250000 \<le> bw_rem then bw_rem - 271250000 else bw_rem - 271250000 + 2 ^ 64)"
  proof (cases "271250000 \<le> bw_rem")
    case True
    then show ?thesis
      using assms(4) by (simp add: BW_LIMIT_def mod_pos_pos_trivial)
  next
    case False
    have "(bw_rem - 271250000 + 2 ^ 64) mod 2 ^ 64 = bw_rem - 271250000 + 2 ^ 64"
      using False assms(3) by (intro mod_pos_pos_trivial) simp_all
    with False show ?thesis
      by (simp only: mod_add_self2 if_False)
  qed
  finally have check: "?r > u64_of_int (bw_rem - 271250000) \<longleftrightarrow>
      271250000 \<le> bw_rem \<and> bw_rem - 271250000 < uint ?r"
    using r assms(3) by (simp add: word_less_def)
  have "bw_minus bw_rem ?r = sint (word_of_int (bw_rem - uint ?r) :: u64)"
    by (simp add: bw_minus_def s64_of_u64_def u64_of_int_def wi_hom_sub [symmetric])
  also have "\<dots> = bw_rem - uint ?r"
  proof -
    have "- 9223372036854775808 \<le> bw_rem - uint ?r" "bw_rem - uint ?r < 9223372036854775808"
      using r assms(3,4) unfolding BW_LIMIT_def by linarith+
    then show ?thesis
      unfolding sint_sbintrunc' by (intro signed_take_bit_int_eq_self) simp_all
  qed
  finally have "bw_spend bw_rem ?r = max 0 (bw_rem - uint ?r)"
    by (auto simp: bw_spend_def Let_def)
  then show ?thesis
    using assms(1,2) check by (simp add: admit_step_def)
qed

theorem admission_check_wraps_witness:
  "admit_step sample_env 20 (1, 1, sample_sys (sample_two (sample_pd BW 0 0) (sample_pd BW 0 500000000)) [20] [10]) =
     bindR (place sample_env 20 (1, sample_sys (sample_two (sample_pd BW 0 0) (sample_pd BW 0 500000000)) [20] [10]))
       (\<lambda>(cores, s). Inr (0, cores, s))"
proof -
  let ?s = "sample_sys (sample_two (sample_pd BW 0 0) (sample_pd BW 0 500000000)) [20] [10]"
  have "get_pd ?s 20 = Inr (sample_pd BW 0 500000000)"
    by (simp add: get_pd_def get_prog_def sample_sys_def sample_two_def sample_prog_def)
  from admission_check_wraps [OF this, of 1 1 sample_env] show ?thesis
    by (simp add: MAX_CORES_def BW_LIMIT_def sample_pd_def)
qed

end
