(* ===== verification/FairBwCache.thy ===== *)
theory FairBwCache
  imports Loop Samples
begin

text \<open>
  The policy \<open>fair_bw_cache\<close>, \<open>src/scheds/fair_bw_cache.c\<close>: what is its own beside the code of
  theory \<open>Policy\<close>. The programs that have made least progress run next, but no program that needs
  memory bandwidth runs beside one that needs the cache, and both resources are budgeted. The
  functions that are a copy of the ones of \<open>fair\<close> are those of theory \<open>Policy\<close>.
\<close>

section \<open>Measurements\<close>

definition fair_bw_cache_collect :: "u64 \<Rightarrow> prog_data \<Rightarrow> prog_data res" where
  "fair_bw_cache_collect reads pd = bindR (collect_ipc pd) (\<lambda>pd.
     Inr (pd\<lparr>pd_sum_mem_reads := (if category pd = BW then reads else pd_mem_reads pd),
             pd_llc_alone := s32_of_u64 (llc_occupancy pd)\<rparr>))"

definition fair_bw_cache_progress :: "bool \<Rightarrow> u64 \<Rightarrow> prog_data \<Rightarrow> prog_data res" where
  "fair_bw_cache_progress monitoring unh pd = (if monitoring then Inr pd else update_progress unh pd)"

definition fair_bw_cache_finish :: "prog_data \<Rightarrow> prog_data res" where
  "fair_bw_cache_finish pd = update_progress (unh_cycles pd) pd"

definition fair_bw_cache_inherit :: "prog_data \<Rightarrow> aff_prog \<Rightarrow> aff_prog" where
  "fair_bw_cache_inherit pd prog = prog\<lparr>thr_real := ipc_alone pd, instr_retd_sum := pd_instr_retd_sum pd,
     ideal_instr := pd_ideal_instr pd, sum_mem_reads := pd_sum_mem_reads pd,
     llc_alone := pd_llc_alone pd\<rparr>"

section \<open>The first pass\<close>

text \<open>The variables of the pass. An \<open>int\<close> that overflows is taken to wrap.\<close>

record budget =
  bw_rem :: int
  llc_rem :: int
  bw_on :: bool
  cs_on :: bool

definition LLC_LIMIT :: int where "LLC_LIMIT = 15605765"

definition full_budget :: budget where
  "full_budget = \<lparr>bw_rem = BW_LIMIT, llc_rem = LLC_LIMIT, bw_on = False, cs_on = False\<rparr>"

text \<open>The three conditions, in turn; \<open>None\<close> when the program is passed over.\<close>

definition admit_bw :: "prog_data \<Rightarrow> budget \<Rightarrow> budget option" where
  "admit_bw pd b = (if category pd = BW
     then if cs_on b \<or> pd_sum_mem_reads pd > u64_of_int (bw_rem b + 15625000) then None
          else Some (b\<lparr>bw_rem := bw_minus (bw_rem b) (pd_sum_mem_reads pd), bw_on := True\<rparr>)
     else Some b)"

definition llc_over :: "prog_data \<Rightarrow> budget \<Rightarrow> bool" where
  "llc_over pd b \<longleftrightarrow> pd_llc_alone pd > int32 (llc_rem b + 4000000)"

definition llc_spend :: "prog_data \<Rightarrow> budget \<Rightarrow> budget" where
  "llc_spend pd b = b\<lparr>llc_rem := int32 (llc_rem b - pd_llc_alone pd)\<rparr>"

definition admit_cs :: "prog_data \<Rightarrow> budget \<Rightarrow> budget option" where
  "admit_cs pd b = (if category pd = CS
     then if bw_on b \<or> llc_over pd b then None else Some ((llc_spend pd b)\<lparr>cs_on := True\<rparr>)
     else Some b)"

definition admit_cns :: "prog_data \<Rightarrow> budget \<Rightarrow> budget option" where
  "admit_cns pd b = (if category pd = CNS
     then if cs_on b \<and> llc_over pd b then None else Some (llc_spend pd b)
     else Some b)"

definition admit :: "prog_data \<Rightarrow> budget \<Rightarrow> budget option" where
  "admit pd b = Option.bind (admit_bw pd b) (\<lambda>b. Option.bind (admit_cs pd b) (admit_cns pd))"

definition class_step :: "env \<Rightarrow> u64 \<Rightarrow> budget \<times> int \<times> sys \<Rightarrow> (budget \<times> int \<times> sys) res" where
  "class_step E p st = (case st of (b, cores, s) \<Rightarrow>
     if cores = MAX_CORES then Inr st
     else bindR (get_pd s p) (\<lambda>pd. case admit pd b of
         None \<Rightarrow> Inr st
       | Some b' \<Rightarrow> bindR (place E p (cores, s)) (\<lambda>(cores, s). Inr (b', cores, s))))"

section \<open>The cores that are left\<close>

text \<open>The programs of the class that runs already: the first that reads least, or the first that
  occupies the least cache. The others of the class go to the end of the list they came from.\<close>

definition of_class :: "bool \<Rightarrow> sys \<Rightarrow> u64 \<Rightarrow> bool" where
  "of_class bw s p \<longleftrightarrow> (case get_pd s p of
      Inl _ \<Rightarrow> False
    | Inr pd \<Rightarrow> if bw then category pd = BW else category pd = CS \<or> category pd = CNS)"

definition smaller :: "bool \<Rightarrow> sys \<Rightarrow> u64 \<Rightarrow> u64 \<Rightarrow> u64 res" where
  "smaller bw s p mn = bindR (get_pd s p) (\<lambda>pd. bindR (get_pd s mn) (\<lambda>min_pd.
     Inr (if if bw then pd_sum_mem_reads pd < pd_sum_mem_reads min_pd
             else pd_llc_alone pd < pd_llc_alone min_pd then p else mn)))"

definition class_neighbors :: "bool \<Rightarrow> sys \<Rightarrow> (u64 option \<times> sys) res" where
  "class_neighbors bw s = bindR (foldR check_data (progs_all (sch s)) s) (\<lambda>s.
     let rest = filter (of_class bw s) (progs_all (sch s));
         others = filter (\<lambda>p. \<not> of_class bw s p) (progs_all (sch s))
     in case rest of
         [] \<Rightarrow> Inr (None, s)
       | p # _ \<Rightarrow> bindR (foldR (smaller bw s) rest p) (\<lambda>mn.
           Inr (Some mn, upd_sch (\<lambda>sc. sc\<lparr>progs_all := others @ removeAll mn rest,
                                         progs_sch := progs_sch sc @ [mn]\<rparr>) s)))"

lemma smaller_mem: "foldR (smaller bw s) ps mn = Inr m \<Longrightarrow> m \<in> set (mn # ps)"
  by (rule foldR_invariant [where P = "\<lambda>m. m \<in> set (mn # ps)"])
    (auto simp: smaller_def bindR_eq_Inr)

lemma check_data_same: "foldR check_data ps s = Inr t \<Longrightarrow> t = s"
  by (rule foldR_invariant [where P = "\<lambda>t. t = s"]) (auto simp: check_data_def bindR_eq_Inr)

lemma class_neighbors_none:
  assumes "class_neighbors bw s = Inr (None, t)"
  shows "t = s"
proof -
  obtain u where u: "foldR check_data (progs_all (sch s)) s = Inr u"
    using assms by (auto simp: class_neighbors_def bindR_eq_Inr)
  with assms have "t = u"
    by (cases "filter (of_class bw u) (progs_all (sch u))")
      (auto simp: class_neighbors_def Let_def bindR_eq_Inr simp del: foldR.simps)
  with check_data_same [OF u] show ?thesis by simp
qed

lemma class_neighbors_some:
  assumes "class_neighbors bw s = Inr (Some p, t)"
  defines "rest \<equiv> filter (of_class bw s) (progs_all (sch s))"
    and "others \<equiv> filter (\<lambda>p. \<not> of_class bw s p) (progs_all (sch s))"
  shows "p \<in> set rest \<and>
    t = upd_sch (\<lambda>sc. sc\<lparr>progs_all := others @ removeAll p rest, progs_sch := progs_sch sc @ [p]\<rparr>) s"
proof -
  obtain u where u: "foldR check_data (progs_all (sch s)) s = Inr u"
    using assms(1) by (auto simp: class_neighbors_def bindR_eq_Inr)
  have same: "u = s"
    by (rule check_data_same [OF u])
  obtain q qs where q: "rest = q # qs"
    using assms(1) u same by (cases rest) (simp_all add: class_neighbors_def Let_def rest_def)
  have "foldR (smaller bw s) rest q = Inr p"
      "t = upd_sch (\<lambda>sc. sc\<lparr>progs_all := others @ removeAll p rest, progs_sch := progs_sch sc @ [p]\<rparr>) s"
    using assms(1) u same q
    by (auto simp: class_neighbors_def Let_def bindR_eq_Inr simp del: foldR.simps
        simp flip: rest_def others_def)
  moreover from this(1) have "p \<in> set rest"
    using smaller_mem [of bw s rest q p] q by auto
  ultimately show ?thesis
    by simp
qed

lemma class_neighbors_takes:
  assumes "class_neighbors bw s = Inr (Some p, t)"
  obtains xs where "p \<in> set (progs_all (sch s))" "of_class bw s p"
    "mset xs = mset (progs_all (sch s))"
    "t = upd_sch (\<lambda>sc. sc\<lparr>progs_all := removeAll p xs, progs_sch := progs_sch sc @ [p]\<rparr>) s"
proof -
  let ?rest = "filter (of_class bw s) (progs_all (sch s))"
  let ?others = "filter (\<lambda>p. \<not> of_class bw s p) (progs_all (sch s))"
  note some = class_neighbors_some [OF assms]
  then have mem: "p \<in> set (progs_all (sch s))" "of_class bw s p"
    by auto
  then have "removeAll p (?others @ ?rest) = ?others @ removeAll p ?rest"
    by (simp add: removeAll_id)
  moreover have "mset (?others @ ?rest) = mset (progs_all (sch s))"
    by (simp add: mset_filter union_commute)
  ultimately show thesis
    using that [OF mem, of "?others @ ?rest"] conjunct2 [OF some] by simp
qed

text \<open>So a program taken moves from one list of the policy to the other.\<close>

lemma class_neighbors_shrinks:
  assumes "class_neighbors bw s = Inr (Some p, t)" and "take_cores E p (c, t) = Inr (c', u)"
  shows "length (progs_all (sch u)) < length (progs_all (sch s))"
proof -
  obtain xs where xs: "p \<in> set (progs_all (sch s))" "mset xs = mset (progs_all (sch s))"
      "t = upd_sch (\<lambda>sc. sc\<lparr>progs_all := removeAll p xs, progs_sch := progs_sch sc @ [p]\<rparr>) s"
    using class_neighbors_takes [OF assms(1)] by blast
  have "progs_all (sch u) = removeAll p xs"
    using take_cores_still [OF assms(2)] xs(3) by (simp add: still_def upd_sch_def)
  moreover have "p \<in> set xs" "length xs = length (progs_all (sch s))"
    using xs(1) mset_eq_setD [OF xs(2)] mset_eq_length [OF xs(2)] by simp_all
  ultimately show ?thesis
    using length_removeAll_mem [of p xs] by simp
qed

function fill_class :: "env \<Rightarrow> bool \<Rightarrow> int \<Rightarrow> sys \<Rightarrow> sys res" where
  "fill_class E bw cores s =
     (if cores \<noteq> MAX_CORES
      then bindR (class_neighbors bw s) (\<lambda>(prog, s). case prog of
          None \<Rightarrow> bindR (fill_rest_cores E (cores, s)) (\<lambda>(_, s). Inr s)
        | Some p \<Rightarrow> bindR (get_pd s p) (\<lambda>_.
            bindR (take_cores E p (cores, s)) (\<lambda>(cores, s). fill_class E bw cores s)))
      else Inr s)"
  by pat_completeness auto
termination
  by (relation "measure (\<lambda>(E, bw, cores, s). length (progs_all (sch s)))")
    (auto intro: class_neighbors_shrinks)

declare fill_class.simps [simp del]

definition fill_class_cores :: "env \<Rightarrow> budget \<times> int \<times> sys \<Rightarrow> sys res" where
  "fill_class_cores E st = (case st of (b, cores, s) \<Rightarrow> fill_left E (fill_class E (bw_on b)) cores s)"

definition fair_bw_cache_pick :: "env \<Rightarrow> sys \<Rightarrow> sys res" where
  "fair_bw_cache_pick E s = bindR (sort_all s) (\<lambda>s.
     bindR (foldR (class_step E) (progs_all (sch s)) (full_budget, 0, s)) (fill_class_cores E))"

section \<open>The picks are a run of picks\<close>

lemma class_neighbors_picks:
  assumes "class_neighbors bw s = Inr (Some p, t)" and "lists_ok s"
  obtains u where "quiet s u" "p \<in> sched_lists u" "t = move2sch p u"
proof -
  obtain xs where p: "p \<in> set (progs_all (sch s))" and xs: "mset xs = mset (progs_all (sch s))"
      and t: "t = upd_sch (\<lambda>sc. sc\<lparr>progs_all := removeAll p xs, progs_sch := progs_sch sc @ [p]\<rparr>) s"
    using class_neighbors_takes [OF assms(1)] by blast
  let ?u = "upd_sch (\<lambda>sc. sc\<lparr>progs_all := xs\<rparr>) s"
  have "quiet s ?u"
    using xs by (simp add: quiet_def keeps_pool_def quantum_frame_def upd_sch_def pool_def seat_def needs_def fun_eq_iff)
  moreover have "p \<in> sched_lists ?u"
    using p mset_eq_setD [OF xs] by (simp add: sched_lists_def upd_sch_def)
  moreover have "t = move2sch p ?u"
  proof -
    have "p \<notin> set (pnew_l s)" "p \<notin> set (pfinished_l s)" "p \<notin> set (progs_sch (sch s))"
      using p assms(2) by (auto simp: lists_ok_def sched_lists_def)
    then show ?thesis
      by (simp add: t move2sch_def add_sch_def unlink_def upd_sch_def removeAll_id)
  qed
  ultimately show thesis
    by (rule that)
qed

lemma fill_class_picks:
  "fill_class E bw cores s = Inr t \<Longrightarrow> lists_ok s \<Longrightarrow> \<exists>c. picking E (cores, s) (c, t)"
proof (induction E bw cores s rule: fill_class.induct)
  case (1 E bw cores s)
  show ?case
  proof (cases "cores = MAX_CORES")
    case True
    then show ?thesis
      using "1.prems"(1) unfolding fill_class.simps [of E bw cores s]
      by (auto intro: picking_done)
  next
    case False
    with "1.prems"(1) obtain prog u where u: "class_neighbors bw s = Inr (prog, u)"
        "(case prog of None \<Rightarrow> bindR (fill_rest_cores E (cores, u)) (\<lambda>(_, s). Inr s)
          | Some p \<Rightarrow> bindR (get_pd u p) (\<lambda>_. bindR (take_cores E p (cores, u)) (\<lambda>(cores, s).
              fill_class E bw cores s))) = Inr t"
      unfolding fill_class.simps [of E bw cores s] by (auto simp: bindR_eq_Inr)
    show ?thesis
    proof (cases prog)
      case None
      then obtain c where "fill_rest_cores E (cores, s) = Inr (c, t)"
        using u class_neighbors_none by (auto simp: bindR_eq_Inr)
      then show ?thesis
        using fill_rest_cores_picks "1.prems"(2) by blast
    next
      case (Some p)
      then obtain pd c v where step: "get_pd u p = Inr pd" "take_cores E p (cores, u) = Inr (c, v)"
          "fill_class E bw c v = Inr t"
        using u(2) by (auto simp: bindR_eq_Inr)
      obtain w where w: "quiet s w" "p \<in> sched_lists w" "u = move2sch p w"
        using class_neighbors_picks [OF u(1) [unfolded Some] "1.prems"(2)] by blast
      have sv: "picking E (cores, s) (c, v)"
        by (rule picking_quiet [OF w(1) picking_one [OF w(2) step(2) [unfolded w(3)]]])
      have "lists_ok v"
        using keeps_lists_ok [OF picking_keeps [OF sv]] "1.prems"(2) by simp
      then show ?thesis
        using "1.IH" [OF False u(1) refl Some step(1,2) refl step(3)] picking_trans [OF sv] by blast
    qed
  qed
qed

lemma class_step_picks:
  assumes "p \<in> sched_lists (snd (snd a))" and "class_step E p a = Inr b"
  shows "picking E (snd a) (snd b)"
proof -
  obtain k c s where a: "a = (k, c, s)"
    by (cases a) auto
  have "b = a \<or> (\<exists>c' t. place E p (c, s) = Inr (c', t) \<and> snd b = (c', t))"
    using assms(2) by (auto simp: a class_step_def bindR_eq_Inr split: if_splits option.splits)
  then show ?thesis
    using assms(1) picking_place [of p s E c] by (auto simp: a intro: picking_done)
qed

lemma fair_bw_cache_pick_picks:
  assumes "lists_ok s" and "fair_bw_cache_pick E s = Inr t"
  shows "\<exists>c. picking E (0, s) (c, t)"
proof (rule two_pass_picks [OF assms(2) [unfolded fair_bw_cache_pick_def] assms(1) class_step_picks])
  fix b c u
  assume run: "fill_class_cores E (b, c, u) = Inr t" and ok: "lists_ok u"
  show "\<exists>c'. picking E (c, u) (c', t)"
    using fill_left_picks [OF run [unfolded fill_class_cores_def prod.case] ok] fill_class_picks ok by blast
qed

definition fair_bw_cache_policy :: policy where
  "fair_bw_cache_policy = \<lparr>pol_collect = fair_bw_cache_collect, pol_progress = fair_bw_cache_progress,
     pol_finish = fair_bw_cache_finish, pol_window = (\<lambda>n. n), pol_inherit = fair_bw_cache_inherit,
     pol_pick = fair_bw_cache_pick, pol_timed = True\<rparr>"

interpretation fair_bw_cache: sched_policy fair_bw_cache_policy
  by unfold_locales (simp add: fair_bw_cache_policy_def fair_bw_cache_pick_picks)

section \<open>The functions of the file\<close>

text \<open>The file has its own copies of the functions of theory \<open>Policy\<close>; \<open>elem_move2tail\<close> is called with each
  of the two lists.\<close>

definition fair_bw_cache_monitoring_phase :: "sys \<Rightarrow> bool" where
  "fair_bw_cache_monitoring_phase = monitoring_phase"

definition fair_bw_cache_elem_move2all :: "u64 \<Rightarrow> sys \<Rightarrow> sys" where
  "fair_bw_cache_elem_move2all = move2all"

definition fair_bw_cache_elem_move2sch :: "u64 \<Rightarrow> sys \<Rightarrow> sys" where
  "fair_bw_cache_elem_move2sch = move2sch"

definition fair_bw_cache_move_progs_to_all :: "sys \<Rightarrow> sys" where
  "fair_bw_cache_move_progs_to_all = move_progs_to_all"

definition fair_bw_cache_get_value :: "sys \<Rightarrow> u64 \<Rightarrow> int" where
  "fair_bw_cache_get_value = get_value"

definition fair_bw_cache_update_progress :: "u64 \<Rightarrow> prog_data \<Rightarrow> prog_data res" where
  "fair_bw_cache_update_progress = update_progress"

definition fair_bw_cache_monitor :: "env \<Rightarrow> sys \<Rightarrow> sys res" where
  "fair_bw_cache_monitor = monitor"

definition fair_bw_cache_fill_rest_cores :: "env \<Rightarrow> int \<times> sys \<Rightarrow> (int \<times> sys) res" where
  "fair_bw_cache_fill_rest_cores = fill_rest_cores"

definition fair_bw_cache_init :: "env \<Rightarrow> sys \<Rightarrow> sys res" where
  "fair_bw_cache_init = policy_init"

definition fair_bw_cache_kill_app :: "env \<Rightarrow> u64 \<Rightarrow> sys \<Rightarrow> sys res" where
  "fair_bw_cache_kill_app = kill_app"

definition fair_bw_cache_kill_all :: "env \<Rightarrow> sys \<Rightarrow> sys res" where
  "fair_bw_cache_kill_all = kill_all"

definition fair_bw_cache_thaw_sched :: "env \<Rightarrow> sys \<Rightarrow> sys res" where
  "fair_bw_cache_thaw_sched = thaw_sched"

definition fair_bw_cache_freeze_sched :: "env \<Rightarrow> sys \<Rightarrow> sys res" where
  "fair_bw_cache_freeze_sched = freeze_sched fair_bw_cache_policy"

definition fair_bw_cache_schedule :: "env \<Rightarrow> sys \<Rightarrow> sys res" where
  "fair_bw_cache_schedule = schedule fair_bw_cache_policy"

definition fair_bw_cache_respawn :: "env \<Rightarrow> u64 \<Rightarrow> sys \<Rightarrow> sys res" where
  "fair_bw_cache_respawn = respawn fair_bw_cache_policy"

definition fair_bw_cache_rebalance :: "env \<Rightarrow> sys \<Rightarrow> sys res" where
  "fair_bw_cache_rebalance = policy_rebalance fair_bw_cache_policy"

definition fair_bw_cache_qexpired :: "env \<Rightarrow> timeval \<Rightarrow> sys \<Rightarrow> sys res" where
  "fair_bw_cache_qexpired = policy_qexpired fair_bw_cache_policy"

definition fair_bw_cache_scheduler :: aff_scheduler where
  "fair_bw_cache_scheduler = policy_scheduler ''fair_bw_cache'' fair_bw_cache_policy"

section \<open>Properties\<close>

text \<open>The arithmetic of the first check.\<close>

lemma bw_minus_exact:
  assumes "- 15625000 \<le> bw" and "bw \<le> BW_LIMIT" and "uint reads \<le> bw + 15625000"
  shows "bw_minus bw reads = bw - uint reads"
proof -
  have "u64_of_int bw - reads = word_of_int (bw - uint reads)"
    by (simp add: u64_of_int_def wi_hom_sub [symmetric])
  then have "bw_minus bw reads = sint (word_of_int (bw - uint reads) :: u64)"
    by (simp add: bw_minus_def s64_of_u64_def)
  also have "\<dots> = bw - uint reads"
  proof -
    have "- 15625000 \<le> bw - uint reads" "bw - uint reads \<le> 547208745"
      using assms uint_ge_0 [of reads] unfolding BW_LIMIT_def by linarith+
    then show ?thesis
      unfolding sint_sbintrunc' by (intro signed_take_bit_int_eq_self) simp_all
  qed
  finally show ?thesis .
qed

lemma not_over_reads:
  assumes "\<not> reads > u64_of_int (bw + 15625000)" and "- 15625000 \<le> bw" and "bw \<le> BW_LIMIT"
  shows "uint reads \<le> bw + 15625000"
proof -
  have "uint reads \<le> uint (u64_of_int (bw + 15625000))"
    using assms(1) by (simp add: not_less word_le_def)
  also have "\<dots> = bw + 15625000"
    unfolding u64_of_int_def uint_word_of_int
    using assms(2,3) by (intro mod_pos_pos_trivial) (simp_all add: BW_LIMIT_def)
  finally show ?thesis .
qed

text \<open>What the three conditions guarantee.\<close>

definition budget_ok :: "budget \<Rightarrow> bool" where
  "budget_ok b \<longleftrightarrow> \<not> (bw_on b \<and> cs_on b) \<and> - 15625000 \<le> bw_rem b \<and> bw_rem b \<le> BW_LIMIT"

lemma admit_ok:
  assumes "admit pd b = Some b'" and "budget_ok b"
  shows "budget_ok b'"
    and "bw_rem b' = bw_rem b - (if category pd = BW then uint (pd_sum_mem_reads pd) else 0)"
    and "bw_on b' \<longleftrightarrow> bw_on b \<or> category pd = BW" and "cs_on b' \<longleftrightarrow> cs_on b \<or> category pd = CS"
proof -
  let ?bw = "\<lambda>b'. b' = b\<lparr>bw_rem := bw_rem b - uint (pd_sum_mem_reads pd), bw_on := True\<rparr>
    \<and> \<not> cs_on b \<and> 0 \<le> uint (pd_sum_mem_reads pd) \<and> uint (pd_sum_mem_reads pd) \<le> bw_rem b + 15625000"
  have bw: "?bw b'" if "category pd = BW"
    using that assms not_over_reads [where bw = "bw_rem b"] bw_minus_exact [of "bw_rem b"]
    by (auto simp: admit_def admit_bw_def admit_cs_def admit_cns_def budget_ok_def split: if_splits)
  have cs: "b' = (llc_spend pd b)\<lparr>cs_on := True\<rparr> \<and> \<not> bw_on b" if "category pd = CS"
    using that assms(1) by (auto simp: admit_def admit_bw_def admit_cs_def admit_cns_def split: if_splits)
  have rest: "b' = b \<or> b' = llc_spend pd b" if "category pd \<noteq> BW" "category pd \<noteq> CS"
    using that assms(1) by (auto simp: admit_def admit_bw_def admit_cs_def admit_cns_def split: if_splits)
  consider "category pd = BW" | "category pd = CS" | "category pd \<noteq> BW" "category pd \<noteq> CS"
    by blast
  then have all: "budget_ok b' \<and> bw_rem b' = bw_rem b - (if category pd = BW then uint (pd_sum_mem_reads pd) else 0)
      \<and> (bw_on b' \<longleftrightarrow> bw_on b \<or> category pd = BW) \<and> (cs_on b' \<longleftrightarrow> cs_on b \<or> category pd = CS)"
  proof cases
    case 1
    have "bw_rem b - uint (pd_sum_mem_reads pd) \<le> BW_LIMIT"
      using assms(2) uint_ge_0 [of "pd_sum_mem_reads pd"] unfolding budget_ok_def by linarith
    then show ?thesis
      using 1 bw [OF 1] assms(2) by (simp add: budget_ok_def)
  next
    case 2
    then show ?thesis
      using cs [OF 2] assms(2) by (simp add: budget_ok_def llc_spend_def)
  next
    case 3
    then show ?thesis
      using rest [OF 3] assms(2) by (auto simp: budget_ok_def llc_spend_def)
  qed
  then show "budget_ok b'" "bw_rem b' = bw_rem b - (if category pd = BW then uint (pd_sum_mem_reads pd) else 0)"
    "bw_on b' \<longleftrightarrow> bw_on b \<or> category pd = BW" "cs_on b' \<longleftrightarrow> cs_on b \<or> category pd = CS"
    by blast+
qed

text \<open>The class and the reads of a program, and the reads of the bandwidth class on the cores.\<close>

definition class_at :: "sys \<Rightarrow> u64 \<Rightarrow> class_type option" where
  "class_at s p = map_option category (data_of s p)"

definition reads_at :: "sys \<Rightarrow> u64 \<Rightarrow> int" where
  "reads_at s p = (case data_of s p of
      Some pd \<Rightarrow> if category pd = BW then uint (pd_sum_mem_reads pd) else 0
    | None \<Rightarrow> 0)"

definition pass_ok :: "budget \<times> int \<times> sys \<Rightarrow> bool" where
  "pass_ok st \<longleftrightarrow> (case st of (b, c, s) \<Rightarrow> budget_ok b
     \<and> (\<forall>p \<in> set (progs_sch (sch s)). class_at s p = Some BW \<longrightarrow> bw_on b)
     \<and> (\<forall>p \<in> set (progs_sch (sch s)). class_at s p = Some CS \<longrightarrow> cs_on b)
     \<and> bw_rem b + sum_list (map (reads_at s) (progs_sch (sch s))) \<le> BW_LIMIT)"

lemma sum_list_removeAll_le: "(\<And>x. 0 \<le> f x) \<Longrightarrow> sum_list (map f (removeAll p xs)) \<le> (sum_list (map f xs) :: int)"
  by (induction xs) (auto simp: add_increasing)

lemma class_step_ok:
  assumes "pass_ok (b, c, s)" and "class_step E p (b, c, s) = Inr st"
  shows "pass_ok st"
proof -
  consider "st = (b, c, s)" | pd b' c' t where "get_pd s p = Inr pd" "admit pd b = Some b'"
      "place E p (c, s) = Inr (c', t)" "st = (b', c', t)"
    using assms(2) by (auto simp: class_step_def bindR_eq_Inr split: if_splits option.splits)
  then show ?thesis
  proof cases
    case 1
    with assms(1) show ?thesis by simp
  next
    case (2 pd b' c' t)
    have data: "data_of t = data_of s" and lists: "progs_sch (sch t) = removeAll p (progs_sch (sch s)) @ [p]"
      by (rule place_data [OF 2(3)], rule place_spec(1) [OF 2(3)])
    have same: "class_at t = class_at s" "reads_at t = reads_at s"
      by (simp_all add: fun_eq_iff class_at_def reads_at_def data)
    have p: "class_at s p = Some (category pd)"
        "reads_at s p = (if category pd = BW then uint (pd_sum_mem_reads pd) else 0)"
      using 2(1) by (simp_all add: class_at_def reads_at_def data_of_def)
    have ok: "budget_ok b"
      using assms(1) by (simp add: pass_ok_def)
    note adm = admit_ok [OF 2(2) ok]
    have "sum_list (map (reads_at s) (removeAll p (progs_sch (sch s)))) \<le> sum_list (map (reads_at s) (progs_sch (sch s)))"
      by (rule sum_list_removeAll_le) (simp add: reads_at_def split: option.splits)
    then have "bw_rem b' + sum_list (map (reads_at t) (progs_sch (sch t))) \<le> BW_LIMIT"
      using assms(1) adm(2) p(2) by (simp add: pass_ok_def same lists)
    moreover have "\<forall>q \<in> set (progs_sch (sch t)). class_at t q = Some BW \<longrightarrow> bw_on b'"
        "\<forall>q \<in> set (progs_sch (sch t)). class_at t q = Some CS \<longrightarrow> cs_on b'"
      using assms(1) adm(3,4) p(1) by (auto simp: pass_ok_def same lists)
    ultimately show ?thesis
      using adm(1) by (simp add: pass_ok_def 2(4))
  qed
qed

text \<open>C5: The first pass of \<open>fair_bw_cache\<close> starts no program that needs bandwidth (class \<open>BW\<close>) beside
  one that needs the cache (class \<open>CS\<close>), and the reads that the programs of class \<open>BW\<close> on the cores
  make when they run alone add up to at most \<open>BW_LIMIT + 15625000\<close>: the differences that C compares
  as unsigned numbers never wrap. (Nothing is said of the cache: programs of class \<open>CNS\<close> are admitted
  unchecked while \<open>cs_on\<close> is not set.)\<close>

theorem first_pass_separates_classes:
  assumes "foldR (class_step E) ps (full_budget, 0, s) = Inr (b, c, t)" and "progs_sch (sch s) = []"
  shows "\<not> (\<exists>p \<in> set (progs_sch (sch t)). \<exists>q \<in> set (progs_sch (sch t)).
      class_at t p = Some BW \<and> class_at t q = Some CS)
    \<and> sum_list (map (reads_at t) (progs_sch (sch t))) \<le> BW_LIMIT + 15625000"
proof -
  have "pass_ok (b, c, t)"
  proof (rule foldR_invariant [OF assms(1)])
    show "pass_ok (full_budget, 0, s)"
      using assms(2) by (simp add: pass_ok_def budget_ok_def full_budget_def BW_LIMIT_def)
    show "pass_ok w" if "pass_ok v" "class_step E p v = Inr w" for p v w
      using that class_step_ok by (cases v) auto
  qed
  then show ?thesis
    by (auto simp: pass_ok_def budget_ok_def)
qed

theorem first_pass_separates_classes_witness:
  "case foldR (class_step sample_env) [10, 20]
      (full_budget, 0, sample_sys (sample_two (sample_pd BW 0 500000000) (sample_pd CS 0 0)) [10, 20] []) of
     Inr (b, c, t) \<Rightarrow> progs_sch (sch t) = [10] \<and> class_at t 10 = Some BW
       \<and> sum_list (map (reads_at t) (progs_sch (sch t))) \<le> BW_LIMIT + 15625000
   | Inl _ \<Rightarrow> False"
proof -
  let ?s = "sample_sys (sample_two (sample_pd BW 0 500000000) (sample_pd CS 0 0)) [10, 20] []"
  have "progs_sch (sch ?s) = []"
    by (simp add: sample_simps)
  moreover have "case foldR (class_step sample_env) [10, 20] (full_budget, 0, ?s) of
      Inr (b, c, t) \<Rightarrow> progs_sch (sch t) = [10] \<and> class_at t 10 = Some BW | Inl _ \<Rightarrow> False"
    by code_simp
  then obtain b c t where "foldR (class_step sample_env) [10, 20] (full_budget, 0, ?s) = Inr (b, c, t)"
      "progs_sch (sch t) = [10]" "class_at t 10 = Some BW"
    by (auto split: sum.splits)
  ultimately show ?thesis
    using first_pass_separates_classes [of sample_env "[10, 20]" ?s b c t] by simp
qed

end
