(* ===== verification/Linux.thy ===== *)
theory Linux
  imports Loop Samples
begin

text \<open>
  The policy \<open>linux\<close>, \<open>src/scheds/linux.c\<close> and \<open>linux.h\<close>: the kernel schedules, the policy starts every
  program again until it has run as often as its target says, where the fraction of a run that
  is left at the end is a fraction of the time of the last full run. The fields of
  \<open>struct linux_sched\<close> are in the records \<open>sched\<close> and \<open>linux_sched\<close> of theory \<open>SysState\<close>. A \<open>double\<close>
  is a rational number; the result of an operation that need not be exact is rounded by \<open>fl\<close>.
\<close>

section \<open>Access\<close>

definition upd_lx :: "(linux_sched \<Rightarrow> linux_sched) \<Rightarrow> sys \<Rightarrow> sys" where
  "upd_lx f s = s\<lparr>lx := f (lx s)\<rparr>"

definition get_lx :: "sys \<Rightarrow> u64 \<Rightarrow> linux_data res" where
  "get_lx s p = bindR (get_prog s p) (\<lambda>prog.
     case lx_data prog of Some d \<Rightarrow> Inr d | None \<Rightarrow> Inl UseAfterFree)"

definition set_lx :: "u64 \<Rightarrow> linux_data \<Rightarrow> sys \<Rightarrow> sys res" where
  "set_lx p d = upd_prog p (\<lambda>prog. prog\<lparr>lx_data := Some d\<rparr>)"

definition with_energy :: "sys \<Rightarrow> sys res" where
  "with_energy s = guardR (energy_open (lx s)) UseAfterFree s"

section \<open>Initialisation\<close>

text \<open>As in \<open>read_instr_from_file\<close>, what \<open>sscanf\<close> does not set keeps its value.\<close>

function read_times_from_file ::
    "(rat \<Rightarrow> rat) \<Rightarrow> string \<Rightarrow> int option \<times> rat option \<Rightarrow> rat list \<Rightarrow> rat list res" where
  "read_times_from_file rnd f vars targets = (case fgets 1024 f of
      None \<Rightarrow> Inr targets
    | Some (buffer, r) \<Rightarrow>
        (let (i, n) = scan_times buffer;
             i = (if i = None then fst vars else i);
             n = (if n = None then snd vars else map_option rnd n)
         in case (i, n) of
              (Some k, Some v) \<Rightarrow> bindR (arr_set targets k v) (read_times_from_file rnd r (i, n))
            | _ \<Rightarrow> Inl BadAccess))"
  by pat_completeness auto
termination
  by (relation "measure (\<lambda>(rnd, f, vars, targets). length f)") (auto dest: fgets_shorter)

declare read_times_from_file.simps [simp del]

definition linux_counters :: "env \<Rightarrow> sys \<Rightarrow> (aff_counters \<times> machine) res" where
  "linux_counters E s =
     (if \<exists>c \<in> set (exec_cpus s). c < 0 then Inl (ExitWith 1)
      else bindR (ss_aff_counters_init (pci_dev E) (CMTAvail s) (DTSAvail s) (PLTAvail s)
                   (map nat (exec_cpus s)) (mach s)) (\<lambda>(c, m).
           bindR (InitPower (TurboModeON s) c m) (\<lambda>(c, m).
           bindR (startPower c m) (\<lambda>c. Inr (c, m)))))"

definition linux_sched_init :: "aff_counters \<Rightarrow> int \<Rightarrow> bool \<Rightarrow> sched \<Rightarrow> sched" where
  "linux_sched_init c n opened sc = sc\<lparr>progs_all := [], progs_sch := [], cntrs := Some c, progs_nr := 0,
     progs_init := n, progs_left := n, stop_execution := False, total_tics := -1, files_open := opened,
     total_progs := replicate (nat n) None, prog_times_finished := replicate (nat n) 0\<rparr>"

definition linux_times_init :: "int \<Rightarrow> bool \<Rightarrow> linux_sched \<Rightarrow> linux_sched" where
  "linux_times_init n opened l = l\<lparr>lx_total_rtime := replicate (nat n) 0, lx_finish := replicate (nat n) 0,
     lx_quanta := replicate (nat n) 0, lx_average_rtime := replicate (nat n) 0,
     lx_times_target := replicate (nat n) 0, lx_cur_time := replicate (nat n) 0, energy_open := opened\<rparr>"

text \<open>Milliseconds in an \<open>int\<close>; they fit it.\<close>

definition linux_ms :: "timeval \<Rightarrow> int" where
  "linux_ms tms = tv_sec tms smod 10000 * 1000 + tv_usec tms sdiv 1000"

text \<open>That the result files could not be opened is not looked at here.\<close>

definition linux_init :: "env \<Rightarrow> sys \<Rightarrow> sys res" where
  "linux_init E s =
     bindR (print_cpu_characteristics E s) (\<lambda>s.
     bindR (linux_counters E s) (\<lambda>(c, m).
     case target_file E of None \<Rightarrow> Inl (ExitWith (-1)) | Some f \<Rightarrow>
     let s = upd_lx (linux_times_init (waiting_nr s) (results_ok E))
               (s\<lparr>mach := m, sch := linux_sched_init c (waiting_nr s) (results_ok E) (sch s)\<rparr>) in
     bindR (read_times_from_file (fl E) f (None, None) (lx_times_target (lx s))) (\<lambda>tt.
     bindR (push_event E qt_event (set_qt_event qt (upd_lx (\<lambda>l. l\<lparr>lx_times_target := tt\<rparr>) s)))
       (with_tod E (\<lambda>now s. Inr (upd_lx (\<lambda>l. l\<lparr>lx_sched_time := linux_ms now\<rparr>) s))))))"

section \<open>Programs\<close>

text \<open>The name of a program is its command behind the directory. For a command shorter than the
  directory \<open>malloc\<close> is asked for a negative size, or \<open>memcpy\<close> for one.\<close>

definition linux_prog_name :: "string \<Rightarrow> string res" where
  "linux_prog_name c = (let size = int (length c) - int (length WORK_DIR) + 1
     in if size < 0 then Inl (ExitWith 1) else if size = 0 then Inl BadAccess
        else Inr (drop (length WORK_DIR) c))"

definition linux_add_prog :: "env \<Rightarrow> u64 \<Rightarrow> sys \<Rightarrow> (linux_data \<times> sys) res" where
  "linux_add_prog E p s = bindR (get_prog s p) (\<lambda>prog.
     if progs_init (sch s) = 0 then Inl DivideError
     else let i = (prog_id prog - ID_USER_OFFSET) smod progs_init (sch s) in
       bindR (arr_get (total_progs (sch s)) i) (\<lambda>nm.
       bindR (case nm of Some n \<Rightarrow> Inr n | None \<Rightarrow> linux_prog_name (cmd prog)) (\<lambda>n.
       bindR (arr_set (total_progs (sch s)) i (Some n)) (\<lambda>tp.
       bindR (arr_get (lx_times_target (lx s)) i) (\<lambda>_.
       Inr ((linux_junk E)\<lparr>lx_init_id := i, lx_killed := False\<rparr>,
            upd_sch (\<lambda>sc. sc\<lparr>total_progs := tp, progs_all := progs_all sc @ [p],
                             progs_nr := progs_nr sc + 1\<rparr>) s))))))"

definition linux_print_totals :: "env \<Rightarrow> sys \<Rightarrow> sys res" where
  "linux_print_totals E s = with_tod E (\<lambda>_ s. bindR (with_files s) (\<lambda>s.
     Inr (upd_sch (\<lambda>sc. sc\<lparr>files_open := False\<rparr>) s))) s"

text \<open>The processor time of a program. Where \<open>clock_gettime\<close> fails, as it does for a process that
  is gone, the last answer stays.\<close>

definition ms_of_ts :: "int \<times> int \<Rightarrow> rat" where
  "ms_of_ts t = of_int (fst t * 1000 + snd t sdiv 1000000)"

definition read_cpu_time :: "env \<Rightarrow> u64 \<Rightarrow> sys \<Rightarrow> (rat \<times> sys) res" where
  "read_cpu_time E p s = bindR (get_lx s p) (\<lambda>d.
     let ts = (case cpu_clock E (cpu_clock_n (lx s)) of Some t \<Rightarrow> t | None \<Rightarrow> lx_ts d)
     in bindR (set_lx p (d\<lparr>lx_ts := ts, lx_msecs := ms_of_ts ts\<rparr>)
          (upd_lx (\<lambda>l. l\<lparr>cpu_clock_n := Suc (cpu_clock_n l)\<rparr>) s)) (\<lambda>s. Inr (ms_of_ts ts, s)))"

definition finish_times :: "(rat \<Rightarrow> rat) \<Rightarrow> int \<Rightarrow> int \<Rightarrow> int \<Rightarrow> rat \<Rightarrow> linux_sched \<Rightarrow> linux_sched res" where
  "finish_times rnd i tics current ms l =
     bindR (arr_set (lx_quanta l) i (of_int tics)) (\<lambda>q.
     bindR (arr_set (lx_finish l) i (of_int current)) (\<lambda>f.
     bindR (arr_upd (lx_times_target l) i (\<lambda>t. rnd (t - 1))) (\<lambda>tt.
     bindR (arr_upd (lx_total_rtime l) i (\<lambda>t. rnd (t + ms))) (\<lambda>tr.
     bindR (arr_set (lx_average_rtime l) i ms) (\<lambda>av.
     bindR (arr_set (lx_cur_time l) i 0) (\<lambda>ct.
     Inr (l\<lparr>lx_quanta := q, lx_finish := f, lx_times_target := tt, lx_total_rtime := tr,
            lx_average_rtime := av, lx_cur_time := ct\<rparr>)))))))"

definition linux_program_finished :: "env \<Rightarrow> u64 \<Rightarrow> sys \<Rightarrow> sys res" where
  "linux_program_finished E p s = bindR (get_lx s p) (\<lambda>d. with_tod E (\<lambda>now s.
     bindR (read_cpu_time E p s) (\<lambda>(ms, s).
     bindR (arr_upd (prog_times_finished (sch s)) (lx_init_id d) (\<lambda>n. n + 1)) (\<lambda>tf.
     bindR (finish_times (fl E) (lx_init_id d) (total_tics (sch s)) (linux_ms now - lx_sched_time (lx s)) ms (lx s)) (\<lambda>l.
     bindR (report_secs E UNIT_LINUX (upd_sch (\<lambda>sc. sc\<lparr>prog_times_finished := tf\<rparr>) (s\<lparr>lx := l\<rparr>))) with_files)))) s)"

section \<open>The work of the policy\<close>

definition linux_new :: "env \<Rightarrow> u64 \<Rightarrow> sys \<Rightarrow> sys res" where
  "linux_new E p s =
     bindR (linux_add_prog E p (unlink p s)) (\<lambda>(d, s).
     bindR (set_lx p d s) (\<lambda>s.
     bindR (aff_prog_new_running E p s) (\<lambda>s.
     bindR (get_prog s p) (\<lambda>prog. request E (Thaw (prog_id prog)) s))))"

text \<open>After \<open>progs_left\<close> has reached zero the totals are printed, and their file closed, at every end
  of a program.\<close>

definition linux_end :: "env \<Rightarrow> sys \<Rightarrow> sys res" where
  "linux_end E s = bindR (linux_print_totals E s) (\<lambda>s. Inr (s\<lparr>massacre := True\<rparr>))"

definition linux_next_run :: "env \<Rightarrow> u64 \<Rightarrow> int \<Rightarrow> sys \<Rightarrow> sys res" where
  "linux_next_run E p i s =
     bindR (arr_get (lx_times_target (lx s)) i) (\<lambda>t.
     bindR (get_prog s p) (\<lambda>prog.
     if t = 0 then Inr (upd_sch (\<lambda>sc. sc\<lparr>progs_left := progs_left sc - 1\<rparr>) s)
     else prog_respawn E p (progs_init (sch s) + prog_id prog) s))"

definition linux_finished :: "env \<Rightarrow> u64 \<Rightarrow> sys \<Rightarrow> sys res" where
  "linux_finished E p s = (let s = unlink p s in
     bindR (get_lx s p) (\<lambda>d.
     let s = upd_sch (\<lambda>sc. sc\<lparr>progs_nr := progs_nr sc - 1\<rparr>) s in
     bindR (if lx_killed d then Inr s
            else bindR (linux_program_finished E p s) (\<lambda>s.
                 bindR (linux_next_run E p (lx_init_id d) s) (\<lambda>s.
                 if progs_left (sch s) \<le> 0 then linux_end E s else Inr s)))
       (aff_prog_dealloc E p)))"

definition linux_rebalance :: "env \<Rightarrow> sys \<Rightarrow> sys res" where
  "linux_rebalance E s =
     bindR (foldR (linux_new E) (pnew_l s) s) (\<lambda>s.
     foldR (linux_finished E) (pfinished_l s) s)"

text \<open>One round of the loop over the programs at the end of a quantum. \<open>charge_kill\<close> is what a killed
  program adds to the totals.\<close>

definition charge_kill :: "(rat \<Rightarrow> rat) \<Rightarrow> int \<Rightarrow> int \<Rightarrow> int \<Rightarrow> rat \<Rightarrow> linux_sched \<Rightarrow> linux_sched res" where
  "charge_kill rnd i tics current ms l =
     bindR (arr_set (lx_quanta l) i (of_int tics)) (\<lambda>q.
     bindR (arr_set (lx_finish l) i (of_int current)) (\<lambda>f.
     bindR (arr_upd (lx_total_rtime l) i (\<lambda>t. rnd (t + ms))) (\<lambda>tr.
     Inr (l\<lparr>lx_quanta := q, lx_finish := f, lx_total_rtime := tr\<rparr>))))"

definition has_run_enough :: "(rat \<Rightarrow> rat) \<Rightarrow> int \<Rightarrow> linux_sched \<Rightarrow> bool res" where
  "has_run_enough rnd i l =
     bindR (arr_get (lx_times_target l) i) (\<lambda>target.
     bindR (arr_get (lx_cur_time l) i) (\<lambda>cur.
     bindR (arr_get (lx_average_rtime l) i) (\<lambda>avg.
     Inr (target < 1 \<and> cur \<ge> rnd (avg * target)))))"

definition linux_kill :: "env \<Rightarrow> int \<Rightarrow> u64 \<Rightarrow> linux_data \<Rightarrow> rat \<Rightarrow> sys \<Rightarrow> sys res" where
  "linux_kill E current p d ms s =
     bindR (charge_kill (fl E) (lx_init_id d) (total_tics (sch s)) current ms (lx s)) (\<lambda>l.
     bindR (upd_prog p (\<lambda>prog. prog\<lparr>lx_data := map_option (\<lambda>d. d\<lparr>lx_killed := True\<rparr>) (lx_data prog)\<rparr>)
       (upd_sch (\<lambda>sc. sc\<lparr>progs_left := progs_left sc - 1\<rparr>) (s\<lparr>lx := l\<rparr>))) (\<lambda>s.
     bindR (get_prog s p) (\<lambda>prog. with_files (act (SendKill (prog_pid prog)) s))))"

definition linux_check :: "env \<Rightarrow> int \<Rightarrow> u64 \<Rightarrow> sys \<Rightarrow> sys res" where
  "linux_check E current p s =
     bindR (get_lx s p) (\<lambda>d.
     bindR (read_cpu_time E p s) (\<lambda>(ms, s).
     bindR (arr_set (lx_cur_time (lx s)) (lx_init_id d) ms) (\<lambda>ct.
     let s = upd_lx (\<lambda>l. l\<lparr>lx_cur_time := ct\<rparr>) s in
     bindR (has_run_enough (fl E) (lx_init_id d) (lx s)) (\<lambda>enough.
     if enough then linux_kill E current p d ms s else Inr s))))"

definition linux_finale :: "env \<Rightarrow> sys \<Rightarrow> sys res" where
  "linux_finale E s =
     (if progs_left (sch s) \<le> 0
      then bindR (linux_end E s) (\<lambda>s. bindR (with_energy s) (\<lambda>s.
           Inr (upd_lx (\<lambda>l. l\<lparr>energy_open := False\<rparr>) s)))
      else Inr s)"

definition linux_work :: "env \<Rightarrow> sys \<Rightarrow> sys res" where
  "linux_work E s = with_tod E (\<lambda>tms s.
     let current = linux_ms tms - lx_sched_time (lx s);
         s = upd_sch (\<lambda>sc. sc\<lparr>total_tics := total_tics sc + 1\<rparr>) s in
     bindR (on_cntrs stopPower s) (\<lambda>s.
     bindR (with_energy s) (\<lambda>s.
     bindR (foldR (linux_check E current) (progs_all (sch s)) s) (\<lambda>s.
     bindR (linux_finale E s) (on_cntrs startPower))))) s"

definition linux_qexpired :: "env \<Rightarrow> timeval \<Rightarrow> sys \<Rightarrow> sys res" where
  "linux_qexpired E now s = bindR (linux_work E s) (\<lambda>s.
     push_event E qt_event (set_qt_event (timeradd qt now) s))"

definition linux_scheduler :: aff_scheduler where
  "linux_scheduler = \<lparr>sched_name = ''linux'', sched_init = linux_init, rebalance = linux_rebalance,
     qexpired = Some linux_qexpired, prog_changed = None\<rparr>"

section \<open>The contract of the executor\<close>

lemma still_lx: "still s (upd_lx f s)" "still s (s\<lparr>lx := l\<rparr>)"
  by (simp_all add: still_def quantum_frame_def pool_def upd_lx_def)

context frame_relation
begin

lemma framed_with_energy [frame_rules]: "framed R s (with_energy s)"
  by (simp add: framed_def with_energy_def res_simps R_still still_fields)

lemma framed_read_cpu_time: "read_cpu_time E p s = Inr (ms, t) \<Longrightarrow> R s t"
proof -
  assume "read_cpu_time E p s = Inr (ms, t)"
  then obtain d d' where "set_lx p d (upd_lx d' s) = Inr t"
    by (auto simp: read_cpu_time_def Let_def res_simps)
  moreover have "framed R s (set_lx p d (upd_lx d' s))" for d d'
    unfolding set_lx_def by (rule framed_from [OF still_lx(1)]) (rule framed_upd_prog)
  ultimately show ?thesis
    using framedD by blast
qed

lemma framed_linux_end [frame_rules]: "framed R s (linux_end E s)"
  unfolding linux_end_def linux_print_totals_def
  by (intro frame_rules framed_still still_fields still_sch) simp_all

lemma framed_linux_finale [frame_rules]: "framed R s (linux_finale E s)"
  unfolding linux_finale_def by (intro frame_rules framed_still still_lx)

lemma framed_linux_kill [frame_rules]: "framed R s (linux_kill E current p d ms s)"
proof -
  have "still s (upd_sch (\<lambda>sc. sc\<lparr>progs_left := progs_left sc - 1\<rparr>) (s\<lparr>lx := l\<rparr>))" for l
    by (rule still_trans [OF still_lx(2) still_sch]) simp_all
  note start = framed_from [OF this]
  show ?thesis
    unfolding linux_kill_def
    by (intro framed_value framed_bind [OF start [OF framed_upd_prog]]
        framed_get_prog framed_from [OF still_fields(5) framed_with_files])
qed

lemma framed_linux_check [frame_rules]: "framed R s (linux_check E current p s)"
  unfolding framed_def
proof (intro allI impI)
  fix t assume "linux_check E current p s = Inr t"
  then obtain d ms u ct enough where u: "read_cpu_time E p s = Inr (ms, u)"
    and t: "(if enough then linux_kill E current p d ms (upd_lx (\<lambda>l. l\<lparr>lx_cur_time := ct\<rparr>) u)
      else Inr (upd_lx (\<lambda>l. l\<lparr>lx_cur_time := ct\<rparr>) u)) = Inr t"
    by (auto simp: linux_check_def Let_def res_simps)
  from framed_read_cpu_time [OF u] have "R s (upd_lx (\<lambda>l. l\<lparr>lx_cur_time := ct\<rparr>) u)"
    using R_trans R_still still_lx(1) by blast
  moreover from t have "R (upd_lx (\<lambda>l. l\<lparr>lx_cur_time := ct\<rparr>) u) t"
    using framedD [OF framed_linux_kill] R_still still_fields(1) by (cases enough) auto
  ultimately show "R s t"
    by (rule R_trans)
qed

lemma framed_linux_work [frame_rules]: "framed R s (linux_work E s)"
  unfolding linux_work_def Let_def
proof (intro framed_with_tod)
  fix tms and t :: sys
  have "still t (upd_sch (\<lambda>sc. sc\<lparr>total_tics := total_tics sc + 1\<rparr>) t)"
    by (rule still_sch) simp_all
  then show "framed R t (bindR (on_cntrs stopPower (upd_sch (\<lambda>sc. sc\<lparr>total_tics := total_tics sc + 1\<rparr>) t)) (\<lambda>s.
     bindR (with_energy s) (\<lambda>s.
     bindR (foldR (linux_check E (linux_ms tms - lx_sched_time (lx t))) (progs_all (sch s)) s) (\<lambda>s.
     bindR (linux_finale E s) (on_cntrs startPower)))))"
    by (rule framed_from) (intro frame_rules framed_foldR)
qed

end

text \<open>A new program of \<open>linux\<close> goes to the list of its programs, and a program that ends is released
  when it has been started again, if it is.\<close>

lemma linux_new_evolves:
  assumes "known s p" and "linux_new E p s = Inr t"
  shows "evolves s t"
proof (rule evolves_assume)
  assume ok: "loop_ok s"
  obtain d u v w prog where r: "linux_add_prog E p (unlink p s) = Inr (d, u)" "set_lx p d u = Inr v"
      "aff_prog_new_running E p v = Inr w" "request E (Thaw prog) w = Inr t"
    using assms(2) unfolding linux_new_def by (elim bindR_E bindR_pairE) blast
  obtain tp where "u = upd_sch (\<lambda>sc. sc\<lparr>total_progs := tp, progs_all := progs_all sc @ [p],
      progs_nr := progs_nr sc + 1\<rparr>) (unlink p s)"
    using r(1) by (auto simp: linux_add_prog_def Let_def elim!: bindR_E split: if_splits)
  then have "still (move2all p s) u"
    by (simp add: still_def quantum_frame_def pool_def move2all_def upd_sch_def)
  from evolves_trans [OF move2all_evolves [OF assms(1)] evolve.R_still [OF this]]
  have "evolves s v"
    using evolves_trans framedD [OF evolve.framed_upd_prog] r(2) unfolding set_lx_def by blast
  moreover from this ok assms(1) have "known v p"
    by (simp add: evolves_def)
  ultimately show "evolves s t"
    using new_running_evolves [OF _ r(3)] framedD [OF evolve.framed_request r(4)] evolves_trans by blast
qed

lemma linux_next_run_evolves: "framed evolves s (linux_next_run E p i s)"
proof -
  have "framed evolves s (Inr (upd_sch (\<lambda>sc. sc\<lparr>progs_left := progs_left sc - 1\<rparr>) s))"
    by (intro evolve.framed_still still_sch) simp_all
  then show ?thesis
    unfolding linux_next_run_def
    by (intro evolve.framed_value evolve.framed_get_prog evolve.framed_if prog_respawn_evolves)
qed

lemma linux_program_finished_evolves: "framed evolves s (linux_program_finished E p s)"
  unfolding framed_def
proof (intro allI impI)
  fix t assume run: "linux_program_finished E p s = Inr t"
  obtain d ms u tf l v where r: "read_cpu_time E p (s\<lparr>tod_n := Suc (tod_n s)\<rparr>) = Inr (ms, u)"
      "with_files v = Inr t"
    and v: "report_secs E UNIT_LINUX (upd_sch (\<lambda>sc. sc\<lparr>prog_times_finished := tf\<rparr>) (u\<lparr>lx := l\<rparr>)) = Inr v"
    using run unfolding linux_program_finished_def with_tod_simp by (elim bindR_E bindR_pairE) blast
  have "still u (upd_sch (\<lambda>sc. sc\<lparr>prog_times_finished := tf\<rparr>) (u\<lparr>lx := l\<rparr>))"
    by (rule still_trans [OF still_lx(2) still_sch]) simp_all
  from still_trans [OF this still_report [OF v]] have "still u v" .
  then have "evolves u t"
    using evolves_trans evolve.R_still framedD [OF evolve.framed_with_files r(2)] by blast
  moreover have "evolves s u"
    using evolves_trans [OF evolve.R_still [OF still_fields(4)]] evolve.framed_read_cpu_time [OF r(1)] by blast
  ultimately show "evolves s t"
    using evolves_trans by blast
qed

lemma linux_finished_evolves:
  assumes "known s p" and "linux_finished E p s = Inr t"
  shows "evolves s t"
proof (rule evolves_assume)
  assume ok: "loop_ok s"
  define u where "u = upd_sch (\<lambda>sc. sc\<lparr>progs_nr := progs_nr sc - 1\<rparr>) (unlink p s)"
  obtain d :: linux_data and w where w: "(if lx_killed d then Inr u else bindR (linux_program_finished E p u) (\<lambda>s.
        bindR (linux_next_run E p (lx_init_id d) s) (\<lambda>s. if progs_left (sch s) \<le> 0 then linux_end E s else Inr s))) = Inr w"
      and t: "aff_prog_dealloc E p w = Inr t"
    using assms(2) unfolding linux_finished_def Let_def u_def by (elim bindR_E) blast
  have "still (unlink p s) u"
    unfolding u_def by (rule still_sch) simp_all
  with unlink_evolves have a: "evolves s u"
    using evolves_trans evolve.R_still by blast
  have "framed evolves u (if lx_killed d then Inr u else bindR (linux_program_finished E p u) (\<lambda>s.
        bindR (linux_next_run E p (lx_init_id d) s) (\<lambda>s. if progs_left (sch s) \<le> 0 then linux_end E s else Inr s)))"
    by (intro evolve.framed_if evolve.framed_refl evolve.framed_bind linux_program_finished_evolves
        linux_next_run_evolves evolve.framed_linux_end)
  from evolves_trans [OF a framedD [OF this w]] have b: "evolves s w" .
  with ok assms(1) have "known w p"
    by (simp add: evolves_def)
  from evolves_trans [OF b prog_dealloc_evolves [OF this t]] show "evolves s t" .
qed

lemma linux_rebalance_evolves:
  assumes "loop_ok s" and "linux_rebalance E s = Inr t"
  shows "evolves s t"
proof -
  obtain u where r: "foldR (linux_new E) (pnew_l s) s = Inr u" "foldR (linux_finished E) (pfinished_l u) u = Inr t"
    using assms(2) unfolding linux_rebalance_def by (elim bindR_E)
  have a: "evolves s u"
    by (rule evolves_loop [OF linux_new_evolves assms(1) _ r(1)]) (use known_lists [OF assms(1)] in blast)+
  with assms(1) have ok: "loop_ok u"
    by (simp add: evolves_def)
  have "evolves u t"
    by (rule evolves_loop [OF linux_finished_evolves ok _ r(2)]) (use known_lists [OF ok] in blast)+
  with a show ?thesis
    by (rule evolves_trans)
qed

lemma linux_init_running:
  assumes ok: "loop_ok s" and out: "qt_event \<notin># queue s" and run: "linux_init E s = Inr t"
  shows "running_ok t"
proof -
  obtain s1 c m tt u where r: "print_cpu_characteristics E s = Inr s1"
      "push_event E qt_event (set_qt_event qt (upd_lx (\<lambda>l. l\<lparr>lx_times_target := tt\<rparr>)
         (upd_lx (linux_times_init (waiting_nr s1) (results_ok E))
           (s1\<lparr>mach := m, sch := linux_sched_init c (waiting_nr s1) (results_ok E) (sch s1)\<rparr>)))) = Inr u"
      "with_tod E (\<lambda>now s. Inr (upd_lx (\<lambda>l. l\<lparr>lx_sched_time := linux_ms now\<rparr>) s)) u = (Inr t :: sys res)"
    using run unfolding linux_init_def Let_def
    by (auto elim!: bindR_E split: if_splits option.splits prod.splits)
  have "quantum_frame s s1"
    using r(1) by (auto simp: print_cpu_characteristics_def quantum_frame_def pool_def elim!: bindR_E)
  also have "quantum_frame s1 (upd_lx (\<lambda>l. l\<lparr>lx_times_target := tt\<rparr>)
         (upd_lx (linux_times_init (waiting_nr s1) (results_ok E))
           (s1\<lparr>mach := m, sch := linux_sched_init c (waiting_nr s1) (results_ok E) (sch s1)\<rparr>)))" (is "quantum_frame s1 ?s")
    by (simp add: quantum_frame_def pool_def upd_lx_def linux_sched_init_def)
  finally have "evolves s ?s"
    by (rule evolves_frame)
  with ok out have "running_ok u"
    by (intro arm_running [OF _ _ r(2)]) (simp_all add: evolves_def)
  moreover have "framed evolves u (with_tod E (\<lambda>now s. Inr (upd_lx (\<lambda>l. l\<lparr>lx_sched_time := linux_ms now\<rparr>) s)) u)"
    by (intro evolve.framed_with_tod evolve.framed_still still_lx)
  ultimately show ?thesis
    using r(3) running_evolves framedD by blast
qed

text \<open>\<open>linux\<close> keeps the contract of the executor: its quantum leaves alone what the executor relies on
  and arms the next one, and the rest of its work keeps the invariant of the loop.\<close>

interpretation linux: executor_policy linux_scheduler linux_qexpired
proof unfold_locales
  show "qexpired linux_scheduler = Some linux_qexpired" and "prog_changed linux_scheduler = None"
    by (simp_all add: linux_scheduler_def)
  show "\<exists>t. quantum_frame s t \<and> push_event E qt_event (set_qt_event (timeradd qt now) t) = Inr s'"
    if "lists_ok s" "linux_qexpired E now s = Inr s'" for s E now s'
    using that(2) framedD [OF shrink.framed_linux_work] by (auto simp: linux_qexpired_def res_simps)
  show "evolves s t" if "loop_ok s" "aff_scheduler.rebalance linux_scheduler E s = Inr t" for s E t
    using that linux_rebalance_evolves by (simp add: linux_scheduler_def)
  show "running_ok t" if "loop_ok s" "qt_event \<notin># queue s" "sched_init linux_scheduler E s = Inr t" for s E t
    using that linux_init_running by (simp add: linux_scheduler_def)
qed

lemma linux_counters_ok:
  assumes "all_ok (mach s)" and "\<forall>x. pci_dev E x \<noteq> None" and "exec_cpus s = [k]" and "0 \<le> k" and "\<not> TurboModeON s"
  shows "\<exists>cm. linux_counters E s = Inr cm"
proof -
  obtain c m where cm: "ss_aff_counters_init (pci_dev E) (CMTAvail s) (DTSAvail s) (PLTAvail s) [nat k] (mach s) = Inr (c, m)"
      "all_ok m"
    using counters_init_ok [OF assms(1,2)] by blast
  with assms(3-5) show ?thesis
    by (simp add: linux_counters_def InitPower_def startPower_def rdmsr_ok Let_def)
qed

section \<open>Runs of a program\<close>

lemma get_lx_Inr [res_simps]: "get_lx s p = Inr d \<longleftrightarrow> (\<exists>prog. progs s p = Some prog \<and> lx_data prog = Some d)"
  by (auto simp: get_lx_def get_prog_def bindR_def split: option.splits)

lemma arr_get_set:
  "arr_set xs i v = Inr ys \<Longrightarrow> arr_get ys i = Inr v \<and> (\<forall>j. j \<noteq> i \<longrightarrow> arr_get ys j = arr_get xs j)"
  by (auto simp: arr_set_def arr_get_def guardR_def nth_list_update eq_nat_nat_iff split: if_splits)

lemma arr_get_upd:
  "arr_upd xs i f = Inr ys \<Longrightarrow> arr_get xs i = Inr v \<Longrightarrow> arr_get ys i = Inr (f v)"
  by (auto simp: arr_upd_def dest: arr_get_set)

text \<open>The answer to the next reading of a processor time.\<close>

definition next_cpu_time :: "env \<Rightarrow> sys \<Rightarrow> linux_data \<Rightarrow> int \<times> int" where
  "next_cpu_time E s d = (case cpu_clock E (cpu_clock_n (lx s)) of Some t \<Rightarrow> t | None \<Rightarrow> lx_ts d)"

lemma read_cpu_time_spec:
  fixes E :: env
  assumes "progs s p = Some prog" and "lx_data prog = Some d"
  defines "ts \<equiv> next_cpu_time E s d"
  shows "read_cpu_time E p s = Inr (ms_of_ts ts, s\<lparr>lx := (lx s)\<lparr>cpu_clock_n := Suc (cpu_clock_n (lx s))\<rparr>,
           progs := (progs s)(p \<mapsto> prog\<lparr>lx_data := Some (d\<lparr>lx_ts := ts, lx_msecs := ms_of_ts ts\<rparr>)\<rparr>)\<rparr>)"
  using assms by (simp add: read_cpu_time_def next_cpu_time_def set_lx_def upd_lx_def get_lx_def Let_def)

text \<open>C15: At the end of a quantum \<open>linux\<close> kills a program exactly when less than a full run is left
  of its target and its processor time has reached that fraction of the time of its last full run
  (as the product is rounded); it then counts one program less that has work left and adds the
  time to the total, and otherwise only notes the time. A program whose target is below one from
  the start has no full run to compare with: the time is compared with zero.\<close>

theorem linux_kills_when_enough:
  fixes E :: env
  assumes "get_lx s p = Inr d" and "linux_check E current p s = Inr t"
    and "arr_get (lx_times_target (lx s)) (lx_init_id d) = Inr target"
    and "arr_get (lx_average_rtime (lx s)) (lx_init_id d) = Inr avg"
    and "arr_get (lx_total_rtime (lx s)) (lx_init_id d) = Inr old"
  defines "ms \<equiv> ms_of_ts (next_cpu_time E s d)"
  shows "arr_get (lx_cur_time (lx t)) (lx_init_id d) = Inr ms
    \<and> (if target < 1 \<and> fl E (avg * target) \<le> ms
       then (\<exists>prog d'. progs t p = Some prog \<and> lx_data prog = Some d' \<and> lx_killed d'
              \<and> acts t = acts s @ [SendKill (prog_pid prog)])
         \<and> progs_left (sch t) = progs_left (sch s) - 1
         \<and> arr_get (lx_total_rtime (lx t)) (lx_init_id d) = Inr (fl E (old + ms))
       else (\<exists>d'. get_lx t p = Inr d' \<and> lx_killed d' = lx_killed d)
         \<and> acts t = acts s \<and> sch t = sch s \<and> lx_total_rtime (lx t) = lx_total_rtime (lx s))"
proof -
  obtain prog where prog: "progs s p = Some prog" "lx_data prog = Some d"
    using assms(1) by (auto simp: res_simps)
  define u where "u = s\<lparr>lx := (lx s)\<lparr>cpu_clock_n := Suc (cpu_clock_n (lx s))\<rparr>,
    progs := (progs s)(p \<mapsto> prog\<lparr>lx_data := Some (d\<lparr>lx_ts := next_cpu_time E s d, lx_msecs := ms\<rparr>)\<rparr>)\<rparr>"
  have "read_cpu_time E p s = Inr (ms, u)"
    using read_cpu_time_spec [OF prog, of E] by (simp add: ms_def u_def)
  then obtain ct enough where ct: "arr_set (lx_cur_time (lx u)) (lx_init_id d) ms = Inr ct"
    and enough: "has_run_enough (fl E) (lx_init_id d) ((lx u)\<lparr>lx_cur_time := ct\<rparr>) = Inr enough"
    and t: "(if enough then linux_kill E current p d ms (u\<lparr>lx := (lx u)\<lparr>lx_cur_time := ct\<rparr>\<rparr>)
      else Inr (u\<lparr>lx := (lx u)\<lparr>lx_cur_time := ct\<rparr>\<rparr>)) = Inr t"
    using assms(1,2) by (auto simp: linux_check_def Let_def upd_lx_def bindR_eq_Inr)
  have cur: "arr_get ct (lx_init_id d) = Inr ms"
    using arr_get_set [OF ct] by simp
  have e: "enough \<longleftrightarrow> target < 1 \<and> fl E (avg * target) \<le> ms"
    using enough assms(3,4) cur by (auto simp: has_run_enough_def u_def)
  show ?thesis
  proof (cases enough)
    case True
    with t assms(5) cur show ?thesis
      unfolding e [symmetric]
      by (auto simp: u_def linux_kill_def charge_kill_def with_files_def act_def upd_sch_def res_simps dest: arr_get_upd)
  next
    case False
    with t cur show ?thesis
      unfolding e [symmetric] by (auto simp: u_def get_lx_def)
  qed
qed

text \<open>Two programs under \<open>linux\<close>, the first with a target, a last full run and a processor time.\<close>

definition sample_linux :: "rat \<Rightarrow> rat \<Rightarrow> int \<times> int \<Rightarrow> sys" where
  "sample_linux target avg ts = (let prog = (\<lambda>i ident. (sample_prog ident None)\<lparr>lx_data := Some \<lparr>lx_init_id = i,
         lx_killed = False, lx_ts = ts, lx_msecs = 0\<rparr>\<rparr>);
       s = sample_sys [10 \<mapsto> prog 0 1000, 20 \<mapsto> prog 1 1001] [10, 20] []
     in s\<lparr>lx := (lx s)\<lparr>lx_times_target := [target, 3], lx_average_rtime := [avg, 0]\<rparr>,
         sch := (sch s)\<lparr>cntrs := Some sample_counters\<rparr>\<rparr>)"

theorem linux_kills_when_enough_witness:
  "case linux_check sample_env 7 10 (sample_linux (1 / 2) 0 (0, 0)) of
     Inr t \<Rightarrow> (\<exists>prog d'. progs t 10 = Some prog \<and> lx_data prog = Some d' \<and> lx_killed d')
       \<and> progs_left (sch t) = 1
   | Inl _ \<Rightarrow> False"
proof -
  let ?s = "sample_linux (1 / 2) 0 (0, 0)"
  have d: "get_lx ?s 10 = Inr \<lparr>lx_init_id = 0, lx_killed = False, lx_ts = (0, 0), lx_msecs = 0\<rparr>" (is "_ = Inr ?d")
    by (simp add: get_lx_def get_prog_def sample_linux_def sample_simps Let_def)
  have l: "arr_get (lx_times_target (lx ?s)) (lx_init_id ?d) = Inr (1 / 2)"
      "arr_get (lx_average_rtime (lx ?s)) (lx_init_id ?d) = Inr 0"
      "arr_get (lx_total_rtime (lx ?s)) (lx_init_id ?d) = Inr 0" "progs_left (sch ?s) = 2"
    by (simp_all add: arr_get_def sample_linux_def sample_simps Let_def)
  have e: "fl sample_env = (\<lambda>x. x)" "ms_of_ts (next_cpu_time sample_env ?s ?d) = 1000"
    by (simp_all add: sample_env_def next_cpu_time_def ms_of_ts_def)
  have "case linux_check sample_env 7 10 ?s of Inr t \<Rightarrow> True | Inl _ \<Rightarrow> False"
    by code_simp
  then obtain t where t: "linux_check sample_env 7 10 ?s = Inr t"
    by (auto split: sum.splits)
  from linux_kills_when_enough [OF d t l(1-3)] t show ?thesis
    unfolding e l(4) by auto
qed

text \<open>What starting a program leaves alone: everything of the policy.\<close>

definition spares :: "sys \<Rightarrow> sys \<Rightarrow> bool" where
  "spares s t \<longleftrightarrow> lx t = lx s \<and> sch t = sch s \<and> massacre t = massacre s \<and> waiting_nr t = waiting_nr s"

lemma spares_trans [trans]: "spares s t \<Longrightarrow> spares t u \<Longrightarrow> spares s u"
  by (simp add: spares_def)

lemma request_spares: "request E a s = Inr t \<Longrightarrow> spares s t"
  by (auto simp: request_Inr act_def spares_def)

lemma upd_prog_spares: "upd_prog p f s = Inr t \<Longrightarrow> spares s t"
  by (auto simp: upd_prog_Inr spares_def)

lemma setcpurange_spares: "schedule_setcpurange E p i j s = Inr t \<Longrightarrow> spares s t"
  by (auto simp: schedule_setcpurange_def schedule_setcpus_def do_setcpumask_def bindR_eq_Inr
      dest!: upd_prog_spares request_spares intro: spares_trans)

lemma do_execute_spares:
  assumes "do_execute E p s = Inr t"
  shows "spares s t"
proof -
  obtain f g u v w where r: "upd_prog p f (act (Forked (fork_pid E (fork_n s))) (s\<lparr>fork_n := Suc (fork_n s)\<rparr>)) = Inr u"
      "upd_prog p g u = Inr v" "schedule_setcpurange E p 0 (int (length (exec_cpus v))) v = Inr w"
      "sched_prog E p w = Inr t"
    using assms by (auto simp: do_execute_def aff_prog_print_def ask_Inr Let_def bindR_eq_Inr split: if_splits)
  have "spares s (act (Forked (fork_pid E (fork_n s))) (s\<lparr>fork_n := Suc (fork_n s)\<rparr>))"
    by (simp add: spares_def act_def)
  also note upd_prog_spares [OF r(1)]
  also note upd_prog_spares [OF r(2)]
  also note setcpurange_spares [OF r(3)]
  also have "spares w t"
    using r(4) request_spares by (auto simp: sched_prog_def bindR_eq_Inr)
  finally show ?thesis .
qed

lemma aff_prog_alloc_spares:
  assumes "aff_prog_alloc E ident s = Inr (p, t)"
  shows "spares s t"
proof -
  obtain a q u v where r: "request E (CpusetCreated ident) ((s\<lparr>next_addr := a\<rparr>)\<lparr>progs := q\<rparr>) = Inr u"
      "aff_shm_alloc E v u = Inr t"
    using assms by (auto simp: aff_prog_alloc_def malloc_Inr bindR_eq_Inr)
  have "spares s ((s\<lparr>next_addr := a\<rparr>)\<lparr>progs := q\<rparr>)"
    by (simp add: spares_def)
  also note request_spares [OF r(1)]
  also have "spares u t"
    using r(2) by (auto simp: aff_shm_alloc_def bindR_eq_Inr ask_Inr intro: upd_prog_spares)
  finally show ?thesis .
qed

lemma prog_respawn_leaves:
  assumes "prog_respawn E p ident s = Inr t"
  shows "lx t = lx s" and "sch t = sch s" and "massacre t = massacre s" and "waiting_nr t = waiting_nr s + 1"
proof -
  let ?s = "s\<lparr>tod_n := Suc (tod_n s)\<rparr>"
  obtain e s0 new u old v w x y where r:
      "aff_prog_alloc E ident s0 = Inr (new, u)"
      "upd_prog new (respawn_fields old (timersub (tod E (tod_n s)) (tv0 ?s))) u = Inr v"
      "do_execute E new v = Inr w" "new_event_prog e new w = Inr x"
      "push_event E e x = Inr y" "Inr (y\<lparr>waiting_nr := waiting_nr y + 1\<rparr>) = Inr t"
      "aff_evnt_alloc EVNT_NEWPROG ?s = Inr (e, s0)"
    using assms unfolding prog_respawn_def get_now_def gettimeofday_def prod.case
    by (elim bindR_pairE bindR_E) blast
  have "spares s ?s"
    by (simp add: spares_def)
  also have "spares ?s s0"
    using r(7) by (auto simp: aff_evnt_alloc_def malloc_Inr bindR_eq_Inr spares_def)
  also note aff_prog_alloc_spares [OF r(1)]
  also note upd_prog_spares [OF r(2)]
  also note do_execute_spares [OF r(3)]
  also have "spares w x"
    using r(4) by (auto simp: new_event_prog_def spares_def bindR_eq_Inr)
  also have "spares x y"
    using r(5) by (auto simp: push_event_def spares_def bindR_eq_Inr)
  finally show "lx t = lx s" and "sch t = sch s" and "massacre t = massacre s" and "waiting_nr t = waiting_nr s + 1"
    using r(6) by (auto simp: spares_def)
qed

lemma dealloc_leaves:
  assumes "aff_prog_dealloc E p s = Inr t"
  shows "spares s t" and "progs t p = None"
proof -
  obtain prog :: aff_prog and u v w where r: "request E (CpusetDeleted (prog_id prog)) s = Inr u"
      "(if prog_pid prog \<noteq> 0 then request E (FreezerShut (prog_id prog)) u else Inr u) = Inr v"
      "aff_shm_dealloc p v = Inr w" "Inr (w\<lparr>progs := (progs w)(p := None)\<rparr>) = (Inr t :: sys res)"
    using assms unfolding aff_prog_dealloc_def by (elim bindR_E) blast
  note request_spares [OF r(1)]
  also have "spares u v"
    using r(2) request_spares by (cases "prog_pid prog \<noteq> 0") (auto simp: spares_def)
  also have "spares v w"
    using r(3) by (auto simp: aff_shm_dealloc_def act_def spares_def res_simps)
  finally show "spares s t" and "progs t p = None"
    using r(4) by (auto simp: spares_def)
qed

lemma linux_program_finished_spec:
  fixes E :: env
  assumes "get_lx s p = Inr d" and "linux_program_finished E p s = Inr t"
    and "arr_get (lx_times_target (lx s)) (lx_init_id d) = Inr target"
    and "arr_get (prog_times_finished (sch s)) (lx_init_id d) = Inr runs"
  shows "arr_get (lx_times_target (lx t)) (lx_init_id d) = Inr (fl E (target - 1))"
    and "arr_get (prog_times_finished (sch t)) (lx_init_id d) = Inr (runs + 1)"
    and "arr_get (lx_average_rtime (lx t)) (lx_init_id d) = Inr (ms_of_ts (next_cpu_time E s d))"
    and "progs_left (sch t) = progs_left (sch s)" and "files_open (sch s)" and "files_open (sch t)"
    and "waiting_nr t = waiting_nr s" and "massacre t = massacre s"
proof -
  let ?s = "s\<lparr>tod_n := Suc (tod_n s)\<rparr>"
  obtain prog where prog: "progs ?s p = Some prog" "lx_data prog = Some d"
    using assms(1) by (auto simp: res_simps)
  define ms where "ms = ms_of_ts (next_cpu_time E s d)"
  define u where "u = ?s\<lparr>lx := (lx s)\<lparr>cpu_clock_n := Suc (cpu_clock_n (lx s))\<rparr>,
    progs := (progs s)(p \<mapsto> prog\<lparr>lx_data := Some (d\<lparr>lx_ts := next_cpu_time E s d, lx_msecs := ms\<rparr>)\<rparr>)\<rparr>"
  have "next_cpu_time E ?s d = next_cpu_time E s d"
    by (simp add: next_cpu_time_def)
  then have ru: "read_cpu_time E p ?s = Inr (ms, u)"
    using read_cpu_time_spec [OF prog, of E] by (simp add: ms_def u_def)
  obtain tf l v where tf: "arr_upd (prog_times_finished (sch u)) (lx_init_id d) (\<lambda>n. n + 1) = Inr tf"
    and l: "finish_times (fl E) (lx_init_id d) (total_tics (sch u))
        (linux_ms (tod E (tod_n s)) - lx_sched_time (lx u)) ms (lx u) = Inr l"
    and v: "report_secs E UNIT_LINUX (upd_sch (\<lambda>sc. sc\<lparr>prog_times_finished := tf\<rparr>) (u\<lparr>lx := l\<rparr>)) = Inr v"
    and t: "with_files v = Inr t"
    using assms(1,2) ru by (auto simp: linux_program_finished_def with_tod_simp elim!: bindR_E)
  obtain m n where v: "v = upd_sch (\<lambda>sc. sc\<lparr>prog_times_finished := tf\<rparr>) (u\<lparr>lx := l\<rparr>)\<lparr>mhz := m, mhz_runs := n\<rparr>"
    by (rule report_secs_fields [OF v])
  have sch_u: "sch u = sch s" "waiting_nr u = waiting_nr s" "massacre u = massacre s"
    by (simp_all add: u_def)
  show "arr_get (lx_times_target (lx t)) (lx_init_id d) = Inr (fl E (target - 1))"
    and "arr_get (lx_average_rtime (lx t)) (lx_init_id d) = Inr (ms_of_ts (next_cpu_time E s d))"
    using l t assms(3) unfolding ms_def v
    by (auto simp: finish_times_def with_files_def upd_sch_def u_def res_simps dest: arr_get_upd arr_get_set)
  show "arr_get (prog_times_finished (sch t)) (lx_init_id d) = Inr (runs + 1)"
    using t arr_get_upd [OF tf [unfolded sch_u(1)] assms(4)] unfolding v by (auto simp: with_files_def upd_sch_def res_simps)
  show "progs_left (sch t) = progs_left (sch s)" and "files_open (sch s)" and "files_open (sch t)"
    and "waiting_nr t = waiting_nr s" and "massacre t = massacre s"
    using t sch_u unfolding v by (auto simp: with_files_def upd_sch_def res_simps)
qed

lemma linux_next_run_spec:
  assumes "linux_next_run E p i s = Inr t" and "arr_get (lx_times_target (lx s)) i = Inr target"
  shows "lx t = lx s" and "prog_times_finished (sch t) = prog_times_finished (sch s)"
    and "progs_left (sch t) = progs_left (sch s) - (if target = 0 then 1 else 0)"
    and "files_open (sch t) = files_open (sch s)" and "massacre t = massacre s"
    and "waiting_nr t = waiting_nr s + (if target = 0 then 0 else 1)"
proof -
  obtain prog :: aff_prog where r: "(if target = 0 then Inr (upd_sch (\<lambda>sc. sc\<lparr>progs_left := progs_left sc - 1\<rparr>) s)
      else prog_respawn E p (progs_init (sch s) + prog_id prog) s) = Inr t"
    using assms by (auto simp: linux_next_run_def elim!: bindR_E)
  have "lx t = lx s \<and> prog_times_finished (sch t) = prog_times_finished (sch s)
    \<and> progs_left (sch t) = progs_left (sch s) - (if target = 0 then 1 else 0)
    \<and> files_open (sch t) = files_open (sch s) \<and> massacre t = massacre s
    \<and> waiting_nr t = waiting_nr s + (if target = 0 then 0 else 1)"
  proof (cases "target = 0")
    case True
    with r have "t = upd_sch (\<lambda>sc. sc\<lparr>progs_left := progs_left sc - 1\<rparr>) s" by simp
    with True show ?thesis by (simp add: upd_sch_def)
  next
    case False
    with r have "prog_respawn E p (progs_init (sch s) + prog_id prog) s = Inr t" by simp
    from prog_respawn_leaves [OF this] False show ?thesis by simp
  qed
  then show "lx t = lx s" and "prog_times_finished (sch t) = prog_times_finished (sch s)"
    and "progs_left (sch t) = progs_left (sch s) - (if target = 0 then 1 else 0)"
    and "files_open (sch t) = files_open (sch s)" and "massacre t = massacre s"
    and "waiting_nr t = waiting_nr s + (if target = 0 then 0 else 1)"
    by simp_all
qed

lemma linux_end_spec:
  assumes "linux_end E s = Inr t"
  shows "lx t = lx s" and "prog_times_finished (sch t) = prog_times_finished (sch s)"
    and "progs_left (sch t) = progs_left (sch s)" and "files_open (sch s)" and "\<not> files_open (sch t)"
    and "massacre t" and "waiting_nr t = waiting_nr s"
  using assms by (auto simp: linux_end_def linux_print_totals_def with_tod_simp with_files_def upd_sch_def res_simps)

text \<open>C14: Under \<open>linux\<close> the runs that a program ends by itself are counted, and it is started again until its
  target is used up exactly. When a program that was not killed ends, a run is counted, its target
  goes down by one and its processor time becomes the time of the last full run; if the target is
  now exactly 0, one program less has work left, otherwise the program is started once more (also
  with a target that is no whole number and has passed below 0). When no program has work left the
  totals are printed and their file is closed. When a program that was killed ends nothing of
  this happens: times, targets, counts, the result file and the number of programs that have work left
  stay (the kill has dealt with them). The program itself is released in both cases.\<close>

theorem linux_counts_runs:
  fixes E :: env
  assumes "get_lx s p = Inr d" and "linux_finished E p s = Inr t"
    and "arr_get (lx_times_target (lx s)) (lx_init_id d) = Inr target"
    and "arr_get (prog_times_finished (sch s)) (lx_init_id d) = Inr runs"
  defines "over \<equiv> fl E (target - 1) = 0"
  defines "left \<equiv> progs_left (sch s) - (if over then 1 else 0)"
  shows "progs t p = None \<and>
    (if lx_killed d
     then lx t = lx s \<and> prog_times_finished (sch t) = prog_times_finished (sch s)
       \<and> progs_left (sch t) = progs_left (sch s) \<and> waiting_nr t = waiting_nr s
       \<and> files_open (sch t) = files_open (sch s) \<and> massacre t = massacre s
     else arr_get (lx_times_target (lx t)) (lx_init_id d) = Inr (fl E (target - 1))
       \<and> arr_get (prog_times_finished (sch t)) (lx_init_id d) = Inr (runs + 1)
       \<and> arr_get (lx_average_rtime (lx t)) (lx_init_id d) = Inr (ms_of_ts (next_cpu_time E s d))
       \<and> progs_left (sch t) = left \<and> waiting_nr t = waiting_nr s + (if over then 0 else 1)
       \<and> files_open (sch t) = (left > 0) \<and> massacre t = (massacre s \<or> left \<le> 0))"
proof -
  define u where "u = upd_sch (\<lambda>sc. sc\<lparr>progs_nr := progs_nr sc - 1\<rparr>) (unlink p s)"
  have u: "get_lx u p = Inr d" "lx u = lx s" "prog_times_finished (sch u) = prog_times_finished (sch s)"
      "progs_left (sch u) = progs_left (sch s)" "waiting_nr u = waiting_nr s" "massacre u = massacre s"
      "next_cpu_time E u d = next_cpu_time E s d" "files_open (sch u) = files_open (sch s)"
    using assms(1) by (auto simp: u_def unlink_def upd_sch_def next_cpu_time_def res_simps)
  have d: "get_lx (unlink p s) p = Inr d"
    using assms(1) by (auto simp: unlink_def res_simps)
  show ?thesis
  proof (cases "lx_killed d")
    case True
    with d assms(2) have "aff_prog_dealloc E p u = Inr t"
      by (simp add: linux_finished_def Let_def u_def)
    from dealloc_leaves [OF this] True u show ?thesis
      by (simp add: spares_def)
  next
    case False
    with d obtain v w x where r: "linux_program_finished E p u = Inr v" "linux_next_run E p (lx_init_id d) v = Inr w"
        "(if progs_left (sch w) \<le> 0 then linux_end E w else Inr w) = Inr x" "aff_prog_dealloc E p x = Inr t"
      using assms(2) by (auto simp: linux_finished_def Let_def u_def [symmetric] elim!: bindR_E)
    note v = linux_program_finished_spec [OF u(1) r(1), unfolded u(2,3), OF assms(3,4)]
    note w = linux_next_run_spec [OF r(2) v(1)]
    have x: "lx x = lx w" "prog_times_finished (sch x) = prog_times_finished (sch w)"
        "progs_left (sch x) = progs_left (sch w)" "waiting_nr x = waiting_nr w"
        "files_open (sch x) = (progs_left (sch w) > 0)" "massacre x = (massacre w \<or> progs_left (sch w) \<le> 0)"
      using r(3) w(4) v(6) by (auto split: if_splits dest: linux_end_spec)
    from dealloc_leaves [OF r(4)] False show ?thesis
      using v w x u(4-7) by (auto simp: spares_def left_def over_def)
  qed
qed

theorem linux_counts_runs_witness:
  "case linux_finished sample_env 10 (sample_linux 1 50 (0, 0)) of
     Inr t \<Rightarrow> progs_left (sch t) = 1 \<and> waiting_nr t = 0 \<and> progs t 10 = None
   | Inl _ \<Rightarrow> False"
proof -
  let ?s = "sample_linux 1 50 (0, 0)"
  have d: "get_lx ?s 10 = Inr \<lparr>lx_init_id = 0, lx_killed = False, lx_ts = (0, 0), lx_msecs = 0\<rparr>" (is "_ = Inr ?d")
    by (simp add: get_lx_def get_prog_def sample_linux_def sample_simps Let_def)
  have l: "arr_get (lx_times_target (lx ?s)) (lx_init_id ?d) = Inr 1"
      "arr_get (prog_times_finished (sch ?s)) (lx_init_id ?d) = Inr 0" "\<not> lx_killed ?d"
      "progs_left (sch ?s) = 2" "waiting_nr ?s = 0"
    by (simp_all add: arr_get_def sample_linux_def sample_simps Let_def)
  have "case linux_finished sample_env 10 ?s of Inr t \<Rightarrow> True | Inl _ \<Rightarrow> False"
    by code_simp
  then obtain t where t: "linux_finished sample_env 10 ?s = Inr t"
    by (auto split: sum.splits)
  have "fl sample_env (1 - 1) = 0"
    by (simp add: sample_env_def)
  with linux_counts_runs [OF d t l(1,2)] t l(3-5) show ?thesis
    by simp
qed

section \<open>The end\<close>

definition ended :: "sys \<Rightarrow> bool" where
  "ended s \<longleftrightarrow> \<not> files_open (sch s) \<and> progs_left (sch s) \<le> 0"

lemma ended_cong: "sch t = sch s \<Longrightarrow> ended t = ended s"
  by (simp add: ended_def)

lemma linux_program_finished_open:
  assumes "linux_program_finished E p s = Inr t"
  shows "files_open (sch s)"
proof -
  obtain d ms u tf l v where r: "read_cpu_time E p (s\<lparr>tod_n := Suc (tod_n s)\<rparr>) = Inr (ms, u)"
      "with_files v = Inr t"
    and v: "report_secs E UNIT_LINUX (upd_sch (\<lambda>sc. sc\<lparr>prog_times_finished := tf\<rparr>) (u\<lparr>lx := l\<rparr>)) = Inr v"
    using assms unfolding linux_program_finished_def with_tod_simp by (elim bindR_E bindR_pairE) blast
  have "sch u = sch s"
    using r(1) by (auto simp: read_cpu_time_def set_lx_def upd_lx_def Let_def res_simps)
  moreover have "files_open (sch v) = files_open (sch u)"
    by (rule report_secs_fields [OF v]) (simp add: upd_sch_def)
  ultimately show ?thesis
    using r(2) by (auto simp: with_files_def res_simps)
qed

lemma linux_check_ended:
  assumes "linux_check E current p s = Inr t" and "ended s"
  shows "ended t"
proof -
  obtain d ms u ct enough where r: "read_cpu_time E p s = Inr (ms, u)"
      "(if enough then linux_kill E current p d ms (upd_lx (\<lambda>l. l\<lparr>lx_cur_time := ct\<rparr>) u)
        else Inr (upd_lx (\<lambda>l. l\<lparr>lx_cur_time := ct\<rparr>) u)) = Inr t"
    using assms(1) unfolding linux_check_def Let_def by (elim bindR_E bindR_pairE) blast
  have "sch u = sch s"
    using r(1) by (auto simp: read_cpu_time_def set_lx_def upd_lx_def Let_def res_simps)
  then have u: "ended (upd_lx (\<lambda>l. l\<lparr>lx_cur_time := ct\<rparr>) u)"
    using assms(2) by (simp add: ended_def upd_lx_def)
  have "linux_kill E current p d ms w \<noteq> Inr t" if "ended w" for w
    using that by (auto simp: linux_kill_def with_files_def act_def upd_sch_def ended_def res_simps)
  with r(2) u show ?thesis
    by (auto split: if_splits)
qed

lemma on_cntrs_ended: "on_cntrs f s = Inr t \<Longrightarrow> ended s \<Longrightarrow> ended t"
  by (auto simp: on_cntrs_def upd_sch_def ended_def res_simps)

lemma linux_work_ended:
  assumes "ended s"
  shows "linux_work E s \<noteq> Inr t"
proof
  let ?s = "upd_sch (\<lambda>sc. sc\<lparr>total_tics := total_tics sc + 1\<rparr>) (s\<lparr>tod_n := Suc (tod_n s)\<rparr>)"
  assume "linux_work E s = Inr t"
  then obtain u v current w where r: "on_cntrs stopPower ?s = Inr u" "with_energy u = Inr v"
      "foldR (linux_check E current) (progs_all (sch v)) v = Inr w" "\<exists>x. linux_finale E w = Inr x"
    unfolding linux_work_def with_tod_simp Let_def by (elim bindR_E) blast
  have "ended ?s"
    using assms by (simp add: ended_def upd_sch_def)
  then have "ended v"
    using r(1,2) on_cntrs_ended by (auto simp: with_energy_def res_simps)
  have "ended w"
    using r(3) \<open>ended v\<close> linux_check_ended by (rule foldR_invariant [where P = ended])
  then show False
    using r(4) by (auto simp: linux_finale_def ended_def elim!: bindR_E dest: linux_end_spec(4))
qed

text \<open>C35: \<open>linux\<close> does not outlive its end. After the totals are printed because no program has work
  left, the process goes on until the last program is gone; but the next program that ends by
  itself, and the next quantum, print to the file that has been closed.\<close>

theorem linux_uses_closed_file:
  assumes "linux_end E s = Inr t" and "progs_left (sch s) \<le> 0"
  shows "(\<forall>q d u. get_lx t q = Inr d \<and> \<not> lx_killed d \<longrightarrow> linux_finished E q t \<noteq> Inr u)
    \<and> (\<forall>now u. linux_qexpired E now t \<noteq> Inr u)"
proof (intro conjI allI impI notI)
  have t: "ended t"
    using linux_end_spec(3,5) [OF assms(1)] assms(2) by (simp add: ended_def)
  show False if q: "get_lx t q = Inr d \<and> \<not> lx_killed d" and "linux_finished E q t = Inr u" for q d u
  proof -
    have "get_lx (unlink q t) q = Inr d"
      using q by (auto simp: unlink_def res_simps)
    with that obtain v where "linux_program_finished E q
        (upd_sch (\<lambda>sc. sc\<lparr>progs_nr := progs_nr sc - 1\<rparr>) (unlink q t)) = Inr v"
      by (auto simp: linux_finished_def Let_def elim!: bindR_E)
    from linux_program_finished_open [OF this] t show False
      by (simp add: ended_def upd_sch_def unlink_def)
  qed
  show False if "linux_qexpired E now t = Inr u" for now u
    using that linux_work_ended [OF t] by (auto simp: linux_qexpired_def elim!: bindR_E)
qed

theorem linux_uses_closed_file_witness:
  "case linux_end sample_env ((sample_linux 0 50 (0, 0))\<lparr>sch := (sample_sched [10, 20] [])\<lparr>progs_left := 0\<rparr>\<rparr>) of
     Inr t \<Rightarrow> (\<forall>u. linux_finished sample_env 20 t \<noteq> Inr u)
   | Inl _ \<Rightarrow> False"
proof -
  let ?s = "(sample_linux 0 50 (0, 0))\<lparr>sch := (sample_sched [10, 20] [])\<lparr>progs_left := 0\<rparr>\<rparr>"
  have "case linux_end sample_env ?s of Inr t \<Rightarrow> (case get_lx t 20 of Inr d \<Rightarrow> \<not> lx_killed d | Inl _ \<Rightarrow> False) | Inl _ \<Rightarrow> False"
    by code_simp
  then obtain t d where t: "linux_end sample_env ?s = Inr t" "get_lx t 20 = Inr d" "\<not> lx_killed d"
    by (auto split: sum.splits)
  have "progs_left (sch ?s) \<le> 0"
    by simp
  from linux_uses_closed_file [OF t(1) this] t show ?thesis
    by auto
qed

end
