(* ===== verification/Startup.thy ===== *)
theory Startup
  imports Fair Perf PerfFair FairBwCache Linux
begin

text \<open>
  The start of the executor under the policies that are linked into it: the list that the
  constructors of \<open>REGISTER_SCHEDULER\<close> fill (\<open>src/aff-executor.h\<close>, in the order in which
  \<open>src/Makefile\<close> links the policies), the choice of one of them by its name, \<open>main\<close> up to its loop for
  any arguments, and a concrete start.
\<close>

section \<open>The policies\<close>

definition aff_schedulers :: "aff_scheduler list" where
  "aff_schedulers = fold register_scheduler
     [linux_scheduler, perf_scheduler, fair_scheduler, perf_fair_scheduler, fair_bw_cache_scheduler] []"

lemma aff_schedulers_list:
  "aff_schedulers = [linux_scheduler, perf_scheduler, fair_scheduler, perf_fair_scheduler, fair_bw_cache_scheduler]"
  by (simp add: aff_schedulers_def register_scheduler_def)

lemma aff_schedulers_set:
  "set aff_schedulers = {fair_scheduler, perf_scheduler, perf_fair_scheduler, fair_bw_cache_scheduler, linux_scheduler}"
  by (auto simp: aff_schedulers_list)

lemma scheduler_names:
  "map sched_name aff_schedulers = [''linux'', ''perf'', ''fair'', ''perf_fair'', ''fair_bw_cache'']"
  by (simp add: aff_schedulers_list linux_scheduler_def perf_scheduler_def fair_scheduler_def
      perf_fair_scheduler_def fair_bw_cache_scheduler_def policy_scheduler_def)

lemma get_scheduler_Inr: "get_scheduler nm scheds = Inr S \<Longrightarrow> S \<in> set scheds \<and> sched_name S = nm"
  by (induction scheds) (auto split: if_splits)

lemma get_scheduler_finds:
  "distinct (map sched_name scheds) \<Longrightarrow> S \<in> set scheds \<Longrightarrow> get_scheduler (sched_name S) scheds = Inr S"
proof (induction scheds)
  case (Cons a scheds)
  then show ?case
    by (cases "S = a") (auto simp: image_iff)
qed simp

lemma get_scheduler_none: "nm \<notin> sched_name ` set scheds \<Longrightarrow> get_scheduler nm scheds = Inl (ExitWith 1)"
  by (induction scheds) auto

lemma exec_main_start:
  assumes "exec_main E scheds files argv s = Inr (S, t)"
  shows "S \<in> set scheds" and "main_start E S (files (argv ! 1)) (argv ! 2) s = Inr t"
  using assms by (auto simp: exec_main_def main_start_def bindR_eq_Inr split: if_splits dest: get_scheduler_Inr)

text \<open>Each of the five policies keeps the contract of the executor.\<close>

lemma keeps_contract:
  assumes "S \<in> set aff_schedulers"
  obtains f where "executor_policy S f"
  using assms fair.executor.executor_policy_axioms perf.executor.executor_policy_axioms
    perf_fair.executor.executor_policy_axioms fair_bw_cache.executor.executor_policy_axioms
    linux.executor_policy_axioms
  unfolding aff_schedulers_set fair_scheduler_def perf_scheduler_def perf_fair_scheduler_def fair_bw_cache_scheduler_def
  by blast

section \<open>A concrete start\<close>

text \<open>A machine with its memory controllers, and the state of the executor when the process starts.\<close>

definition pci_env :: env where
  "pci_env = sample_env\<lparr>pci_dev := (\<lambda>_. Some 0)\<rparr>"

definition sample_boot :: sys where
  "sample_boot = (sample_sys Map.empty [] [])\<lparr>running_nr := 0, mhz := (\<lambda>_. 0)\<rparr>"

lemma sample_boot_ok: "booted sample_boot"
  by (auto simp: booted_def sample_boot_def sample_simps sched_lists_def tv_norm_def qt_event_def)

lemma sample_boot_init:
  "\<exists>t. init_state pci_env (Some []) ''0'' sample_boot = Inr t \<and> exec_cpus t = [0] \<and> mach t = mach sample_boot
     \<and> (CMTAvail t, MBMTAvail t, MBMLAvail t, DTSAvail t, PLTAvail t, TurboModeON t) = (False, False, False, False, False, False)
     \<and> queue t = {#}"
proof -
  have "parse_intlist (\<lambda>_. True) ''0'' MAX_PROGS = Inr [0]"
    by code_simp
  moreover have "file_lines [] = Inr []"
    by code_simp
  ultimately show ?thesis
    by (simp add: init_state_def pci_env_def sample_env_def parse_file_def get_mems_all_def with_log_def ask_def bindR_eq_Inr
        heap_init_def dynarray_create_def hash_init_def heap_bag_empty_iff heap_size_def dynarray_size_def event_heap_def MAX_PROGS_def granted_def sizeof_dynarray_def ul_mul_small)
qed

lemma sample_boot_start: "\<exists>s. main_start pci_env linux_scheduler (Some []) ''0'' sample_boot = Inr s"
proof -
  obtain s where s: "init_state pci_env (Some []) ''0'' sample_boot = Inr s" "exec_cpus s = [0]" "mach s = mach sample_boot"
      "\<not> CMTAvail s" "\<not> MBMTAvail s" "\<not> MBMLAvail s" "\<not> DTSAvail s" "\<not> PLTAvail s" "\<not> TurboModeON s" "queue s = {#}"
    using sample_boot_init by blast
  have pci: "procr pci_env = sample_processor" "heap_mem_ok pci_env = (\<lambda>_. True)" "\<forall>x. pci_dev pci_env x \<noteq> None"
      "target_file pci_env = Some []"
    by (simp_all add: pci_env_def sample_env_def)
  have "case cpu_characteristics sample_processor \<lparr>cmt = False, mbmt = False, mbml = False, dts = False, plt = False, turbo = False\<rparr> of
      Inr (_, f) \<Rightarrow> \<not> turbo f | Inl _ \<Rightarrow> False"
    by code_simp
  then obtain u where u: "print_cpu_characteristics pci_env s = Inr u" "exec_cpus u = [0]" "mach u = mach s"
      "\<not> TurboModeON u" and frame: "quantum_frame s u"
    using s by (force simp: print_cpu_characteristics_def pci quantum_frame_def pool_def split: sum.splits)
  have "all_ok (mach u)"
    by (simp add: u s all_ok_def sample_boot_def sample_simps)
  from linux_counters_ok [OF this pci(3) u(2) _ u(4)] obtain c m where cm: "linux_counters pci_env u = Inr (c, m)"
    by auto
  let ?u = "upd_lx (linux_times_init (waiting_nr u) (results_ok pci_env))
               (u\<lparr>mach := m, sch := linux_sched_init c (waiting_nr u) (results_ok pci_env) (sch u)\<rparr>)"
  let ?v = "set_qt_event qt (upd_lx (\<lambda>l. l\<lparr>lx_times_target := lx_times_target (lx ?u)\<rparr>) ?u)"
  have "loop_ok u"
    using evolves_frame [OF frame] init_state_ok(1) [OF sample_boot_ok s(1)] by (simp add: evolves_def)
  then have "heap_inv (event_heap u)"
    by (simp add: loop_ok_def selection_ok_def queue_ok_def)
  moreover have "qt_event \<notin># queue u"
    using init_state_ok(2) [OF sample_boot_ok s(1)] frame by (simp add: quantum_frame_def)
  moreover have "heap_da (events_heap ?v) = heap_da (events_heap u)" "events ?v x = events u x" if "x \<noteq> qt_event" for x
    using that by (simp_all add: set_qt_event_def upd_lx_def)
  ultimately have heap: "heap_inv (event_heap ?v)"
    using heap_inv_events [of u ?v] qt_event_def by (metis zero_neq_one)
  have "\<forall>n. heap_mem_ok pci_env n"
    by (simp add: pci)
  moreover have "size (queue ?v) < heap_limit"
    using s(10) frame by (simp add: set_qt_event_def upd_lx_def event_heap_def heap_bag_block quantum_frame_def heap_limit_def)
  ultimately obtain w where "push_event pci_env qt_event ?v = Inr w"
    using push_event_total [OF heap] by blast
  then obtain x where x: "linux_init pci_env s = Inr x"
    using u(1) cm by (simp add: linux_init_def pci with_tod_simp read_times_from_file.simps [of _ "[]"] fgets_def)
  have "running_ok x"
    by (rule linux_init_running [OF init_state_ok [OF sample_boot_ok s(1)] x])
  then have "queue_ok x" "queue x \<noteq> {#}"
    by (auto simp: running_ok_def loop_ok_def selection_ok_def)
  then obtain e where "heap_peek (event_heap x) = Inr (Some e)"
    using peek_event_cases by blast
  moreover have ask: "ask pci_env a y = Inr y" for a y
    by (simp add: ask_def pci_env_def sample_env_def)
  ultimately show ?thesis
    using s(1) x by (simp add: main_start_def main_begin_def install_signal_handlers_def linux_scheduler_def
        with_ticks_simp with_tod_simp)
qed

lemma sample_boot_main:
  "\<exists>s. exec_main pci_env aff_schedulers [''random.in'' \<mapsto> []] [''aff-executor'', ''random.in'', ''0''] sample_boot
     = Inr (linux_scheduler, s)"
proof -
  have "get_scheduler ''linux'' aff_schedulers = Inr linux_scheduler"
    by (simp add: aff_schedulers_list linux_scheduler_def)
  then show ?thesis
    using sample_boot_start by (auto simp: exec_main_def main_start_def bindR_eq_Inr)
qed

section \<open>A policy that is not there\<close>

text \<open>What starting a program asks of the outside world.\<close>

definition forks :: "action list \<Rightarrow> nat" where
  "forks as = length (filter (\<lambda>a. case a of Forked pid \<Rightarrow> True | _ \<Rightarrow> False) as)"

definition harmless :: "action list \<Rightarrow> bool" where
  "harmless as \<longleftrightarrow> list_all (\<lambda>a. case a of SendKill pid \<Rightarrow> False | Thaw ident \<Rightarrow> False | FreezerShut ident \<Rightarrow> False
     | CpusetDeleted ident \<Rightarrow> False | ShmUnlinked ident \<Rightarrow> False | _ \<Rightarrow> True) as"

definition adds_acts :: "sys \<Rightarrow> action list \<Rightarrow> sys \<Rightarrow> bool" where
  "adds_acts s as t \<longleftrightarrow> acts t = acts s @ as \<and> waiting_nr t = waiting_nr s"

lemma upd_prog_acts: "upd_prog p f s = Inr t \<Longrightarrow> adds_acts s [] t"
  by (auto simp: upd_prog_Inr adds_acts_def)

lemma request_acts: "request E a s = Inr t \<Longrightarrow> adds_acts s [a] t"
  by (auto simp: request_Inr act_def adds_acts_def)

lemma adds_acts_trans: "adds_acts s as t \<Longrightarrow> adds_acts t bs u \<Longrightarrow> adds_acts s (as @ bs) u"
  by (simp add: adds_acts_def)

lemma prog_alloc_acts:
  assumes "aff_prog_alloc E n s = Inr (p, t)"
  shows "adds_acts s [CpusetCreated n] t"
proof -
  obtain u where u: "request E (CpusetCreated n) (s\<lparr>next_addr := next_addr s + 1, progs := (progs s)(p \<mapsto> fresh_prog E n)\<rparr>) = Inr u"
      "aff_shm_alloc E p u = Inr t"
    using assms by (auto simp: aff_prog_alloc_def malloc_Inr bindR_eq_Inr)
  have "adds_acts u [] t"
    using u(2) by (auto simp: aff_shm_alloc_def bindR_eq_Inr ask_Inr intro: upd_prog_acts)
  with request_acts [OF u(1)] show ?thesis
    by (simp add: adds_acts_def)
qed

lemma setcpurange_acts: "schedule_setcpurange E p i j s = Inr t \<Longrightarrow> \<exists>k bm. adds_acts s [SetCpus k bm] t"
  unfolding schedule_setcpurange_def schedule_setcpus_def do_setcpumask_def
  by (auto simp: bindR_eq_Inr dest!: upd_prog_acts request_acts) (auto simp: adds_acts_def)

lemma do_execute_acts:
  assumes "do_execute E p s = Inr t"
  obtains pid k bm q m where "adds_acts s [Forked pid, SetCpus k bm, MoveToCpuset q m] t"
proof -
  obtain f g u v w q m where r: "upd_prog p f (act (Forked (fork_pid E (fork_n s))) (s\<lparr>fork_n := Suc (fork_n s)\<rparr>)) = Inr u"
      "upd_prog p g u = Inr v" "schedule_setcpurange E p 0 (int (length (exec_cpus v))) v = Inr w"
      "request E (MoveToCpuset q m) w = Inr t"
    using assms by (auto simp: do_execute_def sched_prog_def aff_prog_print_def ask_Inr Let_def bindR_eq_Inr split: if_splits)
  obtain k bm where "adds_acts v [SetCpus k bm] w"
    using setcpurange_acts [OF r(3)] by blast
  with upd_prog_acts [OF r(1)] upd_prog_acts [OF r(2)] request_acts [OF r(4)]
  have "adds_acts s [Forked (fork_pid E (fork_n s)), SetCpus k bm, MoveToCpuset q m] t"
    by (simp add: adds_acts_def act_def)
  then show ?thesis by (rule that)
qed

text \<open>Every line of the workload starts one program, which stays frozen.\<close>

lemma parse_prog_acts:
  assumes "parse_prog E buff (n, s) = Inr (m, t)"
  shows "\<exists>as. acts t = acts s @ as \<and> waiting_nr t = waiting_nr s + 1 \<and> forks as = 1 \<and> harmless as"
proof -
  obtain e s1 p s2 l s3 s4 s5 s6 where r: "aff_evnt_alloc EVNT_NEWPROG s = Inr (e, s1)" "aff_prog_alloc E n s1 = Inr (p, s2)"
      "upd_prog p (fill_fields l) (s2\<lparr>running_core := s32_of_u64 (u64_of_int (pl_thr_needed l))\<rparr>) = Inr s3"
      "do_execute E p s3 = Inr s4" "new_event_prog e p s4 = Inr s5" "push_event E e s5 = Inr s6"
      "Inr (n + 1, s6\<lparr>waiting_nr := waiting_nr s6 + 1\<rparr>) = (Inr (m, t) :: (int \<times> sys) res)"
    using assms unfolding parse_prog_def prod.case by (elim bindR_pairE bindR_E) blast
  obtain pid k bm q i where "adds_acts s3 [Forked pid, SetCpus k bm, MoveToCpuset q i] s4"
    using do_execute_acts [OF r(4)] .
  moreover have "adds_acts s [] s1"
    using evnt_alloc_state [OF r(1)] by (simp add: adds_acts_def)
  moreover have "adds_acts s4 [] s6"
    using r(5,6) by (auto simp: new_event_prog_def push_event_def bindR_eq_Inr adds_acts_def)
  ultimately have "acts t = acts s @ [CpusetCreated n, Forked pid, SetCpus k bm, MoveToCpuset q i]"
      "waiting_nr t = waiting_nr s + 1"
    using prog_alloc_acts [OF r(2)] upd_prog_acts [OF r(3)] r(7) by (auto simp: adds_acts_def)
  then show ?thesis
    by (auto simp: forks_def harmless_def)
qed

lemma parse_progs_acts:
  "foldR (parse_prog E) ls (n, s) = Inr (m, t) \<Longrightarrow>
     \<exists>as. acts t = acts s @ as \<and> waiting_nr t = waiting_nr s + int (forks as) \<and> harmless as"
proof (induction ls arbitrary: n s)
  case Nil
  then show ?case by (auto simp: forks_def harmless_def)
next
  case (Cons l ls)
  then obtain k u where u: "parse_prog E l (n, s) = Inr (k, u)" "foldR (parse_prog E) ls (k, u) = Inr (m, t)"
    by (auto elim!: bindR_E)
  from parse_prog_acts [OF u(1)] Cons.IH [OF u(2)] show ?case
    by (fastforce simp: forks_def harmless_def)
qed

lemma init_state_acts:
  assumes "init_state E conf cpus_str s = Inr t"
  shows "\<exists>as. acts t = acts s @ as \<and> waiting_nr t = waiting_nr s + int (forks as) \<and> harmless as"
proof -
  obtain u v where "parse_file E conf u = Inr v" "acts u = acts s" "waiting_nr u = waiting_nr s" "acts t = acts v"
      "waiting_nr t = waiting_nr v"
    using assms unfolding init_state_def
    by (auto simp: get_mems_all_def with_log_def ask_Inr guardR_eq_Inr bindR_eq_Inr split: option.splits)
  then show ?thesis
    using parse_progs_acts by (fastforce simp: parse_file_def bindR_eq_Inr split: option.splits)
qed

text \<open>C38: A policy that does not exist is noticed too late: \<open>main\<close> looks the name up when the workload
  has been read, and ends with status 1; at that point every program of the workload has been
  started, as many as wait, and not one of them has been killed or thawed, nor its cpuset or its
  freezer removed.\<close>

theorem unknown_policy_leaves_programs:
  assumes "3 < length argv" and "length (argv ! 1) < 500"
    and "argv ! 3 \<notin> {''linux'', ''perf'', ''fair'', ''perf_fair'', ''fair_bw_cache''}"
    and "init_state E (files (argv ! 1)) (argv ! 2) s = Inr t"
  shows "exec_main E aff_schedulers files argv s = Inl (ExitWith 1)
    \<and> (\<exists>as. acts t = acts s @ as \<and> int (forks as) = waiting_nr t - waiting_nr s \<and> harmless as)"
proof -
  have "sched_name ` set aff_schedulers = {''linux'', ''perf'', ''fair'', ''perf_fair'', ''fair_bw_cache''}"
    using arg_cong [OF scheduler_names, of set] by simp
  with assms(3) have "get_scheduler (argv ! 3) aff_schedulers = Inl (ExitWith 1)"
    by (intro get_scheduler_none) simp
  with assms(1,2,4) have "exec_main E aff_schedulers files argv s = Inl (ExitWith 1)"
    by (simp add: exec_main_def)
  with init_state_acts [OF assms(4)] show ?thesis
    by (auto simp: algebra_simps)
qed

text \<open>A workload of one program.\<close>

definition one_program :: string where
  "one_program = join (CHR 0x09) (map show_nat [1, 0, 1, 1, 0] @ [''../bin/run'']) @ [CHR 0x0A]"

theorem unknown_policy_leaves_programs_witness:
  "\<exists>t. init_state pci_env (Some one_program) ''0'' sample_boot = Inr t
     \<and> exec_main pci_env aff_schedulers [''w'' \<mapsto> one_program] [''aff-executor'', ''w'', ''0'', ''gang''] sample_boot = Inl (ExitWith 1)
     \<and> waiting_nr t = 1 \<and> (\<exists>as. acts t = acts sample_boot @ as \<and> forks as = 1)"
proof -
  have "case init_state pci_env (Some one_program) ''0'' sample_boot of Inr t \<Rightarrow> waiting_nr t = 1 | Inl _ \<Rightarrow> False"
    by code_simp
  then obtain t where t: "init_state pci_env (Some one_program) ''0'' sample_boot = Inr t" "waiting_nr t = 1"
    by (auto split: sum.splits)
  have "waiting_nr sample_boot = 0"
    by (simp add: sample_boot_def sample_simps)
  with unknown_policy_leaves_programs [of "[''aff-executor'', ''w'', ''0'', ''gang'']" pci_env "[''w'' \<mapsto> one_program]" sample_boot t] t
  show ?thesis
    by auto
qed

end
