(* ===== verification/Returns.thy ===== *)
theory Returns
  imports Startup
begin

text \<open>
  Which runs of the executor come back. The operations are total functions, and the loop over the
  events ends (theory \<open>Loop\<close>), with one wait that may last for ever: the parent polls the freezer until
  a program that it has forked has frozen itself (\<open>await_frozen\<close>), whose answer is \<open>NeverReturns\<close> where no
  poll ends the wait. The theory shows that this wait is the only one: whatever a policy or the main loop
  answers, it is not \<open>NeverReturns\<close> except for a child whose group no poll ever finds frozen. The
  rules are a collection, one per combinator and one per operation, and an operation is shown to
  answer by applying them to its definition.
\<close>

text \<open>No poll ends the wait for the \<open>n\<close>-th child.\<close>

definition never_freezes :: "env \<Rightarrow> nat \<Rightarrow> int \<Rightarrow> bool" where
  "never_freezes E n ident \<longleftrightarrow> (\<forall>k. \<not> poll_ends (idpath ident) (child_fs E n k))"

definition answers :: "env \<Rightarrow> 'a res \<Rightarrow> bool" where
  "answers E m \<longleftrightarrow> (\<forall>n ident. m = Inl (NeverReturns n ident) \<longrightarrow> never_freezes E n ident)"

named_theorems answers_rules \<open>operations that come back\<close>

section \<open>Combinators\<close>

lemma answers_values [answers_rules]:
  "answers E (Inr x)" "answers E (Inl (ExitWith n))" "answers E (Inl AssertFailed)" "answers E (Inl DivideError)"
  "answers E (Inl BadAccess)" "answers E (Inl UseAfterFree)"
  by (simp_all add: answers_def)

lemma answers_bindR [answers_rules]: "answers E m \<Longrightarrow> (\<And>x. answers E (f x)) \<Longrightarrow> answers E (bindR m f)"
  by (cases m) (simp_all add: answers_def)

lemma answers_foldR [answers_rules]: "(\<And>x s. answers E (f x s)) \<Longrightarrow> answers E (foldR f xs s)"
  by (induction xs arbitrary: s) (simp_all add: answers_values answers_bindR)

lemma answers_cases [answers_rules]:
  "answers E a \<Longrightarrow> answers E b \<Longrightarrow> answers E (if c then a else b)"
  "(\<And>x y. answers E (p x y)) \<Longrightarrow> answers E (case_prod p z)"
  "(\<And>x y. answers E (p' x y s)) \<Longrightarrow> answers E (case_prod p' z s)"
  "answers E a \<Longrightarrow> (\<And>x. answers E (g x)) \<Longrightarrow> answers E (case_option a g opt)"
  "answers E a \<Longrightarrow> (\<And>x xs. answers E (h x xs)) \<Longrightarrow> answers E (case_list a h l)"
  "answers E a \<Longrightarrow> answers E b \<Longrightarrow> answers E c' \<Longrightarrow> answers E (case_event_kind a b c' k)"
  by (auto split: prod.split option.split list.split event_kind.split)

lemma answers_Let [answers_rules]: "(\<And>x. answers E (f x)) \<Longrightarrow> answers E (Let t f)"
  by (simp add: Let_def)

lemma answers_clocks [answers_rules]:
  "(\<And>now s. answers E (f now s)) \<Longrightarrow> answers E (with_tod E f s)"
  "(\<And>now s. answers E (g now s)) \<Longrightarrow> answers E (with_ticks E g s)"
  by (simp_all add: with_tod_simp with_ticks_simp)

section \<open>The data structures\<close>

lemma answers_guardR [answers_rules]: "(\<And>n ident. e \<noteq> NeverReturns n ident) \<Longrightarrow> answers E (guardR c e x)"
  by (simp add: guardR_def answers_def)

lemma answers_arrays [answers_rules]:
  "answers E (arr_get xs i)" "answers E (arr_set ys i v)" "answers E (arr_upd zs i u)"
  unfolding arr_get_def arr_set_def arr_upd_def by (intro answers_rules)+

lemma answers_dynarray [answers_rules]:
  "answers E (dynarray_get da i)" "answers E (dynarray_alloc mem_ok db)"
  unfolding dynarray_alloc_def dynarray_get_last_def dynarray_get_def dynarray_expand_def by (intro answers_rules)+

lemma answers_heap_pos [answers_rules]: "answers E (siftdown heap pos e)" "answers E (heap_pop_pos heap' pos')"
  unfolding siftdown_def heap_pop_pos_def by (intro answers_rules)+

lemma answers_heap [answers_rules]:
  "answers E (heap_push mem_ok heap e)" "answers E (heap_peek heap')" "answers E (heap_pop heap'')" "answers E (heap_pop_elem heap3 e3)"
  unfolding heap_push_def heap_peek_def heap_pop_def heap_pop_elem_def by (intro answers_rules)+

lemma answers_hash [answers_rules]: "answers E (hash_insert h key v)" "answers E (hash_delete h' key')"
  unfolding hash_insert_def hash_delete_def hash_fn_def by (intro answers_rules)+

section \<open>The counters\<close>

lemma answers_msr [answers_rules]: "answers E (prfcnt_rdmsr c reg m)" "answers E (prfcnt_wrmsr c' reg' v m')"
  unfolding prfcnt_rdmsr_def prfcnt_wrmsr_def by (intro answers_rules)+

lemma answers_prfcnt [answers_rules]:
  "answers E (prfcnt_start hd1 m1)" "answers E (prfcnt_pause hd2 m2)" "answers E (prfcnt_read_cnts_rdmsr hd3 m3)"
  "answers E (prfcnt_zerocounters hd4 m4)"
  unfolding prfcnt_start_def prfcnt_pause_def prfcnt_read_cnts_rdmsr_def read_counter_def prfcnt_zerocounters_def
    wrmsrs_def by (intro answers_rules)+

lemma answers_counters [answers_rules]:
  "answers E (ss_aff_counter_start c k m)" "answers E (ss_aff_stop_counter c k m)" "answers E (ss_aff_read_counter c k m)"
  "answers E (ss_aff_counters_start c m)" "answers E (ss_aff_stop_counters c m)" "answers E (ss_aff_read_counters c m)"
  "answers E (ss_aff_zero_cntrs c m)" "answers E (startPower c m)" "answers E (stopPower c m)"
  unfolding ss_aff_counter_start_def ss_aff_stop_counter_def ss_aff_read_counter_def ss_aff_counters_start_def
    ss_aff_stop_counters_def ss_aff_read_counters_def ss_aff_zero_cntrs_def startPower_def stopPower_def
    pause_core_def read_core_def by (intro answers_rules)+

lemma answers_stats [answers_rules]:
  "answers E (ss_aff_stats_init c st now)" "answers E (ss_aff_stats_start c cp rd st)" "answers E (ss_aff_stats_pause c cp rd st)"
  "answers E (read_stats c cp rd st)" "answers E (ss_aff_stats_shutdown c cp rd st)"
  unfolding ss_aff_stats_init_def ss_aff_stats_alloc_def ss_aff_stats_start_def ss_aff_stats_pause_def read_stats_def
    ss_aff_stats_read_def ss_aff_stats_shutdown_def by (intro answers_rules)+

section \<open>The executor\<close>

lemma answers_access [answers_rules]:
  "answers E (get_prog s p)" "answers E (get_pd s p)" "answers E (upd_prog p f s)" "answers E (upd_pd p g s)"
  "answers E (get_event s e)" "answers E (get_cntrs s)" "answers E (request E a s)" "answers E (ask E a s)"
  "answers E (malloc s)" "answers E (with_log E s)" "answers E (with_files s)"
  unfolding upd_pd_def upd_prog_def get_pd_def get_prog_def get_event_def get_cntrs_def request_def ask_def
    malloc_def with_log_def with_files_def by (intro answers_rules fault.simps)+

lemma answers_report_secs [answers_rules]: "answers E (report_secs E u s)"
  unfolding report_secs_def getMhz_def getMhz_script_def by (intro answers_rules)

lemma answers_print [answers_rules]:
  "answers E (aff_prog_cpuset_str E p s)" "answers E (aff_prog_print E p s)" "answers E (aff_prog_check_status E p exited s)"
  unfolding aff_prog_cpuset_str_def aff_prog_print_def aff_prog_check_status_def by (intro answers_rules fault.simps)+

lemma answers_life_cycle [answers_rules]:
  "answers E (aff_prog_waiting_new p s)" "answers E (aff_prog_new_running E p s)" "answers E (aff_prog_running_finished E pid exited s)"
  "answers E (push_event E e s)" "answers E (aff_evnt_alloc k s)" "answers E (new_event_prog e p s)"
  unfolding aff_prog_waiting_new_def aff_prog_new_running_def aff_prog_running_finished_def push_event_def
    aff_evnt_alloc_def new_event_prog_def by (intro answers_rules)+

lemma answers_processors [answers_rules]:
  "answers E (schedule_setcpurange E p rstart rend s)" "answers E (schedule_reattach p s)" "answers E (get_cpus E p s)"
  "answers E (sched_prog E p s)"
  unfolding schedule_setcpurange_def schedule_setcpus_def do_setcpumask_def range_mask_def schedule_reattach_def
    get_cpus_def sched_prog_def by (intro answers_rules)+

lemma answers_programs [answers_rules]: "answers E (aff_prog_alloc E ident s)" "answers E (aff_prog_dealloc E p s)"
  unfolding aff_prog_alloc_def aff_shm_alloc_def aff_prog_dealloc_def aff_shm_dealloc_def by (intro answers_rules)+

text \<open>The wait for a program that was started lasts for ever exactly where no poll ends it.\<close>

lemma frzr_getstate_ends: "frzr_getstate ident path fs \<noteq> Inl (NeverReturns n m)"
  by (auto simp: frzr_getstate_def frzr_setpath_def strip_newline_def lookup_state_def bindR_def Let_def
      split: sum.splits option.splits if_splits)

lemma await_frozen_answer:
  obtains (never) "await_frozen E n ident = Inl (NeverReturns n ident)" and "never_freezes E n ident"
    | (ends) "\<And>m j. await_frozen E n ident \<noteq> Inl (NeverReturns m j)" and "\<not> never_freezes E n ident"
proof (cases "wait_frozen (idpath ident) frzr_path0 (child_fs E n) 0")
  case None
  with wait_frozen_None [of "idpath ident" "child_fs E n" 0] show thesis
    by (intro never) (simp_all add: await_frozen_def never_freezes_def)
next
  case (Some r)
  from wait_frozen_Some [OF Some path0_ok] obtain k where k: "poll_ends (idpath ident) (child_fs E n k)"
      "r = (case frzr_getstate (idpath ident) frzr_path0 (child_fs E n k) of Inl e \<Rightarrow> Inl e | Inr _ \<Rightarrow> Inr k)"
    by blast
  have "r \<noteq> Inl (NeverReturns m j)" for m j
    using k(2) frzr_getstate_ends by (auto split: sum.splits)
  with Some k(1) show thesis
    by (intro ends) (auto simp: await_frozen_def never_freezes_def)
qed

lemma await_frozen_iff: "await_frozen E n ident = Inl (NeverReturns n ident) \<longleftrightarrow> never_freezes E n ident"
  by (cases rule: await_frozen_answer [of E n ident]) simp_all

lemma answers_await_frozen [answers_rules]: "answers E (await_frozen E n ident)"
  by (cases rule: await_frozen_answer [of E n ident]) (simp_all add: answers_def)

lemma answers_do_execute [answers_rules]: "answers E (do_execute E p s)"
  unfolding do_execute_def by (intro answers_rules)

lemma answers_prog_respawn [answers_rules]: "answers E (prog_respawn E p ident s)"
  unfolding prog_respawn_def by (intro answers_rules)

lemma answers_process [answers_rules]:
  "answers E (check_shutdown E s)" "answers E (signals_disable E s)" "answers E (signals_enable E s)"
  unfolding check_shutdown_def shutdown_def signals_disable_def signals_enable_def by (intro answers_rules)+

lemma answers_reap [answers_rules]: "answers E (reap E rs sd)"
  by (induction E rs sd rule: reap.induct) (auto intro!: answers_rules)

section \<open>The common part of the policies\<close>

text \<open>The loops over the counters and the statistics take the operation as an argument.\<close>

lemma answers_on_machine [answers_rules]:
  "(\<And>c m. answers E (f c m)) \<Longrightarrow> answers E (on_machine f s)"
  "(\<And>c m. answers E (g c m)) \<Longrightarrow> answers E (on_cntrs g s)"
  "answers E (on_both h s)"
  "(\<And>c cp rd st. answers E (k c cp rd st)) \<Longrightarrow> answers E (on_stats E k p s)"
  unfolding on_machine_def on_cntrs_def on_both_def on_stats_def by (intro answers_rules; assumption)+

lemma answers_metrics [answers_rules]:
  "answers E (get_offcore_metrics s)" "answers E (sched_initial_metrics E s)" "answers E (sched_print_counters p s)"
  "answers E (sched_update_prfm p s)" "answers E (sched_print_prog_finish E p s)"
  unfolding get_offcore_metrics_def sched_initial_metrics_def print_pro_execution_metrics_def
    get_pro_execution_metrics_def sched_print_counters_def sched_update_prfm_def sched_print_prog_finish_def
  by (intro answers_rules)+

lemma answers_totals [answers_rules]:
  "answers E (update_totals pd current sc)" "answers E (sched_update_totals E p s)" "answers E (sched_print_totals E s)"
  unfolding sched_update_totals_def update_totals_def sched_print_totals_def by (intro answers_rules)+

lemma answers_sched_clocks [answers_rules]:
  "answers E (sched_update_waiting E p s)" "answers E (sched_init_clock E p s)" "answers E (sched_update_clock E p s)"
  unfolding sched_update_waiting_def sched_init_clock_def sched_update_clock_def sched_start_clock_def
    sched_stop_clock_def by (intro answers_rules)+

lemma answers_sched_programs [answers_rules]:
  "answers E (sched_add_prog E p s)" "answers E (sched_del_prog E p s)" "answers E (sched_finalization s)"
  "answers E (sched_clear_prog E p s)"
  unfolding sched_add_prog_def sched_prog_alloc_def prog_name_def sched_del_prog_def sched_prog_data_free_def
    sched_finalization_def sched_close_results_files_def sched_clear_prog_def by (intro answers_rules)+

section \<open>The policies of the quantum\<close>

lemma answers_sort_all [answers_rules]: "answers E (sort_all s)" "answers E (check_data p s)"
  unfolding sort_all_def check_data_def by (intro answers_rules)+

lemma answers_on_sched [answers_rules]:
  "(\<And>pd. answers E (f pd)) \<Longrightarrow> answers E (upd_pd_res p f s)"
  "(\<And>pd sc. answers E (g pd sc)) \<Longrightarrow> answers E (on_sched g p s)"
  unfolding upd_pd_res_def on_sched_def by (intro answers_rules; assumption)+

lemma answers_measures [answers_rules]:
  "answers E (update_progress unh pd)" "answers E (collect_ipc pd)" "answers E (co_running pd)" "answers E (charge_target pd sc)"
  unfolding update_progress_def collect_ipc_def co_running_def charge_target_def by (intro answers_rules)+

lemma answers_kill [answers_rules]: "answers E (kill_app E p s)" "answers E (kill_all E s)"
  unfolding kill_app_def kill_all_def kill_one_def kill_instr_def kill_times_def by (intro answers_rules)+

lemma answers_quantum [answers_rules]:
  "answers E (thaw_sched E s)" "answers E (stop_quantum E s)" "answers E (account_measures E p s)"
  unfolding thaw_sched_def thaw_prog_def stop_quantum_def freeze_prog_def account_measures_def measure_prog_def
  by (intro answers_rules)+

lemma answers_place [answers_rules]:
  "answers E (take_cores E p cs)" "answers E (place E p cs)" "answers E (monitor E s)" "answers E (fill_rest_cores E cs)"
  unfolding take_cores_def place_def monitor_def fill_rest_cores_def fill_step_def assign_cores_def
  by (intro answers_rules)+

lemma answers_fill_left [answers_rules]: "(\<And>cores s. answers E (chosen cores s)) \<Longrightarrow> answers E (fill_left E chosen cores s)"
  unfolding fill_left_def by (intro answers_rules)

lemma answers_new_prog [answers_rules]: "answers E (new_prog E p s)"
  unfolding new_prog_def by (intro answers_rules)

section \<open>The contract\<close>

text \<open>What a policy of the quantum owes: its own functions come back. Then so does its work.\<close>

locale answering_policy =
  fixes P :: policy
  assumes collect: "answers E (pol_collect P reads pd)"
    and progress: "answers E (pol_progress P mon unh pd)"
    and finish: "answers E (pol_finish P pd)"
    and pick: "answers E (pol_pick P E s)"
begin

lemma freeze: "answers E (freeze_sched P E s)"
  unfolding freeze_sched_def account_prog_def settle_prog_def wait_prog_def
  by (intro answers_rules collect progress)

lemma ends: "answers E (last_measures P E p s)"
  unfolding last_measures_def respawn_def stop_all_def by (intro answers_rules finish freeze)

lemma rebalances: "answers E (policy_rebalance P E s)"
  unfolding policy_rebalance_def finished_prog_def by (intro answers_rules ends)

lemma expires: "answers E (policy_qexpired P E now s)"
  unfolding policy_qexpired_def quantum_work_def schedule_def by (intro answers_rules freeze pick)

end

text \<open>What the executor needs of a policy: that the functions it registers come back.\<close>

locale answering_scheduler =
  fixes S :: aff_scheduler
  assumes rebalances: "answers E (rebalance S E s)"
    and expires: "\<And>f. qexpired S = Some f \<Longrightarrow> answers E (f E now s)"
    and changes: "\<And>f. prog_changed S = Some f \<Longrightarrow> answers E (f p n s)"
begin

lemma sigchld: "answers E (sigchld_handler E S rs s)"
  unfolding sigchld_handler_def by (intro answers_rules rebalances)

lemma handles:
  shows "answers E (handle_event E S e now s)"
proof -
  have expired: "answers E (case qexpired S of Some f \<Rightarrow> f E now s | None \<Rightarrow> Inr s)"
    using expires by (auto simp: answers_values split: option.split)
  show ?thesis
    unfolding handle_event_def by (intro answers_rules expired)
qed

lemma reads: "answers E (read_notifications S cnt ps r)"
proof (induction ps arbitrary: cnt r)
  case (Cons p ps)
  have changed: "answers E (case prog_changed S of Some f \<Rightarrow> f p n s | None \<Rightarrow> Inr (False, s))" for n s
    using changes by (auto simp: answers_values split: option.split)
  obtain rebal fds s where r: "r = (rebal, fds, s)"
    using prod_cases3 .
  show ?case
    unfolding r read_notifications.simps by (intro answers_rules changed Cons.IH)
qed (simp add: answers_values)

lemma wakes:
  shows "answers E (wake_up E S w s)"
proof (cases w)
  case (Readable ps)
  show ?thesis
    unfolding Readable wake_up.simps handle_prog_notifications_def by (intro answers_rules reads rebalances)
qed (simp_all add: answers_values sigchld)

lemma selects: "answers E (select_once E S w s)"
  unfolding select_once_def reset_quantum_def by (intro answers_rules wakes)

lemma selection:
  assumes "select_ready_events E S now s = Some r"
  shows "answers E r"
proof -
  let ?P = "\<lambda>E S now s r. answering_scheduler S \<longrightarrow> answers E r"
  have "?P E S now s r"
  proof (rule select_ready_events.raw_induct [OF _ assms, where P = ?P])
    fix rec E' S' now' s' r'
    assume IH: "\<And>E S now s r. rec E S now s = Some r \<Longrightarrow> ?P E S now s r"
      and step: "(case heap_peek (event_heap s') of
         Inl f \<Rightarrow> Some (Inl f)
       | Inr None \<Rightarrow> Some (Inr (s', None))
       | Inr (Some e) \<Rightarrow> (case get_event s' e of
             Inl f \<Rightarrow> Some (Inl f)
           | Inr ev \<Rightarrow>
               if timer_gt (tv ev) now' then Some (Inr (s', Some (timersub (tv ev) now')))
               else (case heap_pop (event_heap s') of
                   Inl f \<Rightarrow> Some (Inl f)
                 | Inr (h, r) \<Rightarrow> (case handle_event E' S' (case r of Some e' \<Rightarrow> e' | None \<Rightarrow> e) now' (s'\<lparr>events_heap := h\<rparr>) of
                       Inl f \<Rightarrow> Some (Inl f)
                     | Inr s' \<Rightarrow> rec E' S' now' s')))) = Some r'"
    show "?P E' S' now' s' r'"
    proof (intro impI)
      assume "answering_scheduler S'"
      note handled = answering_scheduler.handles [OF this]
      have pass: "answers E' (Inl f :: (sys \<times> timeval option) res)" if "m = Inl f" "answers E' m" for f and m :: "'x res"
        using that by (simp add: answers_def)
      from step IH \<open>answering_scheduler S'\<close> show "answers E' r'"
        using pass [of "heap_peek (event_heap s')"] pass [of "heap_pop (event_heap s')"]
        by (auto simp: answers_values answers_heap answers_access split: sum.splits option.splits prod.splits if_splits
            intro: pass [OF _ handled] pass [OF _ answers_heap(2)] pass [OF _ answers_heap(3)] pass [OF _ answers_access(5)])
    qed
  qed
  then show ?thesis
    using answering_scheduler_axioms by blast
qed

lemma round_comes_back:
  assumes "main_round E S ws s = Some r"
  shows "answers E r"
proof -
  have events: "answers E q" if run: "handle_events E S u = Some q" for u q
  proof -
    obtain now v where v: "get_now E u = (now, v)"
      by (cases "get_now E u")
    then obtain m where m: "select_ready_events E S now v = Some m"
        "q = bindR m (\<lambda>(s, w). bindR (if new_nr s > 0 then rebalance S E s else Inr s) (\<lambda>s.
           Inr (s, case w of Some t \<Rightarrow> t | None \<Rightarrow> \<lparr>tv_sec = 0, tv_usec = 0\<rparr>)))"
      using run by (auto simp: handle_events_def)
    show ?thesis
      unfolding m(2) by (intro answers_rules selection [OF m(1)] rebalances)
  qed
  show ?thesis
  proof (cases "signals_disable E s")
    case (Inl f)
    with answers_process(2) [of E s] assms show "answers E r"
      by (auto simp: main_round_def answers_def)
  next
    case (Inr u)
    then obtain q where q: "handle_events E S u = Some q"
        "r = bindR q (\<lambda>(s, next_wakeup). bindR (signals_enable E s) (\<lambda>s.
           bindR (foldR (select_once E S) (ws @ [Timeout]) s) (check_shutdown E)))"
      using assms by (auto simp: main_round_def)
    show ?thesis
      unfolding q(2) by (intro answers_rules events [OF q(1)] selects)
  qed
qed

end

text \<open>A policy of the quantum is registered without a callback for notifications.\<close>

sublocale answering_policy \<subseteq> registered: answering_scheduler "policy_scheduler nm P" for nm
  by unfold_locales (auto simp: policy_scheduler_def rebalances expires)

section \<open>The policies\<close>

lemma answers_fair:
  "answers E (fair_collect reads pd)" "answers E (fair_progress mon unh pd)" "answers E (fair_finish pd)" "answers E (fair_pick E s)"
  unfolding fair_collect_def fair_progress_def fair_finish_def fair_pick_def by (intro answers_rules)+

interpretation answering_fair: answering_policy fair_policy
  by unfold_locales (simp_all add: fair_policy_def answers_fair)

text \<open>The loops that fill the cores go on with the state that the pick before left.\<close>

lemma answers_bindR_iff: "answers E (bindR m f) \<longleftrightarrow> answers E m \<and> (\<forall>x. m = Inr x \<longrightarrow> answers E (f x))"
  by (cases m) (simp_all add: answers_def)

lemma answers_perf_next: "answers E (perf_next cores bw s)"
  unfolding perf_next_def perf_max_waiting_def perf_max_fitness_def longer_waiting_def fitter_def
  by (intro answers_rules)

lemma answers_perf_fill: "answers E (perf_fill E cores bw s)"
proof (induction E cores bw s rule: perf_fill.induct)
  case (1 E cores bw s)
  show ?case
    by (subst perf_fill.simps)
      (auto simp: answers_bindR_iff answers_perf_next answers_access answers_place answers_values
        split: option.split intro!: 1)
qed

lemma answers_perf:
  "answers E (perf_collect reads pd)" "answers E (perf_progress mon unh pd)" "answers E (perf_pick E s)"
  unfolding perf_collect_def perf_progress_def perf_pick_def by (intro answers_rules answers_perf_fill)+

interpretation answering_perf: answering_policy perf_policy
  by unfold_locales (simp_all add: perf_policy_def answers_perf answers_values)

lemma answers_good_neighbors: "answers E (good_neighbors bw s)"
  unfolding good_neighbors_def closer_def by (intro answers_rules)

lemma answers_fill_neighbors: "answers E (fill_neighbors E cores bw s)"
proof (induction E cores bw s rule: fill_neighbors.induct)
  case (1 E cores bw s)
  show ?case
    by (subst fill_neighbors.simps)
      (auto simp: answers_bindR_iff answers_good_neighbors answers_access answers_place answers_values intro!: 1)
qed

lemma answers_perf_fair:
  "answers E (perf_fair_collect reads pd)" "answers E (perf_fair_progress mon unh pd)" "answers E (perf_fair_finish pd)"
  "answers E (perf_fair_pick E s)"
  unfolding perf_fair_collect_def perf_fair_progress_def perf_fair_finish_def perf_fair_pick_def admit_step_def fill_cores_def
  by (intro answers_rules answers_fill_neighbors)+

interpretation answering_perf_fair: answering_policy perf_fair_policy
  by unfold_locales (simp_all add: perf_fair_policy_def answers_perf_fair)

lemma answers_class_neighbors: "answers E (class_neighbors bw s)"
  unfolding class_neighbors_def smaller_def by (intro answers_rules)

lemma answers_fill_class: "answers E (fill_class E bw cores s)"
proof (induction E bw cores s rule: fill_class.induct)
  case (1 E bw cores s)
  show ?case
    by (subst fill_class.simps)
      (auto simp: answers_bindR_iff answers_class_neighbors answers_access answers_place answers_values
        split: option.split intro!: 1)
qed

lemma answers_fair_bw_cache:
  "answers E (fair_bw_cache_collect reads pd)" "answers E (fair_bw_cache_progress mon unh pd)"
  "answers E (fair_bw_cache_finish pd)" "answers E (fair_bw_cache_pick E s)"
  unfolding fair_bw_cache_collect_def fair_bw_cache_progress_def fair_bw_cache_finish_def fair_bw_cache_pick_def
    class_step_def fill_class_cores_def
  by (intro answers_rules answers_fill_class)+

interpretation answering_fair_bw_cache: answering_policy fair_bw_cache_policy
  by unfold_locales (simp_all add: fair_bw_cache_policy_def answers_fair_bw_cache)

section \<open>The policy that leaves the choice to the kernel\<close>

lemma answers_lx [answers_rules]:
  "answers E (get_lx s p)" "answers E (set_lx p d s)" "answers E (with_energy s)" "answers E (read_cpu_time E p s)"
  unfolding read_cpu_time_def get_lx_def set_lx_def with_energy_def by (intro answers_rules fault.simps)+

lemma answers_linux_new [answers_rules]: "answers E (linux_new E p s)"
  unfolding linux_new_def linux_add_prog_def linux_prog_name_def by (intro answers_rules)

lemma answers_linux_end [answers_rules]: "answers E (linux_end E s)"
  unfolding linux_end_def linux_print_totals_def by (intro answers_rules)

lemma answers_linux_finished [answers_rules]: "answers E (linux_finished E p s)"
  unfolding linux_finished_def linux_program_finished_def finish_times_def linux_next_run_def by (intro answers_rules)

lemma answers_linux_rebalance: "answers E (linux_rebalance E s)"
  unfolding linux_rebalance_def by (intro answers_rules)

lemma answers_linux_qexpired: "answers E (linux_qexpired E now s)"
  unfolding linux_qexpired_def linux_work_def linux_check_def has_run_enough_def linux_kill_def charge_kill_def
    linux_finale_def by (intro answers_rules)

interpretation answering_linux: answering_scheduler linux_scheduler
  by unfold_locales (auto simp: linux_scheduler_def answers_linux_rebalance answers_linux_qexpired)

section \<open>Every policy\<close>

lemma answering_contract:
  assumes "S \<in> set aff_schedulers"
  shows "answering_scheduler S"
  using assms answering_fair.registered.answering_scheduler_axioms answering_perf.registered.answering_scheduler_axioms
    answering_perf_fair.registered.answering_scheduler_axioms
    answering_fair_bw_cache.registered.answering_scheduler_axioms answering_linux.answering_scheduler_axioms
  unfolding aff_schedulers_set fair_scheduler_def perf_scheduler_def perf_fair_scheduler_def fair_bw_cache_scheduler_def
  by blast

text \<open>In the environment of the concrete start every child is found frozen.\<close>

lemma pci_env_freezes: "poll_ends (idpath ident) (child_fs pci_env n k)"
  using frzr_getstate_reads [of frzr_path0 "idpath ident" frozen_fs] path0_ok
  by (auto simp: poll_ends_def pci_env_def sample_env_def frozen_fs_def kernel_ok_def example_fs_def idpath_def)

end
