(* ===== verification/Lifecycle.thy ===== *)
theory Lifecycle
  imports Quantum Samples
begin

text \<open>
  What happens to a program between its start and its end, whatever the policy: the processors it
  may run on, the clocks that account for its time, its end when it is killed, and the end of the
  experiment.
\<close>

section \<open>Processors\<close>

lemma bitmask_setbit_type:
  assumes "distinct bm" and "\<forall>x \<in> set bm. x < cpus_nbits E"
  shows "distinct (bitmask_setbit E bm c)" and "\<forall>x \<in> set (bitmask_setbit E bm c). x < cpus_nbits E"
  using assms by (auto simp: bitmask_setbit_def)

lemma range_mask_type:
  assumes "range_mask E cs lo hi = Inr bm"
  shows "distinct bm \<and> (\<forall>x \<in> set bm. x < cpus_nbits E)"
proof (rule foldR_invariant [OF assms [unfolded range_mask_def], where P = "\<lambda>bm. distinct bm \<and> (\<forall>x \<in> set bm. x < cpus_nbits E)"])
  fix i bm bm'
  assume old: "distinct bm \<and> (\<forall>x \<in> set bm. x < cpus_nbits E)"
    and run: "bindR (arr_get cs i) (\<lambda>c. Inr (bitmask_setbit E bm c)) = Inr bm'"
  from run obtain c where "bm' = bitmask_setbit E bm c"
    unfolding bindR_eq_Inr by blast
  then show "distinct bm' \<and> (\<forall>x \<in> set bm'. x < cpus_nbits E)"
    using bitmask_setbit_type [of bm E c] old by blast
next
  show "distinct [] \<and> (\<forall>x \<in> set []. x < cpus_nbits E)" by simp
qed

lemma setbit_loop:
  "\<forall>i \<in> set is. 0 \<le> i \<and> i < int (length cs) \<Longrightarrow>
    \<exists>bm'. foldR (\<lambda>i bm. bindR (arr_get cs i) (\<lambda>c. Inr (bitmask_setbit E bm c))) is bm = Inr bm'
      \<and> set bm' = set bm \<union> {nat (cs ! nat i) | i. i \<in> set is \<and> 0 \<le> cs ! nat i \<and> cs ! nat i < int (cpus_nbits E)}"
proof (induction "is" arbitrary: bm)
  case Nil
  then show ?case by simp
next
  case (Cons i "is")
  let ?f = "\<lambda>i bm. bindR (arr_get cs i) (\<lambda>c. Inr (bitmask_setbit E bm c))"
  have "\<forall>i \<in> set is. 0 \<le> i \<and> i < int (length cs)"
    using Cons.prems by simp
  from Cons.IH [OF this, of "bitmask_setbit E bm (cs ! nat i)"] obtain bm'
    where bm': "foldR ?f is (bitmask_setbit E bm (cs ! nat i)) = Inr bm'"
      "set bm' = set (bitmask_setbit E bm (cs ! nat i)) \<union>
        {nat (cs ! nat i) | i. i \<in> set is \<and> 0 \<le> cs ! nat i \<and> cs ! nat i < int (cpus_nbits E)}"
    by blast
  have "foldR ?f (i # is) bm = Inr bm'"
    using Cons.prems bm'(1) by (simp add: arr_get_def)
  moreover have "set (bitmask_setbit E bm (cs ! nat i)) =
      set bm \<union> (if 0 \<le> cs ! nat i \<and> cs ! nat i < int (cpus_nbits E) then {nat (cs ! nat i)} else {})"
    by (auto simp: bitmask_setbit_def)
  ultimately show ?case
    unfolding bm'(2) by (intro exI [of _ bm']) (auto simp: bm'(2))
qed

lemma setbit_loop_out:
  "i \<in> set is \<Longrightarrow> \<not> (0 \<le> i \<and> i < int (length cs)) \<Longrightarrow>
    foldR (\<lambda>i bm. bindR (arr_get cs i) (\<lambda>c. Inr (bitmask_setbit E bm c))) is bm = Inl BadAccess"
  by (induction "is" arbitrary: bm) (auto simp: arr_get_def)

text \<open>C18: A set of processors is well formed. \<open>schedule_setcpurange\<close> for positions of the executor's
  list gives the program the processors at these positions, those that fit the bit mask, each
  once, and tells it their number through the shared page; for a position outside the list it
  reads outside the array. Nothing else of the program changes.\<close>

theorem setcpurange_gives_processors:
  assumes "progs s p = Some prog" and "\<forall>a. sys_ok E a"
  shows "if 0 \<le> lo \<and> hi \<le> int (length (exec_cpus s)) \<or> hi \<le> lo
    then \<exists>bm t. schedule_setcpurange E p lo hi s = Inr t \<and> distinct bm
      \<and> set bm = {nat (exec_cpus s ! nat i) | i. lo \<le> i \<and> i < hi \<and> 0 \<le> exec_cpus s ! nat i
           \<and> exec_cpus s ! nat i < int (cpus_nbits E)}
      \<and> progs t = (progs s)(p \<mapsto> prog\<lparr>cpuset := bm,
           prog_shm := aff_shm_set_cpus_assigned (prog_shm prog) (of_nat (length bm))\<rparr>)
      \<and> acts t = acts s @ [SetCpus (prog_id prog) bm]
    else schedule_setcpurange E p lo hi s = Inl BadAccess"
proof (cases "0 \<le> lo \<and> hi \<le> int (length (exec_cpus s)) \<or> hi \<le> lo")
  case True
  then have "\<forall>i \<in> set [lo..hi - 1]. 0 \<le> i \<and> i < int (length (exec_cpus s))"
    by auto
  from setbit_loop [OF this, of E "[]"] obtain bm where bm: "range_mask E (exec_cpus s) lo hi = Inr bm"
      "set bm = {nat (exec_cpus s ! nat i) | i. lo \<le> i \<and> i < hi \<and> 0 \<le> exec_cpus s ! nat i
           \<and> exec_cpus s ! nat i < int (cpus_nbits E)}"
    by (auto simp: range_mask_def)
  have "distinct bm"
    using range_mask_type [OF bm(1)] by simp
  with True bm assms show ?thesis
    by (auto simp: schedule_setcpurange_def schedule_setcpus_def do_setcpumask_def request_def act_def)
next
  case False
  define i where "i = (if lo < 0 then lo else hi - 1)"
  have "i \<in> set [lo..hi - 1]" "\<not> (0 \<le> i \<and> i < int (length (exec_cpus s)))"
    using False by (auto simp: i_def)
  from setbit_loop_out [OF this] have "range_mask E (exec_cpus s) lo hi = Inl BadAccess"
    by (simp add: range_mask_def)
  with False show ?thesis
    by (simp add: schedule_setcpurange_def)
qed

theorem setcpurange_gives_processors_witness:
  "(\<exists>bm t. schedule_setcpurange sample_env 10 1 3 (sample_sys (sample_two (sample_pd BW 0 0) (sample_pd BW 0 0)) [] []) = Inr t
      \<and> distinct bm \<and> acts t = [SetCpus 1000 bm])
   \<and> schedule_setcpurange sample_env 10 5 7 (sample_sys (sample_two (sample_pd BW 0 0) (sample_pd BW 0 0)) [] []) = Inl BadAccess"
proof -
  let ?s = "sample_sys (sample_two (sample_pd BW 0 0) (sample_pd BW 0 0)) [] []"
  have p: "progs ?s 10 = Some (sample_prog 1000 (Some (sample_pd BW 0 0)))" "\<forall>a. sys_ok sample_env a"
      "exec_cpus ?s = [0, 1, 2, 3, 4, 5]" "acts ?s = []" "prog_id (sample_prog 1000 (Some (sample_pd BW 0 0))) = 1000"
    by (simp_all add: sample_sys_def sample_two_def sample_env_def sample_prog_def)
  have "\<exists>bm t. schedule_setcpurange sample_env 10 1 3 ?s = Inr t \<and> distinct bm \<and> acts t = [SetCpus 1000 bm]"
    using setcpurange_gives_processors [OF p(1,2), of 1 3] unfolding p(3-5) by (auto simp del: One_nat_def)
  moreover have "schedule_setcpurange sample_env 10 5 7 ?s = Inl BadAccess"
    using setcpurange_gives_processors [OF p(1,2), of 5 7] unfolding p(3) by simp
  ultimately show ?thesis
    by simp
qed

section \<open>Clocks\<close>

text \<open>The time of a program that is neither running nor waiting time yet, counted from minus the
  start of the program: the last switch.\<close>

definition accounted :: "prog_data \<Rightarrow> u32" where
  "accounted pd = tm_running pd + tm_waiting pd - (if run_status pd = RS_RUNNING then tm_rstart pd else tm_wstart pd)"

lemma accounted_init: "accounted (init_clock now pd) = - ms_of now"
  by (simp add: accounted_def init_clock_def)

lemma thaw_prog_clocks:
  assumes "get_pd s p = Inr pd" and "run_status pd = RS_STOPED" and "thaw_prog E p s = Inr t"
  shows "\<exists>pd'. get_pd t p = Inr pd' \<and> run_status pd' = RS_RUNNING \<and> tm_running pd' = tm_running pd
    \<and> tm_waiting pd' = tm_waiting pd + (ms_of (tod E (tod_n s)) - tm_wstart pd)
    \<and> tm_rstart pd' = ms_of (tod E (tod_n s))"
proof -
  obtain prog where prog: "progs s p = Some prog" "sched_data prog = Some pd"
    using assms(1) by (auto simp: get_pd_Inr)
  then obtain c st where "cntrs (sch s) = Some c"
      "ss_aff_stats_start c (Some (cpuset prog)) (\<lambda>k. tsc_rd E (tsc_n s + k)) (ss_aff_zero_stats (stats pd)) = Inr st"
    using assms(3) by (auto simp: thaw_prog_def bindR_eq_Inr get_cntrs_Inr on_stats_def)
  with prog assms(2,3) show ?thesis
    by (auto simp: thaw_prog_def get_cntrs_def on_stats_def sched_update_clock_def sched_start_clock_def
        sched_stop_clock_def with_tod_simp start_clock_def get_pd_def get_prog_def request_def act_def split: if_splits)
qed

lemma freeze_prog_clocks:
  assumes "get_pd s p = Inr pd" and "run_status pd = RS_RUNNING" and "freeze_prog E p s = Inr t"
  shows "\<exists>pd'. get_pd t p = Inr pd' \<and> run_status pd' = RS_STOPED \<and> tm_waiting pd' = tm_waiting pd
    \<and> tm_running pd' = tm_running pd + (ms_of (tod E (tod_n s)) - tm_rstart pd)
    \<and> tm_wstart pd' = ms_of (tod E (tod_n s))"
proof -
  obtain prog where prog: "progs s p = Some prog" "sched_data prog = Some pd"
    using assms(1) by (auto simp: get_pd_Inr)
  with assms(2,3) show ?thesis
    by (auto simp: freeze_prog_def sched_update_clock_def sched_start_clock_def sched_stop_clock_def
        with_tod_simp stop_clock_def get_pd_def get_prog_def request_def act_def split: if_splits)
qed

text \<open>C17: The clocks of a program account for all its time. When a program that stands still is thawed,
  or one that runs is frozen, the time since the last switch is added to its waiting time, or to
  its running time, and the other is left alone, so that running and waiting time always add up to
  the time from its admission to the last switch, in milliseconds and also across a wrap of the
  32-bit clock.\<close>

theorem clocks_account_all_time:
  assumes "get_pd s p = Inr pd" and "run_status pd = (if thaw then RS_STOPED else RS_RUNNING)"
    and "(if thaw then thaw_prog E p s else freeze_prog E p s) = Inr t"
  shows "\<exists>pd'. get_pd t p = Inr pd' \<and> run_status pd' = (if thaw then RS_RUNNING else RS_STOPED)
    \<and> accounted pd' = accounted pd
    \<and> (if thaw then tm_running pd' = tm_running pd else tm_waiting pd' = tm_waiting pd)
    \<and> tm_running pd' + tm_waiting pd' = tm_running pd + tm_waiting pd
        + (ms_of (tod E (tod_n s)) - (if thaw then tm_wstart pd else tm_rstart pd))"
proof (cases thaw)
  case True
  with assms thaw_prog_clocks [of s p pd E t] show ?thesis
    by (auto simp: accounted_def)
next
  case False
  with assms obtain pd' where pd': "get_pd t p = Inr pd'" "run_status pd' = RS_STOPED"
      "tm_waiting pd' = tm_waiting pd" "tm_running pd' = tm_running pd + (ms_of (tod E (tod_n s)) - tm_rstart pd)"
      "tm_wstart pd' = ms_of (tod E (tod_n s))"
    using freeze_prog_clocks [of s p pd E t] by auto
  with False assms(2) show ?thesis
    by (intro exI [of _ pd']) (simp add: accounted_def)
qed

theorem clocks_account_all_time_witness:
  "case freeze_prog sample_env 10 (sample_sys (sample_two ((sample_pd BW 0 0)\<lparr>run_status := RS_RUNNING,
       tm_rstart := 4294967295\<rparr>) (sample_pd BW 0 0)) [] [10, 20]) of
     Inr t \<Rightarrow> \<exists>pd'. get_pd t 10 = Inr pd' \<and> tm_running pd' + tm_waiting pd' = 1
   | Inl _ \<Rightarrow> False"
proof -
  let ?pd = "(sample_pd BW 0 0)\<lparr>run_status := RS_RUNNING, tm_rstart := 4294967295\<rparr>"
  let ?s = "sample_sys (sample_two ?pd (sample_pd BW 0 0)) [] [10, 20]"
  have pd: "get_pd ?s 10 = Inr ?pd"
    by (simp add: get_pd_def get_prog_def sample_sys_def sample_two_def sample_prog_def)
  have "case freeze_prog sample_env 10 ?s of Inr t \<Rightarrow> True | Inl _ \<Rightarrow> False"
    by code_simp
  then obtain t where t: "freeze_prog sample_env 10 ?s = Inr t"
    by (auto split: sum.splits)
  have "ms_of (tod sample_env (tod_n ?s)) = 0"
    by (simp add: sample_env_def sample_sys_def ms_of_def u32_of_int_def)
  with clocks_account_all_time [OF pd, of False sample_env t] t show ?thesis
    by (auto simp: sample_pd_def)
qed

section \<open>Killed programs\<close>



section \<open>The clock frequency\<close>

text \<open>A source file that knows the frequency does not ask again.\<close>

lemma report_secs_known: "mhz s u \<noteq> 0 \<Longrightarrow> report_secs E u s = Inr s"
  by (simp add: report_secs_def getMhz_def fun_upd_triv)

lemma report_secs_once:
  assumes "report_secs E u s = Inr t" and "mhz t u \<noteq> 0"
  shows "report_secs E u t = Inr t" and "mhz_runs t \<le> mhz_runs s + 1" and "v \<noteq> u \<Longrightarrow> mhz t v = mhz s v"
  using report_secs_known [of t u, OF assms(2)] assms(1) by (auto simp: report_secs_def bindR_eq_Inr)

text \<open>C39: The first program that ends by itself ends the executor where the script that knows the
  clock frequency cannot be run or prints nothing: its seconds are part of the message about its
  end, and the conversion of ticks to seconds exits with status 1. With the same state a program
  that is killed is reported and becomes finished (if its processors can be displayed).\<close>

theorem seconds_need_the_script:
  assumes "hash_wf (prog_pid_hash s)" and "hash_map (prog_pid_hash s) (u64_of_int pid) = Some p"
    and "p \<noteq> HASH_ENTRY_NOTFOUND" and "progs s p = Some prog" and "mhz s UNIT_EXECUTOR = 0"
    and "mhz_script E (mhz_runs s) \<in> {None, Some []}" and "sys_ok E (GetCpus (prog_id prog))"
    and "length (displaylist E (cpuset prog)) \<le> 511"
  shows "aff_prog_running_finished E pid True s = Inl (ExitWith 1)
    \<and> (\<exists>u. aff_prog_running_finished E pid False s = Inr u \<and> pfinished_l u = removeAll p (pfinished_l s) @ [p]
         \<and> running_nr u = running_nr s - 1 \<and> mhz u = mhz s)"
proof -
  obtain hash where hash: "hash_delete (prog_pid_hash s) (u64_of_int pid) = Inr (hash, p)"
    using hash_delete_map [OF assms(1), of "u64_of_int pid"] assms(2) by auto
  have "report_secs E UNIT_EXECUTOR t = Inl (ExitWith 1)" if "mhz t = mhz s" "mhz_runs t = mhz_runs s" for t
    using that assms(5,6) by (auto simp: report_secs_def getMhz_def getMhz_script_def)
  with hash assms(3,4,7,8) show ?thesis
    by (simp add: aff_prog_running_finished_def aff_prog_check_status_def aff_prog_print_def aff_prog_cpuset_str_def
        ask_def with_ticks_simp unlink_def Let_def)
qed

theorem seconds_need_the_script_witness:
  "aff_prog_running_finished (sample_env\<lparr>mhz_script := (\<lambda>_. None)\<rparr>) 1000 True
     ((sample_sys (sample_two (sample_pd BW 0 0) (sample_pd BW 0 0)) [10, 20] [])\<lparr>
       prog_pid_hash := \<lparr>table = [[\<lparr>he_key = 1000, he_val = 10\<rparr>]], hash_sz = 1\<rparr>, mhz := (\<lambda>_. 0)\<rparr>) = Inl (ExitWith 1)"
proof -
  let ?s = "(sample_sys (sample_two (sample_pd BW 0 0) (sample_pd BW 0 0)) [10, 20] [])\<lparr>
       prog_pid_hash := \<lparr>table = [[\<lparr>he_key = 1000, he_val = 10\<rparr>]], hash_sz = 1\<rparr>, mhz := (\<lambda>_. 0)\<rparr>"
  let ?prog = "sample_prog 1000 (Some (sample_pd BW 0 0))"
  have p: "progs ?s 10 = Some ?prog" "mhz ?s UNIT_EXECUTOR = 0"
      "prog_pid_hash ?s = \<lparr>table = [[\<lparr>he_key = 1000, he_val = 10\<rparr>]], hash_sz = 1\<rparr>"
    by (simp_all add: sample_sys_def sample_two_def)
  have wf: "hash_wf (prog_pid_hash ?s)"
    unfolding p(3) by (simp add: hash_wf_def)
  have m: "hash_map (prog_pid_hash ?s) (u64_of_int 1000) = Some 10"
    unfolding p(3) by (simp add: hash_map_def chain_map_def u64_of_int_def)
  have "sys_ok sample_env a" "displaylist sample_env (cpuset ?prog) = []" for a
    by (simp_all add: sample_env_def sample_prog_def)
  with seconds_need_the_script [OF wf m _ p(1,2), of "sample_env\<lparr>mhz_script := (\<lambda>_. None)\<rparr>"] show ?thesis
    by (simp add: HASH_ENTRY_NOTFOUND_def)
qed

section \<open>The end of the experiment\<close>

lemma finalization_frees: "sched_finalization s = Inr t \<Longrightarrow> cntrs (sch t) = None"
  by (auto simp: sched_finalization_def sched_close_results_files_def with_files_def bindR_eq_Inr guardR_eq_Inr upd_sch_def)

lemma del_prog_freed: "cntrs (sch s) = None \<Longrightarrow> sched_del_prog E p s = Inl UseAfterFree"
  by (auto simp: sched_del_prog_def on_stats_def get_cntrs_def get_prog_def get_pd_def bindR_def split: option.splits)

text \<open>C34: The experiment ends in a use after free. When the last program that had instructions left
  ends by itself, \<open>respawn\<close> stops everything and frees the counters, and \<open>rebalance\<close> then releases the
  program, whose statistics are sized by the counters: under every policy, whatever its state.\<close>

theorem end_of_run_use_after_free:
  assumes "get_pd s p = Inr pd" and "arr_get (target_instr (sch s)) (init_id pd) = Inr left"
    and "left \<le> 1000000000" and "progs_left (sch s) \<le> 1" and "respawn P E p s = Inr t"
  shows "sched_del_prog E p (upd_sch (\<lambda>sc. sc\<lparr>progs_fnsh := progs_fnsh sc + 1,
           progs_nr := progs_nr sc - 1\<rparr>) t) = Inl UseAfterFree"
proof -
  obtain u where u: "upd_prog p (pol_inherit P pd) s = Inr u" "sch u = sch s"
    using assms(1,5) by (auto simp: respawn_def bindR_eq_Inr upd_prog_Inr)
  define v where "v = upd_sch (\<lambda>sc. sc\<lparr>progs_left := progs_left sc - 1\<rparr>) u"
  have "progs_left (sch v) \<le> 0"
    using u(2) assms(4) by (simp add: v_def upd_sch_def)
  with assms(1,2,3,5) u obtain w where "stop_all P E v = Inr w" "t = w"
    by (auto simp: respawn_def v_def Let_def bindR_eq_Inr split: if_splits)
  then have "cntrs (sch t) = None"
    using finalization_frees by (auto simp: stop_all_def bindR_eq_Inr)
  then show ?thesis
    by (intro del_prog_freed) (simp add: upd_sch_def)
qed

theorem end_of_run_use_after_free_witness:
  "case respawn (\<lparr>pol_collect = (\<lambda>_. Inr), pol_progress = (\<lambda>_ _. Inr), pol_finish = Inr, pol_window = (\<lambda>n. n),
       pol_inherit = (\<lambda>_ prog. prog), pol_pick = (\<lambda>_. Inr), pol_timed = False\<rparr>) sample_env 10
     (upd_sch (\<lambda>sc. sc\<lparr>progs_left := 1, cntrs := Some sample_counters\<rparr>)
       (sample_sys (sample_two (sample_pd BW 0 0) (sample_pd BW 0 0)) [] [])) of
     Inr t \<Rightarrow> sched_del_prog sample_env 10 (upd_sch (\<lambda>sc. sc\<lparr>progs_fnsh := progs_fnsh sc + 1,
           progs_nr := progs_nr sc - 1\<rparr>) t) = Inl UseAfterFree
   | Inl _ \<Rightarrow> False"
proof -
  let ?P = "\<lparr>pol_collect = (\<lambda>_. Inr), pol_progress = (\<lambda>_ _. Inr), pol_finish = Inr, pol_window = (\<lambda>n. n),
       pol_inherit = (\<lambda>_ prog. prog), pol_pick = (\<lambda>_. Inr), pol_timed = False\<rparr>"
  let ?s = "upd_sch (\<lambda>sc. sc\<lparr>progs_left := 1, cntrs := Some sample_counters\<rparr>)
       (sample_sys (sample_two (sample_pd BW 0 0) (sample_pd BW 0 0)) [] [])"
  have pd: "get_pd ?s 10 = Inr (sample_pd BW 0 0)" "arr_get (target_instr (sch ?s)) (init_id (sample_pd BW 0 0)) = Inr 0"
      "progs_left (sch ?s) \<le> 1"
    by (simp_all add: get_pd_def get_prog_def sample_simps upd_sch_def arr_get_def)
  have "case respawn ?P sample_env 10 ?s of Inr t \<Rightarrow> True | Inl _ \<Rightarrow> False"
    by code_simp
  then obtain t where t: "respawn ?P sample_env 10 ?s = Inr t"
    by (auto split: sum.splits)
  from end_of_run_use_after_free [OF pd(1,2) _ pd(3) t] t show ?thesis
    by simp
qed

end
