(* ===== verification/Spec2Isabelle.thy ===== *)
theory Spec2Isabelle
  imports Returns Lifecycle CQsort CdsList BinHeap HashTable DynArray Tsc ShmMap Stats
begin

text \<open>
  BACH, a bandwidth and cache aware scheduler that runs in user space: a model of its C sources
  (\<open>src/src\<close>) and the theorems that make it correct.

  \<^bold>\<open>The program.\<close> The executor (\<open>aff-executor.c\<close>) reads a workload file, starts every program of it
  frozen, and puts an arrival event for each into a binary heap (\<open>heap.c\<close>, on the growing array of
  \<open>dynarray.c\<close>). Its main loop takes the events that are due: an arrival makes a program NEW, the
  end of a quantum (200 ms) calls the scheduling policy. Between events it sleeps in \<open>select\<close>, from
  which the death of a child (found by its pid in the hash table of \<open>hash.c\<close>) or a message of a
  program wakes it. A policy (\<open>scheds/*.c\<close>) keeps the running programs in two lists (\<open>list.h\<close>):
  at the end of a quantum it freezes the programs that ran (\<open>freezer.c\<close>), reads the hardware
  counters (\<open>stats.c\<close>, \<open>prfcnt/*.h\<close>), sorts the programs (\<open>scheds/c_qsort.c\<close>), gives those it picks
  a set of cores each, and thaws them. Programs share a page with the executor (\<open>aff_shm.h\<close>,
  \<open>aff-executor-preload.c\<close>) through which they ask for cores.

  \<^bold>\<open>The theories\<close>, in the order they build on each other:
  \<^item> \<open>Prelude\<close>: machine integers (\<open>int\<close> where C computes with signed types and the value is in range,
    \<open>32\<close> and \<open>64 word\<close> where it is unsigned), the result type of computations that may exit, fail an
    assertion, divide by zero, touch memory that is not theirs or never come back, loops, arrays, circular
    arithmetic. An \<open>unsigned long\<close> that counts bytes or elements is a natural number whose sums and
    products wrap at \<open>2 ^ 64\<close> (\<open>ul_add\<close>, \<open>ul_mul\<close>); the allocator grants what the environment says
    it does, but no block of more than \<open>PTRDIFF_MAX\<close> bytes (\<open>granted\<close>).
  \<^item> \<open>DynArray\<close>, \<open>BinHeap\<close>, \<open>HashTable\<close>, \<open>CdsList\<close>, \<open>CQsort\<close>: the containers. Heap and hash table
    refine multisets and maps, through the locales \<open>event_queue\<close> and \<open>kv_table\<close>; the lists and the
    quicksort are on a store of pointers and refine sequences, so that the theories above them use
    sequences of addresses. \<open>qsrt_list\<close> is the function on sequences that the pointer quicksort refines.
  \<^item> \<open>Tsc\<close>, \<open>Mhz\<close>, \<open>PrfCnt\<close>, \<open>Stats\<close>, \<open>Cpuid\<close>: timers and their conversion to seconds, counters of a core, counters of memory controllers and
    energy, statistics of a program, on a machine of model-specific registers, and what the
    processor says of itself (also the tool \<open>intel_technologies.c\<close>).
  \<^item> \<open>ShmMap\<close>, \<open>Freezer\<close>, \<open>Parse\<close>: the shared page byte by byte, the freezer over a file system, the
    parsers with the functions of the C library they use.
  \<^item> \<open>SysState\<close>: the state that everything above shares, a record \<open>sys\<close> with a field for every field of
    \<open>ExecSt\<close> and of the policy's structure; programs and events by address (an address that holds
    nothing has been freed); the environment, which answers every question to the kernel and the
    clocks in turn; and the list of what the program did to the outside world (\<open>acts\<close>).
  \<^item> \<open>Executor\<close>, \<open>Selection\<close>: \<open>aff-executor.c\<close>, and its loop over the events against the contract of a
    policy (locale \<open>quantum_policy\<close>).
  \<^item> \<open>SchedCommon\<close>, \<open>Policy\<close>: \<open>scheds/common.c\<close>, and the code that four policies have in common, with a
    record of what differs.
  \<^item> \<open>Frame\<close>, \<open>Placement\<close>, \<open>Quantum\<close>: what the steps of a policy leave alone (locale
    \<open>frame_relation\<close>), how cores are given to programs, and that every way of picking programs one
    after the other (locale \<open>sched_policy\<close>) makes a policy that keeps the executor's contract.
  \<^item> \<open>Loop\<close>: the main loop. Its invariant \<open>running_ok\<close>, the steps that keep it (\<open>evolves\<close>), the contract
    of a policy for the whole loop (locale \<open>executor_policy\<close>, which extends \<open>quantum_policy\<close> and which
    every \<open>sched_policy\<close> keeps), and the states the executor reaches (\<open>executor_run\<close>) from a start.
  \<^item> \<open>Fair\<close>, \<open>Perf\<close>, \<open>PerfFair\<close>, \<open>FairBwCache\<close>, \<open>Linux\<close>: the five policies, each an interpretation of its
    contract, and what is particular to each.
  \<^item> \<open>Startup\<close>: the list of the five policies and the choice of one by its name, \<open>main\<close> up to its loop
    for any command line (\<open>exec_main\<close>, theory \<open>Executor\<close>), a concrete start.
  \<^item> \<open>Returns\<close>: the one wait that may last for ever. \<open>do_execute\<close> polls the freezer until the child it has
    forked is found frozen (\<open>await_frozen\<close>, on the file systems \<open>child_fs\<close> that the polls see); every
    other operation of the executor and of the policies (locales \<open>answering_policy\<close> and
    \<open>answering_scheduler\<close>) comes back.
  \<^item> \<open>Samples\<close>, \<open>Lifecycle\<close>: concrete states to apply the properties to; processors, clocks, deaths and
    the end of an experiment whatever the policy.

  \<^bold>\<open>What is shown.\<close> The containers implement their abstractions, and where they do not (a stored
  marker, an empty heap, a head that is replaced) the exact failure. The main loop keeps its events
  and lists consistent whatever happens, and none of its rounds hangs but in the wait for a child that is
  never found frozen: events are handed on in the order of their times, each once; picking programs loses none and
  gives no core to two; \<open>fair\<close> and \<open>perf\<close> pick what their names say, \<open>fair_bw_cache\<close> keeps classes
  apart, \<open>linux\<close> counts the runs that a program ends by itself, and starts it again until its target
  is exactly used up or kills it. Counters and clocks measure
  differences, also when they wrap. Parsers read what was printed. The error paths that the code
  takes against its intention are theorems too: counters used after they are freed at the end of
  every run, a program counted as finished twice, an unsigned comparison in an admission check,
  programs left behind by a wrong name of a policy, an exit because a script is not found.

  \<^bold>\<open>Termination.\<close> Loops that may run forever (the loop over the events, the walks over pointer lists,
  the quicksort, the growth of an array, the wait for a frozen program) are partial functions with
  the value \<open>None\<close> for not ending, and that they end is a theorem, under the invariant of their
  component; the wait for a frozen program ends exactly where a poll ends it, and where none does the
  operation that waits answers \<open>NeverReturns\<close>. Loops whose end is structural are folds over the elements that the C loop visits; the
  loops that pick programs end because every round shortens a list.

  \<^bold>\<open>Not modelled.\<close>
  \<^item> Messages and result files: whether a file is open matters, because printing to a closed one is a
    fault, and what a message has to ask for (the processors of a program, the clock frequency),
    because that may end the process; the text does not. Macros of \<open>utils.h\<close> appear as the exit they
    end in.
  \<^item> Of the preparation of the process: \<open>exec\<close> and environment of a child, the opening of devices
    (\<open>msr\<close>, \<open>pci\<close>), the mounting and creation of control groups. Signal masks, handlers and pipes are
    requests that succeed or fail, and so are the calls of the \<open>bitmask\<close> and \<open>cpuset\<close> libraries.
  \<^item> Concurrency inside a call: signals are delivered where \<open>select\<close> is interrupted. The code has them
    unblocked also while it answers messages of programs.
  \<^item> The reuse of addresses: \<open>malloc\<close> hands out an address once, and a freed one holds nothing.
  \<^item> Rounding of floating-point operations is a parameter (\<open>fl\<close>); of the reports that are only
    printed as floating-point numbers the one of a quantum (\<open>sched_print_counters\<close>) is modelled, with
    rational columns; the totals of the end and the averages of \<open>linux\<close> are left out.
  \<^item> Release of memory that nothing uses afterwards, and hence leaks, except where a theorem is about
    them (\<open>CQsort\<close>).
  \<^item> The printing functions of \<open>heap.c\<close>, the self tests behind \<open>#ifdef\<close>, and code that is compiled out
    (sampling, \<open>AFF_PRFCNT\<close>); build files, scripts, packages and workloads.
\<close>

section \<open>The executor under each policy\<close>

declare select_ready_events.simps [code]

text \<open>A run of the selection that the properties are applied to: the arrival of the program at
  address 10 is due, the quantum and the arrival of the one at 20 are not.\<close>

definition sample_queue :: sys where
  "sample_queue = (sample_sys (sample_two (sample_pd BW 0 0) (sample_pd CS 0 0)) [] [])\<lparr>
     events_heap := \<lparr>heap_da = \<lparr>elems = (\<lambda>_. 0)(0 := 50, 1 := qt_event, 2 := 60), elems_nr = 128,
       elem_size = 8, next_idx = 3, alloc_grain = 128\<rparr>, leq_fn = ul_leq\<rparr>,
     events := [50 \<mapsto> \<lparr>kind = EVNT_NEWPROG, tv = \<lparr>tv_sec = 0, tv_usec = 0\<rparr>, ev_prog = 10\<rparr>,
       qt_event \<mapsto> \<lparr>kind = EVNT_QEXPIRED, tv = \<lparr>tv_sec = 2, tv_usec = 0\<rparr>, ev_prog = 0\<rparr>,
       60 \<mapsto> \<lparr>kind = EVNT_NEWPROG, tv = \<lparr>tv_sec = 5, tv_usec = 0\<rparr>, ev_prog = 20\<rparr>],
     waiting_nr := 2\<rparr>"

lemma sample_queue_events:
  "events sample_queue = [50 \<mapsto> \<lparr>kind = EVNT_NEWPROG, tv = \<lparr>tv_sec = 0, tv_usec = 0\<rparr>, ev_prog = 10\<rparr>,
       qt_event \<mapsto> \<lparr>kind = EVNT_QEXPIRED, tv = \<lparr>tv_sec = 2, tv_usec = 0\<rparr>, ev_prog = 0\<rparr>,
       60 \<mapsto> \<lparr>kind = EVNT_NEWPROG, tv = \<lparr>tv_sec = 5, tv_usec = 0\<rparr>, ev_prog = 20\<rparr>]"
  by (simp add: sample_queue_def)

lemma sample_queue_bag: "queue sample_queue = {#50, qt_event, 60#}"
  by (simp add: heap_bag_def da_list_def sample_queue_def block_list_def upt_rec numeral_eq_Suc)

lemma sample_queue_ok: "selection_ok sample_queue"
proof -
  have ne: "qt_event \<noteq> 50" "qt_event \<noteq> 60" "(50 :: u64) \<noteq> 60"
    by (simp_all add: qt_event_def)
  have "heap_ordered (aff_event_leq_ul (events sample_queue)) (elems (heap_da (events_heap sample_queue))) 3"
    unfolding heap_ordered_def
  proof (intro allI impI)
    fix i :: nat
    assume "i < 3" and "0 < i"
    then consider "i = 1" | "i = 2" by linarith
    then show "aff_event_leq_ul (events sample_queue)
        (elems (heap_da (events_heap sample_queue)) ((i - 1) div 2)) (elems (heap_da (events_heap sample_queue)) i)"
      by cases (simp_all add: sample_queue_def aff_event_leq_ul_def event_time_def timer_gt_def qt_event_def)
  qed
  then have "heap_inv (event_heap sample_queue)"
    by (simp add: heap_inv_def event_heap_def total_preorder_events da_wf_def heap_size_def dynarray_size_def)
      (simp add: sample_queue_def)
  then have "queue_ok sample_queue"
    by (simp add: queue_ok_def sample_queue_bag sample_queue_events)
  moreover have "lists_ok sample_queue"
    by (simp add: lists_ok_def sched_lists_def sample_queue_def sample_simps)
  moreover have "event_ok sample_queue e" if "e \<in># queue sample_queue" for e
    using that ne by (auto simp: sample_queue_bag event_ok_def arrival_def sample_queue_events)
      (simp_all add: sample_queue_def sched_lists_def sample_simps)
  moreover have "count (queue sample_queue) e \<le> 1" for e
    using ne by (simp add: sample_queue_bag)
  ultimately show ?thesis
    by (simp add: selection_ok_def)
qed

text \<open>C1: A round of the main loop can only hang in the wait for a child, and the executor never loses an
  event, whatever the command line asks for. When \<open>main\<close> comes to its loop, under one of the five policies, then
  whatever happened since (events, messages,
  ended and stopped children, signals, in any order), in every state in which the main loop
  begins a round (unless something the code called has failed and ended the process, or hangs): the loop
  over the events ends, so that the round goes on to the next, ends the process, or stays in the one wait
  of the code that may last for ever, the polling of a child it has forked, and then no poll ever finds
  the group of that child frozen (nor fails); the event heap is a valid heap and holds the end of the quantum exactly once; the
  number of programs that wait is the number of the other events; each of these is the arrival
  of a program that exists and that no list of the executor or of the policy holds, no two of
  the same program; the lists of the policy hold no program twice and none of a list of the
  executor; the hash table is well formed.\<close>

theorem executor_keeps_its_events:
  assumes "booted s0" and "\<forall>n. tv_norm (tod E n)" and "exec_main E aff_schedulers files argv s0 = Inr (S, s)"
    and "executor_run E S s t"
  shows "(\<forall>ws. \<exists>r. main_round E S ws t = Some r \<and>
        (\<forall>n ident. r = Inl (NeverReturns n ident) \<longrightarrow> (\<forall>k. \<not> poll_ends (idpath ident) (child_fs E n k))))
    \<and> heap_inv (event_heap t) \<and> count (queue t) qt_event = 1
    \<and> waiting_nr t = int (size (filter_mset (\<lambda>e. e \<noteq> qt_event) (queue t)))
    \<and> (\<forall>e \<in># queue t. e \<noteq> qt_event \<longrightarrow> (\<exists>ev. events t e = Some ev \<and> kind ev = EVNT_NEWPROG
         \<and> ev_prog ev \<in> dom (progs t) - set (pnew_l t) - set (pfinished_l t) - sched_lists t))
    \<and> inj_on (ev_prog_of t) (set_mset (queue t) - {qt_event})
    \<and> distinct (progs_all (sch t) @ progs_sch (sch t))
    \<and> sched_lists t \<inter> (set (pnew_l t) \<union> set (pfinished_l t)) = {}
    \<and> hash_wf (prog_pid_hash t)"
proof -
  from keeps_contract [OF exec_main_start(1) [OF assms(3)]] obtain f where "executor_policy S f" .
  from executor_policy.reached [OF this assms(1,2) exec_main_start(2) [OF assms(3)] assms(4)]
  have "running_ok t \<and> (\<exists>r. main_round E S ws t = Some r)" for ws .
  then have ok: "loop_ok t" "qt_event \<in># queue t" and total: "\<exists>r. main_round E S ws t = Some r" for ws
    by (auto simp: running_ok_def)
  note hangs = answering_scheduler.round_comes_back [OF answering_contract [OF exec_main_start(1) [OF assms(3)]]]
  have round: "\<exists>r. main_round E S ws t = Some r \<and>
      (\<forall>n ident. r = Inl (NeverReturns n ident) \<longrightarrow> (\<forall>k. \<not> poll_ends (idpath ident) (child_fs E n k)))" for ws
    using total [of ws] hangs [of E ws t] by (auto simp: answers_def never_freezes_def)
  from loop_selection [OF ok(1)] have sel: "queue_ok t" "lists_ok t" "\<And>e. count (queue t) e \<le> 1"
    by (auto simp: selection_ok_def)
  have arrivals: "\<exists>ev. events t e = Some ev \<and> kind ev = EVNT_NEWPROG
      \<and> ev_prog ev \<in> dom (progs t) - set (pnew_l t) - set (pfinished_l t) - sched_lists t"
    if "e \<in># queue t" "e \<noteq> qt_event" for e
    using loop_arrival [OF ok(1) that] .
  have "count (queue t) qt_event = 1"
    using sel(3) [of qt_event] ok(2) by (simp add: le_Suc_eq count_eq_zero_iff)
  with round arrivals sel ok(1) show ?thesis
    by (auto simp: loop_ok_def queue_ok_def lists_ok_def sched_lists_def)
qed

theorem executor_keeps_its_events_witness:
  "\<exists>s. exec_main pci_env aff_schedulers [''random.in'' \<mapsto> []] [''aff-executor'', ''random.in'', ''0''] sample_boot
       = Inr (linux_scheduler, s) \<and> count (queue s) qt_event = 1
     \<and> (\<exists>r. main_round pci_env linux_scheduler [] s = Some r \<and> (\<forall>n ident. r \<noteq> Inl (NeverReturns n ident)))"
proof -
  obtain s where s: "exec_main pci_env aff_schedulers [''random.in'' \<mapsto> []] [''aff-executor'', ''random.in'', ''0''] sample_boot
       = Inr (linux_scheduler, s)"
    using sample_boot_main by blast
  have "\<forall>n. tv_norm (tod pci_env n)"
    by (simp add: pci_env_def sample_env_def tv_norm_def)
  from executor_keeps_its_events [OF sample_boot_ok this s executor_run.start] s pci_env_freezes show ?thesis
    by blast
qed

text \<open>C2: The selection of ready events comes to an end under each of the five policies and hands on
  what is due. From a state in which every event of the heap is the quantum or the arrival of a
  program that no list of the policy holds, \<open>select_ready_events\<close> returns (with a state, or with the
  failure of something it called); when it returns a state, every arrival that was due is in the
  list of new programs, each exactly once and in the order of the times, the counters of waiting
  and new programs have moved by their number, nothing that is due is left in the heap, and the
  time to wait is the time to the first event left.\<close>

theorem selection_hands_on_due:
  assumes "S \<in> set aff_schedulers"
    and "selection_ok s" and "tv_norm now"
  shows "\<exists>r. select_ready_events E S now s = Some r \<and> (\<forall>s' w. r = Inr (s', w) \<longrightarrow>
      selection_ok s' \<and> (\<forall>e \<in># queue s'. \<not> due now s' e)
      \<and> (case w of None \<Rightarrow> queue s' = {#}
         | Some t \<Rightarrow> \<exists>e \<in># queue s'. t = timersub (event_time (events s') e) now
             \<and> (\<forall>y \<in># queue s'. aff_event_leq_ul (events s') e y))
      \<and> (\<exists>es. mset es = filter_mset (\<lambda>e. due now s e \<and> e \<noteq> qt_event) (queue s)
           \<and> sorted_wrt (aff_event_leq_ul (events s)) es
           \<and> pnew_l s' = pnew_l s @ map (ev_prog_of s) es
           \<and> waiting_nr s' = waiting_nr s - int (length es) \<and> new_nr s' = new_nr s + int (length es)))"
proof -
  from keeps_contract [OF assms(1)] obtain f where "executor_policy S f" .
  then have "quantum_policy S f"
    by (rule executor_policy.axioms)
  from quantum_policy.select_ready_events_spec [OF this assms(2,3) refl]
  have "\<exists>r. select_ready_events E S now s = Some r \<and> (\<forall>s' w. r = Inr (s', w) \<longrightarrow> selected now s s' w)" .
  then show ?thesis
    unfolding selected_def due_arrivals_def .
qed

theorem selection_hands_on_due_witness:
  "\<exists>s' w. select_ready_events sample_env fair_scheduler \<lparr>tv_sec = 1, tv_usec = 0\<rparr> sample_queue = Some (Inr (s', w))
     \<and> pnew_l s' = [10] \<and> waiting_nr s' = 1"
proof -
  let ?now = "\<lparr>tv_sec = 1, tv_usec = 0\<rparr>"
  have due: "filter_mset (\<lambda>e. due ?now sample_queue e \<and> e \<noteq> qt_event) (queue sample_queue) = {#50#}"
    by (simp add: sample_queue_bag due_def event_time_def sample_queue_events timer_gt_def qt_event_def)
  obtain r where r: "select_ready_events sample_env fair_scheduler ?now sample_queue = Some r"
      "\<forall>s' w. r = Inr (s', w) \<longrightarrow> (\<exists>es. mset es = {#50#} \<and> pnew_l s' = pnew_l sample_queue @ map (ev_prog_of sample_queue) es
           \<and> waiting_nr s' = waiting_nr sample_queue - int (length es))"
    using selection_hands_on_due [OF _ sample_queue_ok, of fair_scheduler ?now sample_env] due
    by (auto simp: tv_norm_def aff_schedulers_set)
  have "case select_ready_events sample_env fair_scheduler ?now sample_queue of Some (Inr r) \<Rightarrow> True | _ \<Rightarrow> False"
    by code_simp
  then obtain s' w where "select_ready_events sample_env fair_scheduler ?now sample_queue = Some (Inr (s', w))"
    by (auto split: option.splits sum.splits)
  with r show ?thesis
    by (auto simp: ev_prog_of_def sample_queue_events qt_event_def) (simp_all add: sample_queue_def sample_simps)
qed

text \<open>C4: Picking the programs of the next quantum loses none. Under each of the four policies, while
  programs are monitored and afterwards, \<open>schedule\<close> leaves every program of the policy in one of
  its two lists, exactly once, and touches neither the events, nor the lists and counters of the
  executor, nor which programs exist.\<close>

theorem schedule_loses_no_program:
  assumes "P \<in> {fair_policy, perf_policy, perf_fair_policy, fair_bw_cache_policy}"
    and "lists_ok s" and "schedule P E s = Inr t"
  shows "mset (progs_all (sch t)) + mset (progs_sch (sch t)) = mset (progs_all (sch s)) + mset (progs_sch (sch s))
    \<and> distinct (progs_all (sch t) @ progs_sch (sch t)) \<and> lists_ok t
    \<and> events t = events s \<and> queue t = queue s \<and> pnew_l t = pnew_l s \<and> pfinished_l t = pfinished_l s
    \<and> waiting_nr t = waiting_nr s \<and> new_nr t = new_nr s \<and> dom (progs t) = dom (progs s)"
proof -
  have k: "keeps_pool s t"
    using assms fair.schedule_keeps perf.schedule_keeps perf_fair.schedule_keeps fair_bw_cache.schedule_keeps
    by blast
  from keeps_lists_ok [OF k assms(2)] k show ?thesis
    by (auto simp: keeps_pool_def pool_def quantum_frame_def lists_ok_def)
qed

theorem schedule_loses_no_program_witness:
  "\<exists>t. schedule perf_policy sample_env
      (sample_sys (sample_two (sample_pd BW 700 100) (sample_pd CS 300 0)) [10, 20] []) = Inr t
    \<and> mset (progs_all (sch t)) + mset (progs_sch (sch t)) = {#10, 20#}"
proof -
  let ?s = "sample_sys (sample_two (sample_pd BW 700 100) (sample_pd CS 300 0)) [10, 20] []"
  have ok: "lists_ok ?s"
    by (simp add: lists_ok_def sched_lists_def sample_simps)
  have "case schedule perf_policy sample_env ?s of Inr t \<Rightarrow> True | Inl _ \<Rightarrow> False"
    by code_simp
  then obtain t where "schedule perf_policy sample_env ?s = Inr t"
    by (auto split: sum.splits)
  with schedule_loses_no_program [OF _ ok, of perf_policy sample_env t] show ?thesis
    by (auto simp: sample_simps)
qed

text \<open>C3: No core runs two programs of a quantum. When a quantum starts with no program on a core (all
  were moved to the list of all programs when the last one ended), when the processors the
  executor was given are distinct and no program asks for a negative number of cores, the sets of
  processors of any two programs that \<open>schedule\<close> picks are disjoint, under each of the four
  policies and whatever numbers of cores the programs ask for.\<close>

theorem schedule_keeps_cores_apart:
  assumes "P \<in> {fair_policy, perf_policy, perf_fair_policy, fair_bw_cache_policy}"
    and "lists_ok s" and "schedule P E s = Inr t" and "progs_sch (sch s) = []"
    and "distinct (exec_cpus s)" and "0 \<le> monitor_wnd (sch s)" and "\<forall>p \<in> sched_lists s. 0 \<le> needs s p"
    and "progs t p = Some prog" and "progs t q = Some prog'" and "p \<noteq> q"
    and "p \<in> set (progs_sch (sch t))" and "q \<in> set (progs_sch (sch t))"
  shows "set (cpuset prog) \<inter> set (cpuset prog') = {}"
proof -
  have "seat t p \<inter> seat t q = {}"
    using assms(1) fair.schedule_apart [OF assms(2) _ assms(4-7,11,12,10)]
      perf.schedule_apart [OF assms(2) _ assms(4-7,11,12,10)]
      perf_fair.schedule_apart [OF assms(2) _ assms(4-7,11,12,10)]
      fair_bw_cache.schedule_apart [OF assms(2) _ assms(4-7,11,12,10)] assms(3)
    by blast
  then show ?thesis
    using assms(8,9) by (simp add: seat_def)
qed

theorem schedule_keeps_cores_apart_witness:
  "case schedule fair_bw_cache_policy sample_env
      (sample_sys (sample_two (sample_pd BW 700 100) (sample_pd BW 300 0)) [10, 20] []) of
     Inr t \<Rightarrow> \<exists>prog prog'. progs t 10 = Some prog \<and> progs t 20 = Some prog' \<and> cpuset prog = [1]
       \<and> set (cpuset prog) \<inter> set (cpuset prog') = {}
   | Inl _ \<Rightarrow> False"
proof -
  let ?s = "sample_sys (sample_two (sample_pd BW 700 100) (sample_pd BW 300 0)) [10, 20] []"
  have ok: "lists_ok ?s" "progs_sch (sch ?s) = []" "distinct (exec_cpus ?s)" "0 \<le> monitor_wnd (sch ?s)"
      "\<forall>p \<in> sched_lists ?s. 0 \<le> needs ?s p"
    by (simp_all add: lists_ok_def sched_lists_def needs_def sample_simps)
  have "case schedule fair_bw_cache_policy sample_env ?s of Inr t \<Rightarrow> progs_sch (sch t) = [20, 10]
      \<and> map_option cpuset (progs t 10) = Some [1] \<and> progs t 20 \<noteq> None | Inl _ \<Rightarrow> False"
    by code_simp
  then obtain t prog prog' where t: "schedule fair_bw_cache_policy sample_env ?s = Inr t"
      "progs_sch (sch t) = [20, 10]" "progs t 10 = Some prog" "cpuset prog = [1]" "progs t 20 = Some prog'"
    by (auto split: sum.splits)
  with schedule_keeps_cores_apart [OF _ ok(1) t(1) ok(2-5) t(3,5)] show ?thesis
    by simp
qed

end
